(* ===== verification/Prelude.thy ===== *)
theory Prelude
  imports Main "HOL-Library.Word"
begin

text \<open>
  Shared vocabulary of the NaviOS development: the machine integers of the
  kernel, the outcome of a Rust computation that may panic, the arithmetic and
  slice operations of the language as the kernel's dev profile compiles them
  (overflow checks on, bounds checks on), and the generic lemmas on words and
  lists that the component theories use.

  A Rust function that can panic returns \<open>'a rust\<close>: \<open>Inl p\<close> is a panic and
  \<open>Inr x\<close> a normal return. A Rust \<open>Result<T, E>\<close> is \<open>'e + 't\<close>, so a function
  that returns a \<open>Result\<close> and may also panic has type \<open>('e + 't) rust\<close>.
  \<open>DanglingPointer\<close> is not a panic of the language: it marks the use of a raw
  pointer whose target is gone, which Rust leaves undefined.
\<close>

unbundle bit_operations_syntax

section \<open>Machine integers\<close>

type_synonym u8 = "8 word"
type_synonym u16 = "16 word"
type_synonym u32 = "32 word"
type_synonym u64 = "64 word"
type_synonym usize = "64 word"

section \<open>Panics and results\<close>

datatype panic =
    ArithmeticOverflow
  | IndexOutOfBounds
  | LengthMismatch
  | UnwrapFailed
  | AssertionFailed
  | ExplicitPanic
  | NotImplemented
  | DivideByZero
  | Unreachable
  | DanglingPointer

type_synonym 'a rust = "panic + 'a"

text \<open>Sequencing: the rest of the function runs only when the first part returned.\<close>

definition rbind :: "'a rust \<Rightarrow> ('a \<Rightarrow> 'b rust) \<Rightarrow> 'b rust" where
  "rbind m f = (case m of Inl p \<Rightarrow> Inl p | Inr x \<Rightarrow> f x)"

text \<open>The \<open>?\<close> operator: an \<open>Err\<close> of the inner call is returned at once.\<close>

definition qbind :: "('e + 'a) rust \<Rightarrow> ('a \<Rightarrow> ('e + 'b) rust) \<Rightarrow> ('e + 'b) rust" where
  "qbind m f = rbind m (\<lambda>r. case r of Inl e \<Rightarrow> Inr (Inl e) | Inr x \<Rightarrow> f x)"

text \<open>\<open>Option::unwrap\<close> and \<open>assert!\<close>.\<close>

definition unwrap :: "'a option \<Rightarrow> 'a rust" where
  "unwrap x = (case x of None \<Rightarrow> Inl UnwrapFailed | Some y \<Rightarrow> Inr y)"

definition rassert :: "bool \<Rightarrow> unit rust" where
  "rassert b = (if b then Inr () else Inl AssertionFailed)"

named_theorems rust_simps \<open>evaluation and inversion of Rust computations\<close>

lemma rbind_Inl [simp, rust_simps]: "rbind (Inl p) f = Inl p"
  by (simp add: rbind_def)

lemma rbind_Inr [simp, rust_simps]: "rbind (Inr x) f = f x"
  by (simp add: rbind_def)

lemma rbind_eq_Inr [rust_simps]:
  "rbind m f = Inr y \<longleftrightarrow> (\<exists>x. m = Inr x \<and> f x = Inr y)"
  by (cases m) auto

lemma rbind_eq_Inl [rust_simps]:
  "rbind m f = Inl p \<longleftrightarrow> m = Inl p \<or> (\<exists>x. m = Inr x \<and> f x = Inl p)"
  by (cases m) auto

lemma rbind_assoc: "rbind (rbind m f) g = rbind m (\<lambda>x. rbind (f x) g)"
  by (cases m) auto

lemma rbind_cong [fundef_cong]:
  "m = m' \<Longrightarrow> (\<And>x. m' = Inr x \<Longrightarrow> f x = f' x) \<Longrightarrow> rbind m f = rbind m' f'"
  by (cases m') auto

lemma case_sum_eq:
  "(case x of Inl e \<Rightarrow> f e | Inr y \<Rightarrow> g y) = Inr z \<longleftrightarrow>
     (\<exists>e. x = Inl e \<and> f e = Inr z) \<or> (\<exists>y. x = Inr y \<and> g y = Inr z)"
  by (cases x) auto

lemma qbind_Inl [simp, rust_simps]: "qbind (Inl p) f = Inl p"
  by (simp add: qbind_def)

lemma qbind_Err [simp, rust_simps]: "qbind (Inr (Inl e)) f = Inr (Inl e)"
  by (simp add: qbind_def)

lemma qbind_Ok [simp, rust_simps]: "qbind (Inr (Inr x)) f = f x"
  by (simp add: qbind_def)

lemma qbind_eq_Ok [rust_simps]:
  "qbind m f = Inr (Inr y) \<longleftrightarrow> (\<exists>x. m = Inr (Inr x) \<and> f x = Inr (Inr y))"
  by (cases m; cases "projr m") auto

lemma qbind_eq_Err [rust_simps]:
  "qbind m f = Inr (Inl e) \<longleftrightarrow>
     m = Inr (Inl e) \<or> (\<exists>x. m = Inr (Inr x) \<and> f x = Inr (Inl e))"
  by (cases m; cases "projr m") auto

lemma qbind_cong [fundef_cong]:
  "m = m' \<Longrightarrow> (\<And>x. m' = Inr (Inr x) \<Longrightarrow> f x = f' x) \<Longrightarrow> qbind m f = qbind m' f'"
  by (auto simp: qbind_def split: sum.splits intro: rbind_cong)

lemma unwrap_Some [simp, rust_simps]: "unwrap (Some x) = Inr x"
  by (simp add: unwrap_def)

lemma unwrap_None [simp, rust_simps]: "unwrap None = Inl UnwrapFailed"
  by (simp add: unwrap_def)

lemma unwrap_eq_Inr [rust_simps]: "unwrap m = Inr x \<longleftrightarrow> m = Some x"
  by (cases m) auto

lemma rassert_eq_Inr [rust_simps]: "rassert b = Inr u \<longleftrightarrow> b"
  by (simp add: rassert_def)

lemma rassert_True [simp]: "b \<Longrightarrow> rassert b = Inr ()"
  by (simp add: rassert_def)

lemma rassert_False [simp]: "\<not> b \<Longrightarrow> rassert b = Inl AssertionFailed"
  by (simp add: rassert_def)

text \<open>
  The \<open>?\<close> operator in a function that also changes the state: the state at the
  point of the error is kept.
\<close>

definition sbind :: "(('e + 'a) \<times> 's) rust \<Rightarrow> ('a \<Rightarrow> 's \<Rightarrow> (('e + 'b) \<times> 's) rust) \<Rightarrow>
    (('e + 'b) \<times> 's) rust" where
  "sbind m f = rbind m (\<lambda>(r, s). case r of Inl e \<Rightarrow> Inr (Inl e, s) | Inr x \<Rightarrow> f x s)"

lemma sbind_Inl [simp, rust_simps]: "sbind (Inl p) f = Inl p"
  by (simp add: sbind_def)

lemma sbind_Err [simp, rust_simps]: "sbind (Inr (Inl e, s)) f = Inr (Inl e, s)"
  by (simp add: sbind_def)

lemma sbind_Ok [simp, rust_simps]: "sbind (Inr (Inr x, s)) f = f x s"
  by (simp add: sbind_def)

lemma sbind_cong [fundef_cong]:
  "m = m' \<Longrightarrow> (\<And>x s. m' = Inr (Inr x, s) \<Longrightarrow> f x s = f' x s) \<Longrightarrow> sbind m f = sbind m' f'"
  by (auto simp: sbind_def split: sum.splits prod.splits intro!: rbind_cong)

section \<open>Checked arithmetic\<close>

definition add_w :: "'a::len word \<Rightarrow> 'a word \<Rightarrow> 'a word rust" where
  "add_w a b =
     (if unat a + unat b < 2 ^ LENGTH('a) then Inr (a + b) else Inl ArithmeticOverflow)"

definition sub_w :: "'a::len word \<Rightarrow> 'a word \<Rightarrow> 'a word rust" where
  "sub_w a b = (if b \<le> a then Inr (a - b) else Inl ArithmeticOverflow)"

definition mul_w :: "'a::len word \<Rightarrow> 'a word \<Rightarrow> 'a word rust" where
  "mul_w a b =
     (if unat a * unat b < 2 ^ LENGTH('a) then Inr (a * b) else Inl ArithmeticOverflow)"

text \<open>\<open>usize::checked_add\<close>, which returns an \<open>Option\<close> instead of panicking.\<close>

definition checked_add :: "'a::len word \<Rightarrow> 'a word \<Rightarrow> 'a word option" where
  "checked_add a b =
     (if unat a + unat b < 2 ^ LENGTH('a) then Some (a + b) else None)"

lemma add_w_eq_Inr [rust_simps]:
  "add_w a b = Inr c \<longleftrightarrow> unat a + unat b < 2 ^ LENGTH('a) \<and> c = a + b"
  for a b :: "'a::len word"
  by (auto simp: add_w_def)

lemma sub_w_eq_Inr [rust_simps]: "sub_w a b = Inr c \<longleftrightarrow> b \<le> a \<and> c = a - b"
  by (auto simp: sub_w_def)

lemma mul_w_eq_Inr [rust_simps]:
  "mul_w a b = Inr c \<longleftrightarrow> unat a * unat b < 2 ^ LENGTH('a) \<and> c = a * b"
  for a b :: "'a::len word"
  by (auto simp: mul_w_def)

lemma checked_add_eq_Some [rust_simps]:
  "checked_add a b = Some c \<longleftrightarrow> unat a + unat b < 2 ^ LENGTH('a) \<and> c = a + b"
  for a b :: "'a::len word"
  by (auto simp: checked_add_def)

lemma unat_add_small:
  "unat a + unat b < 2 ^ LENGTH('a) \<Longrightarrow> unat (a + b) = unat a + unat b"
  for a b :: "'a::len word"
  by (simp add: unat_word_ariths)

lemma unat_mul_small:
  "unat a * unat b < 2 ^ LENGTH('a) \<Longrightarrow> unat (a * b) = unat a * unat b"
  for a b :: "'a::len word"
  by (simp add: unat_word_ariths)

lemma unat_sub_small: "b \<le> a \<Longrightarrow> unat (a - b) = unat a - unat b"
  for a b :: "'a::len word"
  by (simp add: unat_sub_if' word_le_nat_alt)

lemma add_w_unat: "add_w a b = Inr c \<Longrightarrow> unat c = unat a + unat b"
  for a b :: "'a::len word"
  by (simp add: add_w_eq_Inr unat_add_small)

lemma sub_w_unat: "sub_w a b = Inr c \<Longrightarrow> unat c = unat a - unat b \<and> unat b \<le> unat a"
  for a b :: "'a::len word"
  by (simp add: sub_w_eq_Inr unat_sub_small word_le_nat_alt)

lemma mul_w_unat: "mul_w a b = Inr c \<Longrightarrow> unat c = unat a * unat b"
  for a b :: "'a::len word"
  by (simp add: mul_w_eq_Inr unat_mul_small)

lemma unat_lt_2p64 [simp]: "unat (a :: usize) < 18446744073709551616"
proof -
  have "unat a < 2 ^ LENGTH(64)" by (rule unsigned_less)
  then show ?thesis by simp
qed

lemma unat_of_nat_small:
  "n < 2 ^ LENGTH('a) \<Longrightarrow> unat (of_nat n :: 'a::len word) = n"
  by (simp add: unat_of_nat take_bit_nat_eq_self)

section \<open>Slices and vectors\<close>

text \<open>Indexing, indexed assignment and range slicing, with the bounds checks of the language.\<close>

definition idx :: "'a list \<Rightarrow> nat \<Rightarrow> 'a rust" where
  "idx xs i = (if i < length xs then Inr (xs ! i) else Inl IndexOutOfBounds)"

definition idx_set :: "'a list \<Rightarrow> nat \<Rightarrow> 'a \<Rightarrow> 'a list rust" where
  "idx_set xs i v = (if i < length xs then Inr (xs[i := v]) else Inl IndexOutOfBounds)"

definition slice :: "'a list \<Rightarrow> nat \<Rightarrow> nat \<Rightarrow> 'a list rust" where
  "slice xs from til =
     (if from \<le> til \<and> til \<le> length xs then Inr (take (til - from) (drop from xs))
      else Inl IndexOutOfBounds)"

text \<open>
  \<open>dst[from..til].copy_from_slice(src)\<close>: the range must be in bounds and the
  two slices must have the same length.
\<close>

definition copy_into :: "'a list \<Rightarrow> nat \<Rightarrow> nat \<Rightarrow> 'a list \<Rightarrow> 'a list rust" where
  "copy_into dst from til src =
     (if \<not> (from \<le> til \<and> til \<le> length dst) then Inl IndexOutOfBounds
      else if length src \<noteq> til - from then Inl LengthMismatch
      else Inr (take from dst @ src @ drop til dst))"

lemma idx_eq_Inr [rust_simps]: "idx xs i = Inr x \<longleftrightarrow> i < length xs \<and> x = xs ! i"
  by (auto simp: idx_def)

lemma idx_set_eq_Inr [rust_simps]:
  "idx_set xs i v = Inr ys \<longleftrightarrow> i < length xs \<and> ys = xs[i := v]"
  by (auto simp: idx_set_def)

lemma copy_into_length: "copy_into dst from til src = Inr ys \<Longrightarrow> length ys = length dst"
  by (auto simp: copy_into_def split: if_splits)

end
