(* ===== verification/Addresses.thy ===== *)
theory Addresses
  imports Prelude
begin

text \<open>
  \<open>kernel/src/memory/mod.rs\<close>: alignment of addresses and the split of a virtual
  address into page-table indices. Alignments are characterised for powers of
  two, the only ones the kernel passes: \<open>align_down\<close> and \<open>align_up\<close> round to the
  multiples of the alignment, and the four indices and the page offset determine
  the low 48 bits of the address.
\<close>

type_synonym virt_addr = usize
type_synonym phys_addr = usize

definition PAGE_SIZE :: usize where
  "PAGE_SIZE = 4096"

lemma unat_PAGE_SIZE [simp]: "unat PAGE_SIZE = 4096"
  by (simp add: PAGE_SIZE_def)

section \<open>Alignment\<close>

text \<open>
  \<open>(address + alignment - 1) & !(alignment - 1)\<close>: the sum and both differences
  are checked.
\<close>

definition align_up :: "usize \<Rightarrow> usize \<Rightarrow> usize rust" where
  "align_up address alignment =
     rbind (add_w address alignment) (\<lambda>s.
     rbind (sub_w s 1) (\<lambda>t.
     rbind (sub_w alignment 1) (\<lambda>m.
     Inr (t AND NOT m))))"

definition align_down :: "usize \<Rightarrow> usize \<Rightarrow> usize rust" where
  "align_down x alignment =
     rbind (sub_w alignment 1) (\<lambda>m. Inr (x AND NOT m))"

section \<open>Page-table indices\<close>

definition p4_index :: "virt_addr \<Rightarrow> usize" where
  "p4_index addr = drop_bit 39 addr AND 0x1FF"

definition p3_index :: "virt_addr \<Rightarrow> usize" where
  "p3_index addr = drop_bit 30 addr AND 0x1FF"

definition p2_index :: "virt_addr \<Rightarrow> usize" where
  "p2_index addr = drop_bit 21 addr AND 0x1FF"

definition p1_index :: "virt_addr \<Rightarrow> usize" where
  "p1_index addr = drop_bit 12 addr AND 0x1FF"

definition translate :: "virt_addr \<Rightarrow> phys_addr \<times> usize \<times> usize \<times> usize \<times> usize" where
  "translate addr =
     (addr AND 0xFFF, p1_index addr, p2_index addr, p3_index addr, p4_index addr)"

section \<open>Rounding\<close>

lemma mask_eq_sub_one: "(2 ^ k :: 'a::len word) - 1 = mask k"
  by (simp add: mask_eq_decr_exp)

lemma unat_pow2: "k < LENGTH('a) \<Longrightarrow> unat ((2::'a::len word) ^ k) = 2 ^ k"
  using unat_of_nat_small [of "2 ^ k", where 'a = 'a] by simp

lemma unat_and_not_mask:
  "unat (x AND NOT (mask k)) = unat x div 2 ^ k * 2 ^ k"
  for x :: "'a::len word"
proof -
  have low: "unat x div 2 ^ k * 2 ^ k < 2 ^ LENGTH('a)"
    using unsigned_less [of x] by (rule le_less_trans [rotated]) simp
  have tb: "take_bit LENGTH('a) (unat x) = unat x"
    by (simp add: take_bit_nat_eq_self)
  have "x AND NOT (mask k) = push_bit k (drop_bit k x)"
    by (rule bit_word_eqI) (auto simp: bit_simps)
  then have "unat (x AND NOT (mask k)) =
      take_bit LENGTH('a) (push_bit k (drop_bit k (unat x)))"
    by (simp add: unsigned_push_bit_eq unsigned_drop_bit_eq tb)
  also have "push_bit k (drop_bit k (unat x)) = unat x div 2 ^ k * 2 ^ k"
    by (simp add: push_bit_eq_mult drop_bit_eq_div)
  finally show ?thesis using low by (simp add: take_bit_nat_eq_self)
qed

lemma align_down_pow2:
  assumes "k < 64"
  shows "align_down x (2 ^ k) = Inr (x AND NOT (mask k))"
proof -
  have "(1::usize) \<le> 2 ^ k"
    using assms by (simp add: word_le_nat_alt unat_pow2)
  then show ?thesis
    by (simp add: align_down_def sub_w_def mask_eq_sub_one)
qed

lemma align_up_pow2_arith:
  fixes a k :: nat
  assumes "0 < k"
  shows "(a + k - 1) div k * k = (if k dvd a then a else a div k * k + k)"
proof -
  have "a + k - 1 = (a mod k + k - 1) + a div k * k"
    using div_mult_mod_eq [of a k] assms by linarith
  then have "(a + k - 1) div k = (a mod k + k - 1) div k + a div k"
    using assms by (metis add.commute div_mult_self3 less_numeral_extra(3))
  moreover have "(a mod k + k - 1) div k = (if a mod k = 0 then 0 else 1)"
  proof (cases "a mod k = 0")
    case True
    then show ?thesis using assms by simp
  next
    case False
    moreover have "a mod k < k" using assms by simp
    ultimately have "k \<le> a mod k + k - 1" "a mod k + k - 1 < 2 * k" by linarith+
    then show ?thesis using False by (simp add: div_nat_eqI)
  qed
  ultimately show ?thesis by (auto simp: dvd_eq_mod_eq_0 algebra_simps)
qed

lemma align_up_pow2:
  assumes "k < 64"
  shows "align_up x (2 ^ k) =
     (if unat x + 2 ^ k < 2 ^ 64 then Inr ((x + mask k) AND NOT (mask k))
      else Inl ArithmeticOverflow)"
proof -
  have k: "unat ((2::usize) ^ k) = 2 ^ k" using assms by (simp add: unat_pow2)
  show ?thesis
  proof (cases "unat x + 2 ^ k < 2 ^ 64")
    case True
    then have s: "unat (x + 2 ^ k) = unat x + 2 ^ k"
      using k by (simp add: unat_word_ariths)
    have "(1::usize) \<le> x + 2 ^ k" "(1::usize) \<le> 2 ^ k"
      using s k by (simp_all add: word_le_nat_alt trans_le_add2)
    then show ?thesis using True k
      by (simp add: align_up_def add_w_def sub_w_def mask_eq_sub_one flip: add_diff_eq)
  next
    case False
    then show ?thesis using k by (simp add: align_up_def add_w_def)
  qed
qed

lemma unat_align_up_value:
  fixes x :: usize
  assumes "k < 64" and "unat x + 2 ^ k < 2 ^ 64"
  shows "unat ((x + mask k) AND NOT (mask k)) =
     (if 2 ^ k dvd unat x then unat x else unat x div 2 ^ k * 2 ^ k + 2 ^ k)"
proof -
  have "(1::usize) \<le> 2 ^ k"
    using assms(1) by (simp add: word_le_nat_alt unat_pow2)
  then have "unat (mask k :: usize) = 2 ^ k - 1"
    using assms(1) by (simp add: unat_sub_small unat_pow2 flip: mask_eq_sub_one)
  moreover have "(0::nat) < 2 ^ k" by simp
  ultimately have "unat (x + mask k) = unat x + 2 ^ k - 1"
    using assms(2) by (simp add: unat_word_ariths)
  then show ?thesis
    by (simp only: unat_and_not_mask align_up_pow2_arith [OF \<open>0 < 2 ^ k\<close>])
qed

lemma align_down_bounds:
  assumes "k < 64" and "align_down x (2 ^ k) = Inr d"
  shows "2 ^ k dvd unat d" and "unat d \<le> unat x" and "unat x < unat d + 2 ^ k"
proof -
  from assms have d: "unat d = unat x div 2 ^ k * 2 ^ k"
    by (auto simp: align_down_pow2 unat_and_not_mask)
  then show "2 ^ k dvd unat d" and "unat d \<le> unat x" by simp_all
  have "unat x mod 2 ^ k < 2 ^ k" by simp
  with d show "unat x < unat d + 2 ^ k"
    using div_mult_mod_eq [of "unat x" "2 ^ k"] by linarith
qed

lemma align_up_bounds:
  assumes "k < 64" and "align_up x (2 ^ k) = Inr u"
  shows "2 ^ k dvd unat u" and "unat x \<le> unat u" and "unat u < unat x + 2 ^ k"
    and "unat x + 2 ^ k < 2 ^ 64"
proof -
  from assms show fits: "unat x + 2 ^ k < 2 ^ 64"
    by (simp add: align_up_pow2 split: if_splits)
  with assms have u: "unat u =
      (if 2 ^ k dvd unat x then unat x else unat x div 2 ^ k * 2 ^ k + 2 ^ k)"
    using unat_align_up_value [of k x] by (simp add: align_up_pow2)
  then show "2 ^ k dvd unat u" by auto
  have mod: "unat x mod 2 ^ k < 2 ^ k" by simp
  have split: "unat x = unat x div 2 ^ k * 2 ^ k + unat x mod 2 ^ k"
    by (rule div_mult_mod_eq [symmetric])
  show "unat x \<le> unat u"
  proof (cases "2 ^ k dvd unat x")
    case True
    then show ?thesis using u by simp
  next
    case False
    then have "unat u = unat x div 2 ^ k * 2 ^ k + 2 ^ k" using u by simp
    with mod split show ?thesis by linarith
  qed
  show "unat u < unat x + 2 ^ k"
  proof (cases "2 ^ k dvd unat x")
    case True
    then show ?thesis using u by simp
  next
    case False
    then have "0 < unat x mod 2 ^ k" by (simp add: dvd_eq_mod_eq_0)
    with u False split show ?thesis by simp
  qed
qed

lemma align_up_idem:
  assumes "k < 64" and "2 ^ k dvd unat x" and "unat x + 2 ^ k < 2 ^ 64"
  shows "align_up x (2 ^ k) = Inr x"
  using assms unat_align_up_value [of k x]
  by (simp add: align_up_pow2 word_unat_eq_iff)

text \<open>
  C35: for every power-of-two alignment below the word size, \<open>align_down\<close> returns
  the greatest multiple of the alignment that is not above the address, and
  \<open>align_up\<close> returns the least multiple that is not below it, panicking exactly
  when \<open>address + alignment\<close> overflows.
\<close>

theorem align_correct:
  assumes "k < 64"
  shows "(\<exists>d. align_down x (2 ^ k) = Inr d \<and>
            2 ^ k dvd unat d \<and> unat d \<le> unat x \<and> unat x < unat d + 2 ^ k) \<and>
         (case align_up x (2 ^ k) of
            Inl p \<Rightarrow> p = ArithmeticOverflow \<and> 2 ^ 64 \<le> unat x + 2 ^ k
          | Inr u \<Rightarrow> unat x + 2 ^ k < 2 ^ 64 \<and>
              2 ^ k dvd unat u \<and> unat x \<le> unat u \<and> unat u < unat x + 2 ^ k)"
proof (intro conjI)
  show "\<exists>d. align_down x (2 ^ k) = Inr d \<and>
      2 ^ k dvd unat d \<and> unat d \<le> unat x \<and> unat x < unat d + 2 ^ k"
    using align_down_bounds [OF assms] align_down_pow2 [OF assms] by blast
  show "case align_up x (2 ^ k) of
      Inl p \<Rightarrow> p = ArithmeticOverflow \<and> 2 ^ 64 \<le> unat x + 2 ^ k
    | Inr u \<Rightarrow> unat x + 2 ^ k < 2 ^ 64 \<and>
        2 ^ k dvd unat u \<and> unat x \<le> unat u \<and> unat u < unat x + 2 ^ k"
  proof (cases "align_up x (2 ^ k)")
    case (Inl p)
    then show ?thesis using assms by (auto simp: align_up_pow2 split: if_splits)
  next
    case (Inr u)
    then show ?thesis using align_up_bounds [OF assms Inr] by simp
  qed
qed

theorem align_correct_witness:
  "(12::nat) < 64 \<and> align_up 5000 4096 = Inr 8192 \<and> align_down 5000 4096 = Inr 4096 \<and>
   4096 dvd unat (8192::usize)"
proof -
  have k: "(12::nat) < 64" by simp
  have up: "align_up 5000 4096 = Inr 8192" and down: "align_down 5000 4096 = Inr 4096"
    by (simp_all add: align_up_def align_down_def add_w_def sub_w_def)
  show ?thesis using align_correct [OF k, of 5000] up down k by simp
qed

section \<open>Splitting a virtual address\<close>

lemma index_mask: "(0x1FF :: usize) = mask 9" "(0xFFF :: usize) = mask 12"
  by (simp_all add: mask_eq_decr_exp)

lemma unat_and_mask: "unat (a AND mask n) = unat a mod 2 ^ n" for a :: "'a::len word"
proof -
  have "unat (a AND mask n) = take_bit n (unat a)"
    by (simp only: take_bit_eq_mask [symmetric] unsigned_take_bit_eq)
  then show ?thesis by (simp only: take_bit_eq_mod)
qed

lemma unat_index: "unat (drop_bit n a AND 0x1FF) = (unat a div 2 ^ n) mod 512"
  for a :: usize
  by (simp only: index_mask unat_and_mask unat_drop_bit_eq) (simp add: drop_bit_eq_div)

lemmas unat_p_index =
  unat_index [of 39, folded p4_index_def] unat_index [of 30, folded p3_index_def]
  unat_index [of 21, folded p2_index_def] unat_index [of 12, folded p1_index_def]

lemma p_index_lt:
  "unat (p4_index a) < 512" "unat (p3_index a) < 512"
  "unat (p2_index a) < 512" "unat (p1_index a) < 512"
  by (simp_all add: unat_p_index)

lemma unat_page_offset: "unat (a AND 0xFFF) = unat a mod 4096" for a :: usize
  by (simp only: index_mask unat_and_mask) simp

lemma mod_split: "x mod (m * 512) = x mod m + m * (x div m mod 512)" for x m :: nat
  by (simp add: mod_mult2_eq)

lemma radix_split:
  fixes x :: nat
  shows "x mod 281474976710656 =
      x mod 4096 + 4096 * (x div 4096 mod 512) + 2097152 * (x div 2097152 mod 512)
      + 1073741824 * (x div 1073741824 mod 512) + 549755813888 * (x div 549755813888 mod 512)"
  using mod_split [of x 4096] mod_split [of x 2097152] mod_split [of x 1073741824]
    mod_split [of x 549755813888]
  by simp

text \<open>
  \<open>translate\<close> loses nothing of a 48-bit virtual address: the four table
  indices are below 512 and, with the page offset, they add up to the low 48
  bits of the address.
\<close>

lemma translate_roundtrip:
  "case translate a of (off, i1, i2, i3, i4) \<Rightarrow>
     unat off < 4096 \<and> unat i1 < 512 \<and> unat i2 < 512 \<and> unat i3 < 512 \<and> unat i4 < 512 \<and>
     unat off + 2 ^ 12 * unat i1 + 2 ^ 21 * unat i2 + 2 ^ 30 * unat i3 + 2 ^ 39 * unat i4
       = unat a mod 2 ^ 48"
  using radix_split [of "unat a"]
  by (simp add: translate_def unat_p_index unat_page_offset)

end
