(* ===== verification/Frame_Allocator.thy ===== *)
theory Frame_Allocator
  imports Addresses
begin

text \<open>
  \<open>kernel/src/memory/frame_allocator.rs\<close>: the physical frame allocator, a bitmap
  with one bit per 4 KiB frame (1 = used) searched first-fit from \<open>search_from\<close>.
  The bitmap is a list of bytes; the memory map of the Limine boot protocol, which
  is not part of the sources, is an argument of \<open>region_allocator_new\<close>.

  The abstract view of an allocator is its set of free frame numbers
  (\<open>free_frames\<close>); the locale \<open>frame_source\<close> states what the page-table code
  relies on, and is interpreted on the bitmap operations.
\<close>

section \<open>State and operations\<close>

record frame =
  start_address :: phys_addr

definition frame_containing_address :: "phys_addr \<Rightarrow> frame rust" where
  "frame_containing_address address =
     rbind (align_down address PAGE_SIZE) (\<lambda>a. Inr \<lparr>start_address = a\<rparr>)"

record region_allocator =
  bitmap :: "u8 list"
  search_from :: usize

definition bitmap_loc_from_index :: "usize \<Rightarrow> usize \<times> usize" where
  "bitmap_loc_from_index index = (index div 8, index mod 8)"

definition bitmap_loc_from_addr :: "phys_addr \<Rightarrow> (usize \<times> usize) rust" where
  "bitmap_loc_from_addr addr =
     rbind (align_down addr PAGE_SIZE) (\<lambda>a. Inr (bitmap_loc_from_index (a div PAGE_SIZE)))"

definition bitmap_index_from_loc :: "usize \<Rightarrow> usize \<Rightarrow> usize rust" where
  "bitmap_index_from_loc row col = rbind (mul_w row 8) (\<lambda>r. add_w r col)"

definition bitmap_index_from_addr :: "phys_addr \<Rightarrow> usize rust" where
  "bitmap_index_from_addr addr =
     rbind (bitmap_loc_from_addr addr) (\<lambda>(row, col). bitmap_index_from_loc row col)"

definition set_unused :: "region_allocator \<Rightarrow> phys_addr \<Rightarrow> region_allocator rust" where
  "set_unused ra addr =
     rbind (bitmap_loc_from_addr addr) (\<lambda>(row, col).
     rbind (idx (bitmap ra) (unat row)) (\<lambda>b.
     Inr (ra\<lparr>bitmap := (bitmap ra)[unat row := b XOR push_bit (unat col) 1]\<rparr>)))"

definition set_used :: "region_allocator \<Rightarrow> phys_addr \<Rightarrow> region_allocator rust" where
  "set_used ra addr =
     rbind (bitmap_loc_from_addr addr) (\<lambda>(row, col).
     rbind (idx (bitmap ra) (unat row)) (\<lambda>b.
     Inr (ra\<lparr>bitmap := (bitmap ra)[unat row := b OR push_bit (unat col) 1]\<rparr>)))"

text \<open>The inner loop \<open>for col in scol..8\<close> and the outer loop over the rows.\<close>

function search_cols :: "u8 \<Rightarrow> nat \<Rightarrow> nat option" where
  "search_cols b col =
     (if col < 8 then
        if drop_bit col b AND 1 = 0 then Some col else search_cols b (Suc col)
      else None)"
  by pat_completeness auto
termination by (relation "measure (\<lambda>(b, col). 8 - col)") auto

function search_rows :: "u8 list \<Rightarrow> nat \<Rightarrow> nat \<Rightarrow> nat \<Rightarrow> (nat \<times> nat) option" where
  "search_rows bm srow row scol =
     (if row < length bm then
        let scol' = (if row \<noteq> srow then 0 else scol) in
        case search_cols (bm ! row) scol' of
          Some col \<Rightarrow> Some (row, col)
        | None \<Rightarrow> search_rows bm srow (Suc row) scol'
      else None)"
  by pat_completeness auto
termination by (relation "measure (\<lambda>(bm, srow, row, scol). length bm - row)") auto

declare search_cols.simps [simp del] search_rows.simps [simp del]

definition search_for_free_frame :: "region_allocator \<Rightarrow> frame option rust" where
  "search_for_free_frame ra =
     (let (srow, scol) = bitmap_loc_from_index (search_from ra) in
      case search_rows (bitmap ra) (unat srow) (unat srow) (unat scol) of
        None \<Rightarrow> Inr None
      | Some (row, col) \<Rightarrow>
          rbind (bitmap_index_from_loc (of_nat row) (of_nat col)) (\<lambda>i.
          rbind (mul_w i PAGE_SIZE) (\<lambda>a. Inr (Some \<lparr>start_address = a\<rparr>))))"

definition allocate_frame :: "region_allocator \<Rightarrow> (frame option \<times> region_allocator) rust" where
  "allocate_frame ra =
     rbind (search_for_free_frame ra) (\<lambda>found. case found of
       None \<Rightarrow> Inr (None, ra)
     | Some frame \<Rightarrow>
         rbind (set_used ra (start_address frame)) (\<lambda>ra'. Inr (Some frame, ra')))"

definition deallocate_frame :: "region_allocator \<Rightarrow> frame \<Rightarrow> region_allocator rust" where
  "deallocate_frame ra frame = set_unused ra (start_address frame)"

section \<open>The set of free frames\<close>

definition frame_free :: "region_allocator \<Rightarrow> nat \<Rightarrow> bool" where
  "frame_free ra i \<longleftrightarrow> i < 8 * length (bitmap ra) \<and> \<not> bit (bitmap ra ! (i div 8)) (i mod 8)"

definition free_frames :: "region_allocator \<Rightarrow> nat set" where
  "free_frames ra = {i. unat (search_from ra) \<le> i \<and> frame_free ra i}"

lemma finite_free_frames: "finite (free_frames ra)"
  by (rule finite_subset [of _ "{..<8 * length (bitmap ra)}"]) (auto simp: free_frames_def frame_free_def)

definition frame_no :: "frame \<Rightarrow> nat" where
  "frame_no f = unat (start_address f) div 4096"

text \<open>Every bit of the bitmap stands for an addressable frame.\<close>

definition ra_inv :: "region_allocator \<Rightarrow> bool" where
  "ra_inv ra \<longleftrightarrow> length (bitmap ra) \<le> 2 ^ 49"

lemma align_down_page: "align_down a PAGE_SIZE = Inr (a AND NOT (mask 12))"
  using align_down_pow2 [of 12 a] by (simp add: PAGE_SIZE_def)

lemma unat_page_floor: "unat (a AND NOT (mask 12)) = unat a div 4096 * 4096" for a :: usize
  using unat_and_not_mask [of a 12] by simp

lemma frame_containing_address_eq:
  "frame_containing_address a = Inr \<lparr>start_address = a AND NOT (mask 12)\<rparr>"
  by (simp add: frame_containing_address_def align_down_page)

lemma bitmap_loc_from_addr_eq:
  obtains row col where "bitmap_loc_from_addr a = Inr (row, col)"
    and "unat row = unat a div 4096 div 8" and "unat col = unat a div 4096 mod 8"
proof -
  have "unat ((a AND NOT (mask 12)) div PAGE_SIZE) = unat a div 4096"
    by (simp add: PAGE_SIZE_def unat_div unat_page_floor)
  then show ?thesis
    by (intro that) (auto simp: bitmap_loc_from_addr_def align_down_page
        bitmap_loc_from_index_def unat_div unat_mod)
qed

lemma bit_pow2_u8: "bit ((2::u8) ^ c) j \<longleftrightarrow> j = c \<and> c < 8"
  by (auto simp: bit_exp_iff)

lemma loc_eq_iff: "i div 8 = n div 8 \<and> i mod 8 = n mod 8 \<longleftrightarrow> i = n" for i n :: nat
  by (metis div_mult_mod_eq)

lemma frame_free_list_update:
  assumes "n < 8 * length bm"
  shows "frame_free (ra\<lparr>bitmap := bm[n div 8 := v]\<rparr>) i \<longleftrightarrow>
     i < 8 * length bm \<and>
     (if i div 8 = n div 8 then \<not> bit v (i mod 8) else \<not> bit (bm ! (i div 8)) (i mod 8))"
  using assms by (auto simp: frame_free_def less_mult_imp_div_less nth_list_update)

lemma set_used_eq:
  assumes "unat a div 4096 < 8 * length (bitmap ra)"
  shows "\<exists>ra'. set_used ra a = Inr ra' \<and> search_from ra' = search_from ra \<and>
     length (bitmap ra') = length (bitmap ra) \<and>
     (\<forall>i. frame_free ra' i \<longleftrightarrow> frame_free ra i \<and> i \<noteq> unat a div 4096)"
proof -
  define n where "n = unat a div 4096"
  obtain row col where loc: "bitmap_loc_from_addr a = Inr (row, col)"
    and row: "unat row = n div 8" and col: "unat col = n mod 8"
    unfolding n_def by (rule bitmap_loc_from_addr_eq)
  have n: "n < 8 * length (bitmap ra)" using assms by (simp add: n_def)
  then have len: "n div 8 < length (bitmap ra)" by (simp add: less_mult_imp_div_less)
  define v where "v = bitmap ra ! (n div 8) OR 2 ^ (n mod 8)"
  have eq: "set_used ra a = Inr (ra\<lparr>bitmap := (bitmap ra)[n div 8 := v]\<rparr>)"
    by (simp add: set_used_def loc idx_def row col len v_def)
  have "bit v (i mod 8) \<longleftrightarrow> bit (bitmap ra ! (n div 8)) (i mod 8) \<or> i mod 8 = n mod 8" for i
    by (auto simp: v_def bit_or_iff bit_pow2_u8)
  then have "frame_free (ra\<lparr>bitmap := (bitmap ra)[n div 8 := v]\<rparr>) i \<longleftrightarrow>
      frame_free ra i \<and> i \<noteq> n" for i
    unfolding frame_free_list_update [OF n] unfolding frame_free_def
    using loc_eq_iff [of i n] by (cases "i div 8 = n div 8") auto
  with eq show ?thesis by (simp add: n_def)
qed

lemma set_unused_eq:
  assumes "unat a div 4096 < 8 * length (bitmap ra)"
  shows "\<exists>ra'. set_unused ra a = Inr ra' \<and> search_from ra' = search_from ra \<and>
     length (bitmap ra') = length (bitmap ra) \<and>
     (\<forall>i. frame_free ra' i \<longleftrightarrow>
        (if i = unat a div 4096 then \<not> frame_free ra i else frame_free ra i))"
proof -
  define n where "n = unat a div 4096"
  obtain row col where loc: "bitmap_loc_from_addr a = Inr (row, col)"
    and row: "unat row = n div 8" and col: "unat col = n mod 8"
    unfolding n_def by (rule bitmap_loc_from_addr_eq)
  have n: "n < 8 * length (bitmap ra)" using assms by (simp add: n_def)
  then have len: "n div 8 < length (bitmap ra)" by (simp add: less_mult_imp_div_less)
  define v where "v = bitmap ra ! (n div 8) XOR 2 ^ (n mod 8)"
  have eq: "set_unused ra a = Inr (ra\<lparr>bitmap := (bitmap ra)[n div 8 := v]\<rparr>)"
    by (simp add: set_unused_def loc idx_def row col len v_def)
  have "bit v (i mod 8) \<longleftrightarrow> bit (bitmap ra ! (n div 8)) (i mod 8) \<noteq> (i mod 8 = n mod 8)" for i
    by (auto simp: v_def bit_xor_iff bit_pow2_u8)
  then have "frame_free (ra\<lparr>bitmap := (bitmap ra)[n div 8 := v]\<rparr>) i \<longleftrightarrow>
      (if i = n then \<not> frame_free ra i else frame_free ra i)" for i
    unfolding frame_free_list_update [OF n] unfolding frame_free_def
    using loc_eq_iff [of i n] n by (cases "i div 8 = n div 8"; cases "i = n") simp_all
  with eq show ?thesis by (simp add: n_def)
qed

section \<open>First-fit search\<close>

lemma drop_bit_and_1: "drop_bit c b AND 1 = 0 \<longleftrightarrow> \<not> bit b c" for b :: u8
  by (simp add: and_one_eq bit_iff_odd_drop_bit mod2_eq_if)

lemma search_cols_spec:
  "case search_cols b c of
     Some c' \<Rightarrow> c \<le> c' \<and> c' < 8 \<and> \<not> bit b c' \<and> (\<forall>j. c \<le> j \<and> j < c' \<longrightarrow> bit b j)
   | None \<Rightarrow> \<forall>j. c \<le> j \<and> j < 8 \<longrightarrow> bit b j"
proof (induction b c rule: search_cols.induct)
  case (1 b c)
  show ?case
  proof (cases "c < 8 \<and> bit b c")
    case True
    with 1 have IH: "case search_cols b (Suc c) of
        Some c' \<Rightarrow> Suc c \<le> c' \<and> c' < 8 \<and> \<not> bit b c' \<and> (\<forall>j. Suc c \<le> j \<and> j < c' \<longrightarrow> bit b j)
      | None \<Rightarrow> \<forall>j. Suc c \<le> j \<and> j < 8 \<longrightarrow> bit b j"
      by (simp add: drop_bit_and_1)
    have "search_cols b c = search_cols b (Suc c)"
      using True by (simp add: search_cols.simps [of b c] drop_bit_and_1)
    with IH True show ?thesis
      by (auto split: option.splits) (metis Suc_leI le_neq_implies_less)+
  next
    case False
    then show ?thesis by (auto simp: search_cols.simps [of b c] drop_bit_and_1)
  qed
qed

lemma frame_free_row:
  "k < 8 \<Longrightarrow> frame_free ra (8 * row + k) \<longleftrightarrow> row < length (bitmap ra) \<and> \<not> bit (bitmap ra ! row) k"
  by (auto simp: frame_free_def)

lemma row_used:
  assumes "\<And>k. c \<le> k \<Longrightarrow> k < d \<Longrightarrow> bit (bitmap ra ! row) k" and "d \<le> 8" and "8 * row + c \<le> j" and "j < 8 * row + d"
  shows "\<not> frame_free ra j"
  using assms frame_free_row [of "j - 8 * row" ra row] by auto

lemma search_rows_spec:
  fixes ra :: region_allocator
  assumes "srow \<le> row" and "scol < 8" and "start = 8 * row + (if row = srow then scol else 0)"
  shows "case search_rows (bitmap ra) srow row scol of
     Some (r, c) \<Rightarrow> c < 8 \<and> frame_free ra (8 * r + c) \<and> start \<le> 8 * r + c \<and>
       (\<forall>j. start \<le> j \<and> j < 8 * r + c \<longrightarrow> \<not> frame_free ra j)
   | None \<Rightarrow> \<forall>j. start \<le> j \<longrightarrow> \<not> frame_free ra j"
  using assms
proof (induction "bitmap ra" srow row scol arbitrary: start rule: search_rows.induct)
  case (1 srow row scol)
  define scol' where "scol' = (if row \<noteq> srow then 0 else scol)"
  have start: "start = 8 * row + scol'" and sc: "scol' < 8" using "1.prems" by (simp_all add: scol'_def)
  note cols = search_cols_spec [where b = "bitmap ra ! row" and c = scol']
  have step: "search_rows (bitmap ra) srow row scol =
      (if row < length (bitmap ra) then
         case search_cols (bitmap ra ! row) scol' of
           Some col \<Rightarrow> Some (row, col)
         | None \<Rightarrow> search_rows (bitmap ra) srow (Suc row) scol'
       else None)"
    by (subst search_rows.simps) (simp only: Let_def scol'_def)
  show ?case
  proof (cases "row < length (bitmap ra)")
    case False
    then show ?thesis by (auto simp: step frame_free_def start)
  next
    case True
    show ?thesis
    proof (cases "search_cols (bitmap ra ! row) scol'")
      case (Some c)
      from cols Some have c: "scol' \<le> c" "c < 8" "\<not> bit (bitmap ra ! row) c"
        and used: "\<And>j. scol' \<le> j \<Longrightarrow> j < c \<Longrightarrow> bit (bitmap ra ! row) j" by auto
      show ?thesis using c True Some row_used [OF used] by (simp add: step start frame_free_row)
    next
      case None
      have IH: "case search_rows (bitmap ra) srow (Suc row) scol' of
          Some (r, c) \<Rightarrow> c < 8 \<and> frame_free ra (8 * r + c) \<and> 8 * Suc row \<le> 8 * r + c \<and>
            (\<forall>j. 8 * Suc row \<le> j \<and> j < 8 * r + c \<longrightarrow> \<not> frame_free ra j)
        | None \<Rightarrow> \<forall>j. 8 * Suc row \<le> j \<longrightarrow> \<not> frame_free ra j"
        using "1.prems"(1) sc by (intro "1.hyps" [OF True scol'_def None]) auto
      have "\<And>k. scol' \<le> k \<Longrightarrow> k < 8 \<Longrightarrow> bit (bitmap ra ! row) k" using cols None by simp
      then have low: "\<not> frame_free ra j" if "start \<le> j" "\<not> 8 * Suc row \<le> j" for j
        using that start by (intro row_used [of scol' 8]) auto
      have "start \<le> 8 * Suc row" using start sc by simp
      with IH low show ?thesis using True None by (auto simp: step split: option.splits)
    qed
  qed
qed

lemma frame_free_bound: "ra_inv ra \<Longrightarrow> frame_free ra i \<Longrightarrow> i < 2 ^ 52"
  by (auto simp: ra_inv_def frame_free_def)

lemma index_addr:
  assumes "8 * r + c < 2 ^ 52"
  shows "\<exists>a. rbind (bitmap_index_from_loc (of_nat r) (of_nat c)) (\<lambda>i.
           rbind (mul_w i PAGE_SIZE) (\<lambda>a. Inr (Some \<lparr>start_address = a\<rparr>)))
         = Inr (Some \<lparr>start_address = a\<rparr>) \<and> unat a = (8 * r + c) * 4096"
proof -
  have r: "unat (of_nat r :: usize) = r" and c: "unat (of_nat c :: usize) = c"
    using assms by (simp_all add: unat_of_nat_small)
  have m: "mul_w (of_nat r) 8 = Inr (of_nat r * 8 :: usize)"
    and rm: "unat (of_nat r * 8 :: usize) = r * 8"
    using assms by (simp_all add: mul_w_def unat_mul_small r)
  obtain i where i: "bitmap_index_from_loc (of_nat r) (of_nat c) = Inr i"
    and ri: "unat i = 8 * r + c"
    using assms by (simp add: bitmap_index_from_loc_def m add_w_def unat_add_small rm c)
  show ?thesis
    using assms by (simp add: i mul_w_def ri PAGE_SIZE_def unat_mul_small)
qed

lemma search_for_free_frame_cases:
  assumes "ra_inv ra"
  obtains (none) "search_for_free_frame ra = Inr None" and "free_frames ra = {}"
  | (some) f where "search_for_free_frame ra = Inr (Some f)"
      and "frame_no f \<in> free_frames ra" and "\<forall>j \<in> free_frames ra. frame_no f \<le> j"
      and "unat (start_address f) = frame_no f * 4096"
proof -
  let ?sf = "unat (search_from ra)"
  let ?s = "search_rows (bitmap ra) (?sf div 8) (?sf div 8) (?sf mod 8)"
  have eq: "search_for_free_frame ra = (case ?s of
        None \<Rightarrow> Inr None
      | Some (row, col) \<Rightarrow>
          rbind (bitmap_index_from_loc (of_nat row) (of_nat col)) (\<lambda>i.
          rbind (mul_w i PAGE_SIZE) (\<lambda>a. Inr (Some \<lparr>start_address = a\<rparr>))))"
    by (simp add: search_for_free_frame_def bitmap_loc_from_index_def unat_div unat_mod)
  have spec: "case ?s of
     Some (r, c) \<Rightarrow> c < 8 \<and> frame_free ra (8 * r + c) \<and> ?sf \<le> 8 * r + c \<and>
       (\<forall>j. ?sf \<le> j \<and> j < 8 * r + c \<longrightarrow> \<not> frame_free ra j)
   | None \<Rightarrow> \<forall>j. ?sf \<le> j \<longrightarrow> \<not> frame_free ra j"
    by (rule search_rows_spec) auto
  show ?thesis
  proof (cases ?s)
    case None
    then show ?thesis using eq spec by (intro none) (auto simp: free_frames_def)
  next
    case (Some rc)
    obtain r c where rc: "rc = (r, c)" by (cases rc)
    with Some spec have free: "frame_free ra (8 * r + c)" and ge: "?sf \<le> 8 * r + c"
      and least: "\<forall>j. ?sf \<le> j \<and> j < 8 * r + c \<longrightarrow> \<not> frame_free ra j" by auto
    obtain a where a: "search_for_free_frame ra = Inr (Some \<lparr>start_address = a\<rparr>)"
      and ua: "unat a = (8 * r + c) * 4096"
      using eq Some rc index_addr [OF frame_free_bound [OF assms free]] by auto
    have "frame_no \<lparr>start_address = a\<rparr> = 8 * r + c" by (simp add: frame_no_def ua)
    with a ua free ge least show ?thesis
      by (intro some [of "\<lparr>start_address = a\<rparr>"]) (auto simp: free_frames_def not_le [symmetric])
  qed
qed

lemma allocate_frame_cases:
  assumes "ra_inv ra"
  obtains (none) "allocate_frame ra = Inr (None, ra)" and "free_frames ra = {}"
  | (some) f ra' where "allocate_frame ra = Inr (Some f, ra')"
      and "frame_no f \<in> free_frames ra" and "\<forall>j \<in> free_frames ra. frame_no f \<le> j"
      and "unat (start_address f) = frame_no f * 4096"
      and "ra_inv ra'" and "search_from ra' = search_from ra"
      and "length (bitmap ra') = length (bitmap ra)"
      and "\<And>i. frame_free ra' i \<longleftrightarrow> frame_free ra i \<and> i \<noteq> frame_no f"
  using assms
proof (cases rule: search_for_free_frame_cases)
  case none
  then show ?thesis by (intro that(1)) (auto simp: allocate_frame_def)
next
  case (some f)
  have n: "unat (start_address f) div 4096 = frame_no f" by (simp add: frame_no_def)
  have "unat (start_address f) div 4096 < 8 * length (bitmap ra)"
    using some(2) by (simp add: n free_frames_def frame_free_def)
  then obtain ra' where ra': "set_used ra (start_address f) = Inr ra'"
    "search_from ra' = search_from ra" "length (bitmap ra') = length (bitmap ra)"
    "\<forall>i. frame_free ra' i \<longleftrightarrow> frame_free ra i \<and> i \<noteq> frame_no f"
    using set_used_eq [of "start_address f" ra] unfolding n by blast
  show ?thesis
    by (rule that(2) [of f ra']) (use some ra' assms in \<open>auto simp: allocate_frame_def ra_inv_def\<close>)
qed

section \<open>The contract of a frame source\<close>

text \<open>
  What the clients of the allocator rely on: allocation hands out a free frame and
  removes it from the free set, fails only when the set is empty, and giving a
  used frame back makes it free again.
\<close>

locale frame_source =
  fixes alloc :: "'s \<Rightarrow> (frame option \<times> 's) rust"
    and dealloc :: "'s \<Rightarrow> frame \<Rightarrow> 's rust"
    and free :: "'s \<Rightarrow> nat set"
    and managed :: "'s \<Rightarrow> nat set"
    and inv :: "'s \<Rightarrow> bool"
  assumes alloc_empty: "inv s \<Longrightarrow> free s = {} \<Longrightarrow> alloc s = Inr (None, s)"
    and alloc_nonempty: "inv s \<Longrightarrow> free s \<noteq> {} \<Longrightarrow>
      \<exists>f s'. alloc s = Inr (Some f, s') \<and> frame_no f \<in> free s \<and>
        free s' = free s - {frame_no f} \<and> managed s' = managed s \<and> inv s' \<and>
        unat (start_address f) = frame_no f * 4096"
    and dealloc_used: "inv s \<Longrightarrow> frame_no f \<in> managed s \<Longrightarrow> frame_no f \<notin> free s \<Longrightarrow>
      \<exists>s'. dealloc s f = Inr s' \<and> free s' = insert (frame_no f) (free s) \<and>
        managed s' = managed s \<and> inv s'"
    and free_managed: "inv s \<Longrightarrow> free s \<subseteq> managed s"
    and finite_managed: "finite (managed s)"
begin

lemma finite_free: "inv s \<Longrightarrow> finite (free s)"
  using free_managed finite_managed finite_subset by blast

lemma alloc_cases:
  assumes "inv s"
  obtains (none) "alloc s = Inr (None, s)" and "free s = {}"
  | (some) f s' where "alloc s = Inr (Some f, s')" and "frame_no f \<in> free s"
      and "free s' = free s - {frame_no f}" and "managed s' = managed s" and "inv s'"
      and "unat (start_address f) = frame_no f * 4096"
  using alloc_empty [OF assms] alloc_nonempty [OF assms] by blast

lemma alloc_then_dealloc:
  assumes "inv s" and "alloc s = Inr (Some f, s')"
  shows "\<exists>s''. dealloc s' f = Inr s'' \<and> free s'' = free s \<and> inv s''"
  using assms(1)
proof (cases rule: alloc_cases)
  case none
  then show ?thesis using assms(2) by simp
next
  case (some g t)
  then have t: "g = f" "t = s'" using assms(2) by auto
  have "frame_no f \<in> managed s'" "frame_no f \<notin> free s'"
    using some t free_managed [OF assms(1)] by auto
  then show ?thesis using dealloc_used [of s' f] some t by (auto simp: insert_absorb)
qed

end

text \<open>\<open>n\<close> allocations in a row, as \<open>init_heap\<close> and \<open>extend_heap\<close> make them.\<close>

fun alloc_seq :: "('s \<Rightarrow> (frame option \<times> 's) rust) \<Rightarrow> nat \<Rightarrow> 's \<Rightarrow> (frame list \<times> 's) rust" where
  "alloc_seq alloc 0 s = Inr ([], s)"
| "alloc_seq alloc (Suc n) s =
     rbind (alloc s) (\<lambda>(found, s1). case found of
       None \<Rightarrow> Inr ([], s1)
     | Some f \<Rightarrow> rbind (alloc_seq alloc n s1) (\<lambda>(fs, s2). Inr (f # fs, s2)))"

context frame_source
begin

lemma alloc_seq_distinct:
  assumes "inv s"
  shows "\<exists>fs s'. alloc_seq alloc n s = Inr (fs, s') \<and> length fs = min n (card (free s)) \<and>
     distinct (map frame_no fs) \<and> frame_no ` set fs \<subseteq> free s \<and>
     free s' = free s - frame_no ` set fs \<and> inv s'"
  using assms
proof (induction n arbitrary: s)
  case 0
  then show ?case by simp
next
  case (Suc n)
  from \<open>inv s\<close> show ?case
  proof (cases rule: alloc_cases)
    case none
    then show ?thesis using Suc.prems by simp
  next
    case (some f t)
    from Suc.IH [OF some(5)] obtain fs s' where fs: "alloc_seq alloc n t = Inr (fs, s')"
      "length fs = min n (card (free t))" "distinct (map frame_no fs)"
      "frame_no ` set fs \<subseteq> free t" "free s' = free t - frame_no ` set fs" "inv s'"
      by blast
    have "card (free s) = Suc (card (free t))"
      using card_Suc_Diff1 [OF finite_free [OF Suc.prems] some(2)] some(3) by simp
    then have "length (f # fs) = min (Suc n) (card (free s))" using fs(2) by simp
    moreover have "alloc_seq alloc (Suc n) s = Inr (f # fs, s')"
      by (simp add: some(1) fs(1))
    moreover have "distinct (map frame_no (f # fs))"
      using fs(3,4) some(3) by auto
    moreover have "frame_no ` set (f # fs) \<subseteq> free s" using fs(4) some(2,3) by auto
    moreover have "free s' = free s - frame_no ` set (f # fs)" using fs(5) some(3) by auto
    ultimately show ?thesis using fs(6) by blast
  qed
qed

end

definition managed_frames :: "region_allocator \<Rightarrow> nat set" where
  "managed_frames ra = {i. unat (search_from ra) \<le> i \<and> i < 8 * length (bitmap ra)}"

interpretation bitmap_source: frame_source allocate_frame deallocate_frame free_frames
  managed_frames ra_inv
proof unfold_locales
  fix ra :: region_allocator
  assume inv: "ra_inv ra"
  show "allocate_frame ra = Inr (None, ra)" if "free_frames ra = {}"
    using inv that by (cases rule: allocate_frame_cases) auto
  show "\<exists>f s'. allocate_frame ra = Inr (Some f, s') \<and> frame_no f \<in> free_frames ra \<and>
      free_frames s' = free_frames ra - {frame_no f} \<and> managed_frames s' = managed_frames ra \<and>
      ra_inv s' \<and> unat (start_address f) = frame_no f * 4096"
    if "free_frames ra \<noteq> {}"
    using inv
  proof (cases rule: allocate_frame_cases)
    case none
    with that show ?thesis by simp
  next
    case (some f ra')
    then show ?thesis by (auto simp: free_frames_def managed_frames_def)
  qed
  show "\<exists>s'. deallocate_frame ra f = Inr s' \<and>
      free_frames s' = insert (frame_no f) (free_frames ra) \<and>
      managed_frames s' = managed_frames ra \<and> ra_inv s'"
    if m: "frame_no f \<in> managed_frames ra" and u: "frame_no f \<notin> free_frames ra" for f
  proof -
    have "unat (start_address f) div 4096 < 8 * length (bitmap ra)"
      using m by (simp add: managed_frames_def frame_no_def)
    then obtain ra' where "set_unused ra (start_address f) = Inr ra'"
      "search_from ra' = search_from ra" "length (bitmap ra') = length (bitmap ra)"
      and free: "\<forall>i. frame_free ra' i \<longleftrightarrow>
        (if i = frame_no f then \<not> frame_free ra i else frame_free ra i)"
      using set_unused_eq [of "start_address f" ra] unfolding frame_no_def by blast
    then show ?thesis using m u inv
      by (intro exI [of _ ra'])
         (auto simp: deallocate_frame_def free_frames_def managed_frames_def ra_inv_def)
  qed
  show "free_frames ra \<subseteq> managed_frames ra"
    by (auto simp: free_frames_def managed_frames_def frame_free_def)
next
  show "finite (managed_frames ra)" for ra by (simp add: managed_frames_def)
qed

section \<open>Properties of the bitmap allocator\<close>

lemma bitmap_ext:
  assumes "length (bitmap ra) = length (bitmap ra')" and "\<And>i. frame_free ra i = frame_free ra' i"
  shows "bitmap ra = bitmap ra'"
proof (rule nth_equalityI [OF assms(1)])
  fix r
  assume r: "r < length (bitmap ra)"
  show "bitmap ra ! r = bitmap ra' ! r"
  proof (rule bit_word_eqI)
    fix c :: nat
    assume "c < LENGTH(8)"
    then have "(8 * r + c) div 8 = r" "(8 * r + c) mod 8 = c" by simp_all
    then show "bit (bitmap ra ! r) c = bit (bitmap ra' ! r) c"
      using assms(2) [of "8 * r + c"] r assms(1) \<open>c < LENGTH(8)\<close> by (simp add: frame_free_def)
  qed
qed

text \<open>The equations that run the allocator on a concrete bitmap.\<close>

lemmas frame_eval =
  allocate_frame_def search_for_free_frame_def bitmap_loc_from_index_def
  search_rows.simps search_cols.simps bitmap_index_from_loc_def mul_w_def add_w_def
  deallocate_frame_def set_used_def set_unused_def bitmap_loc_from_addr_def
  align_down_def sub_w_def PAGE_SIZE_def idx_def

text \<open>
  C6: allocation is first-fit. It never panics; it returns \<open>None\<close>, with the allocator
  unchanged, exactly when no frame at or after \<open>search_from\<close> is free, and otherwise
  the page-aligned frame with the least free number, whose bit alone changes.
\<close>

theorem allocate_frame_first_fit:
  assumes "ra_inv ra"
  shows "(free_frames ra = {} \<and> allocate_frame ra = Inr (None, ra)) \<or>
     (\<exists>f ra'. allocate_frame ra = Inr (Some f, ra') \<and>
        frame_no f = Min (free_frames ra) \<and> unat (start_address f) = frame_no f * 4096 \<and>
        (\<forall>i. frame_free ra' i \<longleftrightarrow> frame_free ra i \<and> i \<noteq> frame_no f))"
  using assms
proof (cases rule: allocate_frame_cases)
  case none
  then show ?thesis by simp
next
  case (some f ra')
  have "Min (free_frames ra) = frame_no f"
    using some(2,3) bitmap_source.finite_free [OF assms] by (intro Min_eqI) auto
  with some show ?thesis by auto
qed

theorem allocate_frame_first_fit_witness:
  "let ra = \<lparr>bitmap = [0xFF, 0x0F], search_from = 3\<rparr> in
   ra_inv ra \<and> frame_free ra 12 \<and>
   allocate_frame ra = Inr (Some \<lparr>start_address = 0xC000\<rparr>,
     \<lparr>bitmap = [0xFF, 0x1F], search_from = 3\<rparr>) \<and> Min (free_frames ra) = 12"
proof -
  define ra where "ra = \<lparr>bitmap = [0xFF, 0x0F :: u8], search_from = 3\<rparr>"
  have inv: "ra_inv ra" by (simp add: ra_inv_def ra_def)
  have free: "frame_free ra 12" by (simp add: frame_free_def ra_def)
  have al: "allocate_frame ra = Inr (Some \<lparr>start_address = 0xC000\<rparr>,
      \<lparr>bitmap = [0xFF, 0x1F], search_from = 3\<rparr>)"
    by (simp add: ra_def frame_eval)
  have "Min (free_frames ra) = 12"
    using allocate_frame_first_fit [OF inv] al by (auto simp: frame_no_def)
  then show ?thesis
    using inv free al unfolding ra_def [symmetric] by (simp add: Let_def ra_def)
qed

text \<open>
  No frame is handed out twice. \<open>n\<close> allocations in a row return pairwise
  distinct frames that were all free, as many as there are free frames, and
  exactly these leave the free set.
\<close>

lemma allocate_frames_distinct:
  assumes "ra_inv ra"
  shows "\<exists>fs ra'. alloc_seq allocate_frame n ra = Inr (fs, ra') \<and>
     length fs = min n (card (free_frames ra)) \<and> distinct (map frame_no fs) \<and>
     frame_no ` set fs \<subseteq> free_frames ra \<and> free_frames ra' = free_frames ra - frame_no ` set fs"
  using bitmap_source.alloc_seq_distinct [OF assms, of n] by blast

lemma allocate_frames_distinct_example:
  "let ra = \<lparr>bitmap = [0xF5], search_from = 0\<rparr> in ra_inv ra \<and>
   (\<exists>fs ra'. alloc_seq allocate_frame (Suc (Suc 0)) ra = Inr (fs, ra') \<and> distinct (map frame_no fs) \<and>
      map frame_no fs = [1, 3])"
proof -
  define ra where "ra = \<lparr>bitmap = [0xF5 :: u8], search_from = 0\<rparr>"
  have inv: "ra_inv ra" by (simp add: ra_inv_def ra_def)
  have run: "alloc_seq allocate_frame (Suc (Suc 0)) ra =
      Inr ([\<lparr>start_address = 0x1000\<rparr>, \<lparr>start_address = 0x3000\<rparr>], \<lparr>bitmap = [0xFF], search_from = 0\<rparr>)"
    by (simp add: ra_def frame_eval)
  obtain fs ra' where "alloc_seq allocate_frame (Suc (Suc 0)) ra = Inr (fs, ra')" "distinct (map frame_no fs)"
    using allocate_frames_distinct [OF inv, of "Suc (Suc 0)"] by blast
  then show ?thesis
    unfolding Let_def ra_def [symmetric] using inv run by (simp add: frame_no_def)
qed

lemma allocate_then_deallocate:
  assumes "ra_inv ra" and "allocate_frame ra = Inr (Some f, ra')"
  shows "deallocate_frame ra' f = Inr ra"
  using assms(1)
proof (cases rule: allocate_frame_cases)
  case none
  then show ?thesis using assms(2) by simp
next
  case (some g t)
  then have eqs: "g = f" "t = ra'" using assms(2) by auto
  have free: "frame_free ra (frame_no f)" using some(2) eqs by (simp add: free_frames_def)
  then have "unat (start_address f) div 4096 < 8 * length (bitmap ra')"
    using some(7) eqs by (simp add: frame_free_def frame_no_def)
  then obtain ra'' where d: "deallocate_frame ra' f = Inr ra''" "search_from ra'' = search_from ra'"
    "length (bitmap ra'') = length (bitmap ra')"
    and f: "\<forall>i. frame_free ra'' i \<longleftrightarrow> (if i = frame_no f then \<not> frame_free ra' i else frame_free ra' i)"
    using set_unused_eq [of "start_address f" ra'] unfolding deallocate_frame_def frame_no_def by blast
  have "frame_free ra'' i = frame_free ra i" for i
    using f some(8) [of i] eqs free by (cases "i = frame_no f") auto
  then have "bitmap ra'' = bitmap ra" using d some(7) eqs by (intro bitmap_ext) auto
  then show ?thesis using d some(6) eqs by simp
qed

text \<open>Giving a frame back twice changes nothing: the second toggle undoes the first.\<close>

lemma deallocate_twice:
  assumes "frame_no f < 8 * length (bitmap ra)"
  obtains ra' where "deallocate_frame ra f = Inr ra'" and "deallocate_frame ra' f = Inr ra"
proof -
  obtain ra1 where d1: "deallocate_frame ra f = Inr ra1" "search_from ra1 = search_from ra"
    "length (bitmap ra1) = length (bitmap ra)"
    and f1: "\<forall>i. frame_free ra1 i \<longleftrightarrow> (if i = frame_no f then \<not> frame_free ra i else frame_free ra i)"
    using set_unused_eq [of "start_address f" ra] assms unfolding deallocate_frame_def frame_no_def by blast
  obtain ra2 where d2: "deallocate_frame ra1 f = Inr ra2" "search_from ra2 = search_from ra1"
    "length (bitmap ra2) = length (bitmap ra1)"
    and f2: "\<forall>i. frame_free ra2 i \<longleftrightarrow> (if i = frame_no f then \<not> frame_free ra1 i else frame_free ra1 i)"
    using set_unused_eq [of "start_address f" ra1] assms d1(3) unfolding deallocate_frame_def frame_no_def by metis
  have "frame_free ra2 i = frame_free ra i" for i using f1 f2 by auto
  then have "bitmap ra2 = bitmap ra" using d1 d2 by (intro bitmap_ext) auto
  then have "ra2 = ra" using d1 d2 by simp
  then show thesis using that d1(1) d2(1) by blast
qed

text \<open>
  Allocating a frame and giving it back restores the allocator exactly, bitmap
  bytes included.
\<close>

lemma allocate_deallocate_roundtrip:
  assumes "ra_inv ra" and "allocate_frame ra = Inr (Some f, ra')"
  shows "deallocate_frame ra' f = Inr ra"
  using assms by (rule allocate_then_deallocate)

lemma allocate_deallocate_roundtrip_example:
  "deallocate_frame \<lparr>bitmap = [0xFF, 0x1F], search_from = 3\<rparr> \<lparr>start_address = 0xC000\<rparr>
     = Inr \<lparr>bitmap = [0xFF, 0x0F], search_from = 3\<rparr>"
proof (rule allocate_deallocate_roundtrip)
  show "ra_inv \<lparr>bitmap = [0xFF, 0x0F], search_from = 3\<rparr>" by (simp add: ra_inv_def)
  show "allocate_frame \<lparr>bitmap = [0xFF, 0x0F], search_from = 3\<rparr> =
      Inr (Some \<lparr>start_address = 0xC000\<rparr>, \<lparr>bitmap = [0xFF, 0x1F], search_from = 3\<rparr>)"
    by (simp add: frame_eval)
qed

text \<open>
  \<open>deallocate_frame\<close> toggles a bit instead of clearing it. Giving back a frame
  that is already free marks it used, so a frame that is freed twice is lost to the
  allocator; a second call undoes the first.
\<close>

lemma deallocate_free_frame_marks_used:
  assumes "frame_free ra (frame_no f)"
  shows "\<exists>ra'. deallocate_frame ra f = Inr ra' \<and> \<not> frame_free ra' (frame_no f) \<and>
     (\<forall>i. i \<noteq> frame_no f \<longrightarrow> frame_free ra' i = frame_free ra i)"
proof -
  have "unat (start_address f) div 4096 < 8 * length (bitmap ra)"
    using assms by (simp add: frame_free_def frame_no_def)
  then obtain ra' where d: "deallocate_frame ra f = Inr ra'"
    and free: "\<forall>i. frame_free ra' i \<longleftrightarrow>
      (if i = frame_no f then \<not> frame_free ra i else frame_free ra i)"
    using set_unused_eq [of "start_address f" ra] unfolding deallocate_frame_def frame_no_def by blast
  then show ?thesis using assms by auto
qed

lemma deallocate_free_frame_marks_used_example:
  "frame_free \<lparr>bitmap = [0x0F], search_from = 0\<rparr> (frame_no \<lparr>start_address = 0x4000\<rparr>) \<and>
   \<not> frame_free \<lparr>bitmap = [0x1F], search_from = 0\<rparr> 4"
proof -
  have free: "frame_free \<lparr>bitmap = [0x0F], search_from = 0\<rparr> (frame_no \<lparr>start_address = 0x4000\<rparr>)"
    by (simp add: frame_free_def frame_no_def)
  have run: "deallocate_frame \<lparr>bitmap = [0x0F], search_from = 0\<rparr> \<lparr>start_address = 0x4000\<rparr> =
      Inr \<lparr>bitmap = [0x1F], search_from = 0\<rparr>" by (simp add: frame_eval)
  show ?thesis
    using deallocate_free_frame_marks_used [OF free] run free by (simp add: frame_no_def)
qed

end
