(* ===== verification/Frame_Init.thy ===== *)
theory Frame_Init
  imports Frame_Allocator
begin

text \<open>
  \<open>RegionAllocator::new\<close> of \<open>kernel/src/memory/frame_allocator.rs\<close>: sizing the
  bitmap from the memory map, choosing the region it lives in, and marking the
  usable frames. The memory map is the answer of the Limine boot loader, an
  argument here; \<open>mmap_ok\<close> states what the boot protocol guarantees of it (sorted
  by base, usable entries page aligned, nonempty and overlapping no other entry).
\<close>

section \<open>Building the allocator\<close>

record mmap_entry =
  entry_base :: u64
  entry_length :: u64
  entry_usable :: bool

text \<open>The first loop: the first and the last usable entry.\<close>

fun usable_bounds :: "mmap_entry option \<Rightarrow> mmap_entry option \<Rightarrow> mmap_entry list \<Rightarrow>
    mmap_entry option \<times> mmap_entry option" where
  "usable_bounds first lst [] = (first, lst)"
| "usable_bounds first lst (e # es) =
     (if entry_usable e
      then usable_bounds (if first = None then Some e else first) (Some e) es
      else usable_bounds first lst es)"

text \<open>The second loop: the smallest usable region that can hold the bitmap.\<close>

fun best_region :: "usize \<Rightarrow> mmap_entry option \<Rightarrow> mmap_entry list \<Rightarrow> mmap_entry option" where
  "best_region bytes best [] = best"
| "best_region bytes best (e # es) =
     best_region bytes
       (if entry_usable e \<and> bytes \<le> entry_length e \<and>
           (case best of None \<Rightarrow> True | Some x \<Rightarrow> entry_length e < entry_length x)
        then Some e else best) es"

text \<open>The loops \<open>for frame in 0..frames_needed\<close> of \<open>set_used_from\<close> and \<open>set_unused_from\<close>.\<close>

fun mark_frames :: "(region_allocator \<Rightarrow> phys_addr \<Rightarrow> region_allocator rust) \<Rightarrow>
    phys_addr \<Rightarrow> nat list \<Rightarrow> region_allocator \<Rightarrow> region_allocator rust" where
  "mark_frames f from [] ra = Inr ra"
| "mark_frames f from (k # ks) ra =
     rbind (mul_w (of_nat k) PAGE_SIZE) (\<lambda>off.
     rbind (add_w from off) (\<lambda>a.
     rbind (f ra a) (\<lambda>ra'. mark_frames f from ks ra')))"

definition set_used_from :: "region_allocator \<Rightarrow> phys_addr \<Rightarrow> usize \<Rightarrow> region_allocator rust" where
  "set_used_from ra from sz =
     rbind (align_up sz PAGE_SIZE) (\<lambda>s.
     mark_frames set_used from [0..<unat (s div PAGE_SIZE)] ra)"

definition set_unused_from :: "region_allocator \<Rightarrow> phys_addr \<Rightarrow> usize \<Rightarrow> region_allocator rust" where
  "set_unused_from ra from sz =
     rbind (align_down sz PAGE_SIZE) (\<lambda>s.
     mark_frames set_unused from [0..<unat (s div PAGE_SIZE)] ra)"

text \<open>The third loop, which stops after the last usable entry.\<close>

fun free_usable :: "mmap_entry \<Rightarrow> mmap_entry list \<Rightarrow> region_allocator \<Rightarrow> region_allocator rust" where
  "free_usable lst [] ra = Inr ra"
| "free_usable lst (e # es) ra =
     rbind (if entry_usable e then set_unused_from ra (entry_base e) (entry_length e) else Inr ra)
       (\<lambda>ra'. if entry_base e = entry_base lst then Inr ra' else free_usable lst es ra')"

definition region_allocator_new :: "mmap_entry list \<Rightarrow> usize \<Rightarrow> region_allocator rust" where
  "region_allocator_new entries phy_offset =
     (let (first, found) = usable_bounds None None entries in
      rbind (unwrap found) (\<lambda>lst.
      rbind (add_w (entry_base lst) (entry_length lst)) (\<lambda>top.
      rbind (align_down top PAGE_SIZE) (\<lambda>aligned.
      let frame_count = aligned div PAGE_SIZE in
      rbind (mul_w frame_count PAGE_SIZE) (\<lambda>_.
      rbind (align_up frame_count 8) (\<lambda>bits.
      let bytes = bits div 8; best = best_region bytes None entries in
      rbind (rassert (best \<noteq> None)) (\<lambda>_.
      rbind (unwrap best) (\<lambda>best.
      rbind (add_w (entry_base best) phy_offset) (\<lambda>_.
      let bm = replicate (unat bytes) 0xFF in
      rbind (idx bm 0) (\<lambda>b0.
      rbind (rassert (b0 = 0xFF)) (\<lambda>_.
      rbind (unwrap first) (\<lambda>first.
      rbind (align_up (entry_base first) PAGE_SIZE) (\<lambda>a.
      rbind (bitmap_index_from_addr a) (\<lambda>sf.
      rbind (free_usable lst entries \<lparr>bitmap = bm, search_from = sf\<rparr>) (\<lambda>ra.
      set_used_from ra (entry_base best) (entry_length best))))))))))))))))"

section \<open>The guarantees of the boot protocol\<close>

definition entry_end :: "mmap_entry \<Rightarrow> nat" where
  "entry_end e = unat (entry_base e) + unat (entry_length e)"

definition entry_ok :: "mmap_entry \<Rightarrow> bool" where
  "entry_ok e \<longleftrightarrow> 0 < unat (entry_length e) \<and>
     (entry_usable e \<longrightarrow> 4096 dvd unat (entry_base e) \<and> 4096 dvd unat (entry_length e) \<and>
        entry_end e < 2 ^ 63)"

definition mmap_ok :: "mmap_entry list \<Rightarrow> bool" where
  "mmap_ok entries \<longleftrightarrow> list_all entry_ok entries \<and>
     sorted_wrt (\<lambda>e e'. entry_usable e \<or> entry_usable e' \<longrightarrow> entry_end e \<le> unat (entry_base e'))
       entries"

definition region_frames :: "mmap_entry \<Rightarrow> nat set" where
  "region_frames e = {i. unat (entry_base e) \<le> i * 4096 \<and> i * 4096 < entry_end e}"

section \<open>Marking ranges of frames\<close>

lemma mark_addr:
  assumes "unat from = F * 4096" and "F + k < 2 ^ 52"
  obtains off a where "mul_w (of_nat k) PAGE_SIZE = Inr off" and "add_w from off = Inr a"
    and "unat a div 4096 = F + k"
proof -
  have k: "unat (of_nat k :: usize) = k" using assms(2) by (simp add: unat_of_nat_small)
  then have fits: "unat (of_nat k :: usize) * unat PAGE_SIZE < 2 ^ LENGTH(64)"
    using assms(2) by (simp add: PAGE_SIZE_def)
  define off where "off = of_nat k * PAGE_SIZE"
  have off: "mul_w (of_nat k) PAGE_SIZE = Inr off" using fits by (simp add: mul_w_def off_def)
  have u: "unat off = k * 4096" using mul_w_unat [OF off] k by (simp add: PAGE_SIZE_def)
  have sum: "unat from + unat off = (F + k) * 4096"
    by (simp add: u assms(1) add_mult_distrib)
  then have "unat from + unat off < 2 ^ LENGTH(64)" using assms(2) by simp
  then have a: "add_w from off = Inr (from + off)" by (simp add: add_w_def)
  have "unat (from + off) div 4096 = F + k" using add_w_unat [OF a] sum by simp
  with off a show ?thesis by (rule that)
qed

text \<open>
  Both operations act on one bit, \<open>g\<close> being constantly false for \<open>set_used\<close> and
  negation for \<open>set_unused\<close> (an exclusive or in the code).
\<close>

definition acts_on_bit ::
    "(region_allocator \<Rightarrow> phys_addr \<Rightarrow> region_allocator rust) \<Rightarrow> (bool \<Rightarrow> bool) \<Rightarrow> bool" where
  "acts_on_bit f g \<longleftrightarrow> (\<forall>ra a. unat a div 4096 < 8 * length (bitmap ra) \<longrightarrow>
     (\<exists>ra'. f ra a = Inr ra' \<and> search_from ra' = search_from ra \<and>
        length (bitmap ra') = length (bitmap ra) \<and>
        (\<forall>i. frame_free ra' i \<longleftrightarrow>
           (if i = unat a div 4096 then g (frame_free ra i) else frame_free ra i))))"

lemma acts_set_used: "acts_on_bit set_used (\<lambda>_. False)"
  unfolding acts_on_bit_def using set_used_eq by fastforce

lemma acts_set_unused: "acts_on_bit set_unused Not"
  unfolding acts_on_bit_def using set_unused_eq by blast

lemma mark_frames_range:
  assumes "acts_on_bit f g" and "unat from = F * 4096"
    and "ra_inv ra" and "F + n \<le> 8 * length (bitmap ra)" and "m \<le> n"
  shows "\<exists>ra'. mark_frames f from [m..<n] ra = Inr ra' \<and>
     search_from ra' = search_from ra \<and> length (bitmap ra') = length (bitmap ra) \<and>
     (\<forall>i. frame_free ra' i \<longleftrightarrow>
        (if F + m \<le> i \<and> i < F + n then g (frame_free ra i) else frame_free ra i))"
  using assms(3-5)
proof (induction "n - m" arbitrary: m ra)
  case 0
  then show ?case by auto
next
  case (Suc d)
  then have m: "m < n" by simp
  have bound: "F + m < 2 ^ 52" using Suc.prems m by (simp add: ra_inv_def)
  obtain off a where step: "mul_w (of_nat m) PAGE_SIZE = Inr off" "add_w from off = Inr a"
    and a: "unat a div 4096 = F + m" using mark_addr [OF assms(2) bound] .
  have "unat a div 4096 < 8 * length (bitmap ra)" using Suc.prems m a by simp
  then obtain ra1 where ra1: "f ra a = Inr ra1" "search_from ra1 = search_from ra"
    "length (bitmap ra1) = length (bitmap ra)"
    "\<forall>i. frame_free ra1 i \<longleftrightarrow> (if i = F + m then g (frame_free ra i) else frame_free ra i)"
    using assms(1) unfolding acts_on_bit_def a [symmetric] by blast
  have "\<exists>ra'. mark_frames f from [Suc m..<n] ra1 = Inr ra' \<and>
     search_from ra' = search_from ra1 \<and> length (bitmap ra') = length (bitmap ra1) \<and>
     (\<forall>i. frame_free ra' i \<longleftrightarrow>
        (if F + Suc m \<le> i \<and> i < F + n then g (frame_free ra1 i) else frame_free ra1 i))"
    using Suc ra1 m by (intro Suc.hyps) (auto simp: ra_inv_def)
  then show ?case using m step ra1 by (auto simp: upt_conv_Cons)
qed

lemma region_frames_eq:
  assumes "4096 dvd unat (entry_base e)" and "4096 dvd unat (entry_length e)"
  shows "i \<in> region_frames e \<longleftrightarrow>
     unat (entry_base e) div 4096 \<le> i \<and> i < unat (entry_base e) div 4096 + unat (entry_length e) div 4096"
proof -
  obtain b l where "unat (entry_base e) = 4096 * b" "unat (entry_length e) = 4096 * l"
    using assms by (auto elim!: dvdE)
  then show ?thesis by (auto simp: region_frames_def entry_end_def)
qed

lemma entry_ok_usable:
  assumes "entry_ok e" and "entry_usable e"
  shows "4096 dvd unat (entry_base e)" "4096 dvd unat (entry_length e)" "entry_end e < 2 ^ 63"
    "0 < unat (entry_length e)"
  using assms by (auto simp: entry_ok_def)

text \<open>On a page-aligned region both range operations cover exactly its frames.\<close>

lemma set_from_region:
  assumes "entry_ok e" and "entry_usable e" and "ra_inv ra"
    and "entry_end e \<le> 8 * length (bitmap ra) * 4096"
  shows "\<exists>ra'. set_unused_from ra (entry_base e) (entry_length e) = Inr ra' \<and>
      search_from ra' = search_from ra \<and> length (bitmap ra') = length (bitmap ra) \<and>
      (\<forall>i. frame_free ra' i \<longleftrightarrow> (if i \<in> region_frames e then \<not> frame_free ra i else frame_free ra i))"
    and "\<exists>ra'. set_used_from ra (entry_base e) (entry_length e) = Inr ra' \<and>
      search_from ra' = search_from ra \<and> length (bitmap ra') = length (bitmap ra) \<and>
      (\<forall>i. frame_free ra' i \<longleftrightarrow> frame_free ra i \<and> i \<notin> region_frames e)"
proof -
  define F L where "F = unat (entry_base e) div 4096" and "L = unat (entry_length e) div 4096"
  note ok = entry_ok_usable [OF assms(1,2)]
  have base: "unat (entry_base e) = F * 4096" and len: "unat (entry_length e) = L * 4096"
    using ok by (simp_all add: F_def L_def)
  have rf: "i \<in> region_frames e \<longleftrightarrow> F \<le> i \<and> i < F + L" for i
    using region_frames_eq [OF ok(1,2)] by (simp add: F_def L_def)
  have room: "F + L \<le> 8 * length (bitmap ra)"
    using assms(4) by (simp add: entry_end_def base len)
  have down: "align_down (entry_length e) PAGE_SIZE = Inr (entry_length e)"
    using unat_page_floor [of "entry_length e"] len
    by (simp add: align_down_page word_unat_eq_iff)
  have "unat (entry_length e) + 2 ^ 12 < 2 ^ 64" using ok(3) by (simp add: entry_end_def)
  then have up: "align_up (entry_length e) PAGE_SIZE = Inr (entry_length e)"
    using align_up_idem [of 12 "entry_length e"] ok(2) by (simp add: PAGE_SIZE_def)
  have cnt: "unat (entry_length e div PAGE_SIZE) = L"
    by (simp add: PAGE_SIZE_def unat_div L_def)
  show "\<exists>ra'. set_unused_from ra (entry_base e) (entry_length e) = Inr ra' \<and>
      search_from ra' = search_from ra \<and> length (bitmap ra') = length (bitmap ra) \<and>
      (\<forall>i. frame_free ra' i \<longleftrightarrow> (if i \<in> region_frames e then \<not> frame_free ra i else frame_free ra i))"
    using mark_frames_range [OF acts_set_unused base assms(3) room, of 0]
    by (simp add: set_unused_from_def down cnt rf)
  show "\<exists>ra'. set_used_from ra (entry_base e) (entry_length e) = Inr ra' \<and>
      search_from ra' = search_from ra \<and> length (bitmap ra') = length (bitmap ra) \<and>
      (\<forall>i. frame_free ra' i \<longleftrightarrow> frame_free ra i \<and> i \<notin> region_frames e)"
    using mark_frames_range [OF acts_set_used base assms(3) room, of 0]
    by (auto simp: set_used_from_def up cnt rf)
qed

section \<open>The loops over the memory map\<close>

lemma usable_bounds_fst:
  "fst (usable_bounds first lst es) = (if first = None then find entry_usable es else first)"
  by (induction es arbitrary: first lst) auto

lemma usable_bounds_snd:
  "snd (usable_bounds first lst es) =
     (if filter entry_usable es = [] then lst else Some (last (filter entry_usable es)))"
  by (induction es arbitrary: first lst) auto

lemma best_region_in:
  "best_region bytes best es = Some b \<Longrightarrow>
     best = Some b \<or> b \<in> set es \<and> entry_usable b \<and> bytes \<le> entry_length b"
  by (induction es arbitrary: best) (auto split: if_splits)

lemma best_region_Some: "best_region bytes (Some b) es \<noteq> None"
  by (induction es arbitrary: b) auto

lemma best_region_exists:
  assumes "e \<in> set es" and "entry_usable e" and "bytes \<le> entry_length e"
  shows "best_region bytes best es \<noteq> None"
  using assms(1)
proof (induction es arbitrary: best)
  case Nil
  then show ?case by simp
next
  case (Cons x xs)
  show ?case
  proof (cases "x = e")
    case True
    then show ?thesis
      using assms best_region_Some [of bytes _ xs] by (cases best) auto
  next
    case False
    then show ?thesis using Cons by auto
  qed
qed

lemma free_one:
  assumes "entry_ok e" and "ra_inv ra"
    and "entry_usable e \<Longrightarrow> entry_end e \<le> 8 * length (bitmap ra) * 4096"
    and "entry_usable e \<Longrightarrow> \<forall>i \<in> region_frames e. \<not> frame_free ra i"
  obtains ra1 where "(if entry_usable e then set_unused_from ra (entry_base e) (entry_length e)
        else Inr ra) = Inr ra1"
    and "search_from ra1 = search_from ra" and "length (bitmap ra1) = length (bitmap ra)"
    and "\<forall>i. frame_free ra1 i \<longleftrightarrow> frame_free ra i \<or> entry_usable e \<and> i \<in> region_frames e"
proof (cases "entry_usable e")
  case True
  from set_from_region(1) [OF assms(1) True assms(2) assms(3) [OF True]]
  obtain ra1 where "set_unused_from ra (entry_base e) (entry_length e) = Inr ra1"
    "search_from ra1 = search_from ra" "length (bitmap ra1) = length (bitmap ra)"
    and free: "\<forall>i. frame_free ra1 i \<longleftrightarrow>
      (if i \<in> region_frames e then \<not> frame_free ra i else frame_free ra i)"
    by blast
  moreover have "\<forall>i. frame_free ra1 i \<longleftrightarrow> frame_free ra i \<or> entry_usable e \<and> i \<in> region_frames e"
    using free assms(4) [OF True] True by simp
  ultimately show ?thesis using True by (intro that [of ra1]) auto
next
  case False
  then show ?thesis by (intro that [of ra]) auto
qed

lemma free_usable_spec:
  assumes "mmap_ok es" and "lst \<in> set es" and "entry_usable lst"
    and "\<forall>e \<in> set es. entry_usable e \<longrightarrow>
      unat (entry_base e) \<le> unat (entry_base lst) \<and> entry_end e \<le> 8 * length (bitmap ra) * 4096"
    and "ra_inv ra" and "\<forall>e \<in> set es. entry_usable e \<longrightarrow> (\<forall>i \<in> region_frames e. \<not> frame_free ra i)"
  shows "\<exists>ra'. free_usable lst es ra = Inr ra' \<and> search_from ra' = search_from ra \<and>
     length (bitmap ra') = length (bitmap ra) \<and>
     (\<forall>i. frame_free ra' i \<longleftrightarrow>
        frame_free ra i \<or> (\<exists>e \<in> set es. entry_usable e \<and> i \<in> region_frames e))"
  using assms
proof (induction es arbitrary: ra)
  case Nil
  then show ?case by simp
next
  case (Cons e es)
  have ok: "entry_ok e" and ok_es: "mmap_ok es"
    and after: "\<And>e'. e' \<in> set es \<Longrightarrow> entry_usable e \<or> entry_usable e' \<Longrightarrow>
      entry_end e \<le> unat (entry_base e')"
    using Cons.prems(1) by (auto simp: mmap_ok_def)
  obtain ra1 where ra1: "(if entry_usable e then set_unused_from ra (entry_base e) (entry_length e)
        else Inr ra) = Inr ra1"
    "search_from ra1 = search_from ra" "length (bitmap ra1) = length (bitmap ra)"
    "\<forall>i. frame_free ra1 i \<longleftrightarrow> frame_free ra i \<or> entry_usable e \<and> i \<in> region_frames e"
    using free_one [OF ok Cons.prems(5)] Cons.prems(4,6) by auto
  show ?case
  proof (cases "entry_base e = entry_base lst")
    case True
    have "\<not> entry_usable e'" if "e' \<in> set es" for e'
    proof
      assume u: "entry_usable e'"
      have "entry_end e \<le> unat (entry_base e')" using after that u by blast
      moreover have "unat (entry_base e') \<le> unat (entry_base e)"
        using Cons.prems(4) that u True by simp
      ultimately show False using ok by (simp add: entry_ok_def entry_end_def)
    qed
    then show ?thesis using True ra1 by auto
  next
    case False
    then have lst: "lst \<in> set es" using Cons.prems(2) by auto
    have disj: "i \<notin> region_frames e" if "e' \<in> set es" "entry_usable e'" "i \<in> region_frames e'" for e' i
      using after [OF that(1)] that(2,3) by (auto simp: region_frames_def)
    have "\<exists>ra'. free_usable lst es ra1 = Inr ra' \<and> search_from ra' = search_from ra1 \<and>
       length (bitmap ra') = length (bitmap ra1) \<and>
       (\<forall>i. frame_free ra' i \<longleftrightarrow>
          frame_free ra1 i \<or> (\<exists>e \<in> set es. entry_usable e \<and> i \<in> region_frames e))"
      using Cons.prems lst ok_es ra1 disj
      by (intro Cons.IH) (auto simp: ra_inv_def)
    then show ?thesis using False ra1 by auto
  qed
qed

section \<open>The initial allocator\<close>

lemma sorted_wrt_last: "sorted_wrt P xs \<Longrightarrow> x \<in> set xs \<Longrightarrow> x = last xs \<or> P x (last xs)"
  by (induction xs) auto

lemma sorted_wrt_hd: "sorted_wrt P xs \<Longrightarrow> x \<in> set xs \<Longrightarrow> x = hd xs \<or> P (hd xs) x"
  by (cases xs) auto

lemma find_filter: "find P xs = (if filter P xs = [] then None else Some (hd (filter P xs)))"
  by (induction xs) auto

lemma mmap_bounds:
  assumes "mmap_ok entries" and "e \<in> set entries" and "entry_usable e"
  obtains first lst where "usable_bounds None None entries = (Some first, Some lst)"
    and "first \<in> set entries" "entry_usable first" "lst \<in> set entries" "entry_usable lst"
    and "\<And>x. x \<in> set entries \<Longrightarrow> entry_usable x \<Longrightarrow>
      unat (entry_base first) \<le> unat (entry_base x) \<and>
      unat (entry_base x) \<le> unat (entry_base lst) \<and> entry_end x \<le> entry_end lst"
proof -
  let ?us = "filter entry_usable entries"
  let ?P = "\<lambda>e e'. entry_usable e \<or> entry_usable e' \<longrightarrow> entry_end e \<le> unat (entry_base e')"
  have ne: "?us \<noteq> []" using assms(2,3) by (auto simp: filter_empty_conv)
  have sorted: "sorted_wrt ?P ?us"
    using assms(1) by (simp add: mmap_ok_def sorted_wrt_filter)
  have "hd ?us \<in> set ?us" "last ?us \<in> set ?us"
    using ne by (rule hd_in_set, rule last_in_set)
  moreover have "usable_bounds None None entries = (Some (hd ?us), Some (last ?us))"
    using usable_bounds_fst [of None None entries] usable_bounds_snd [of None None entries] ne
    by (simp add: prod_eq_iff find_filter)
  moreover have "unat (entry_base (hd ?us)) \<le> unat (entry_base x) \<and>
      unat (entry_base x) \<le> unat (entry_base (last ?us)) \<and> entry_end x \<le> entry_end (last ?us)"
    if "x \<in> set entries" "entry_usable x" for x
    using sorted_wrt_hd [OF sorted, of x] sorted_wrt_last [OF sorted, of x] that
    by (auto simp: entry_end_def)
  ultimately show ?thesis by (intro that [of "hd ?us" "last ?us"]) auto
qed

lemma bitmap_bytes:
  assumes "unat hi < 2 ^ 63" and "4096 dvd unat hi"
  obtains bits where "align_down hi PAGE_SIZE = Inr hi"
    and "mul_w (hi div PAGE_SIZE) PAGE_SIZE = Inr hi"
    and "align_up (hi div PAGE_SIZE) 8 = Inr bits"
    and "unat hi \<le> unat (bits div 8) * 32768" and "unat (bits div 8) * 32768 < unat hi + 32768"
proof -
  define n where "n = unat hi div 4096"
  have hi: "unat hi = n * 4096"
    unfolding n_def by (rule dvd_div_mult_self [OF assms(2), symmetric])
  have cnt: "unat (hi div PAGE_SIZE) = n" by (simp add: n_def unat_div)
  have down: "align_down hi PAGE_SIZE = Inr hi"
    using unat_page_floor [of hi] hi by (simp add: align_down_page word_unat_eq_iff)
  have mul: "mul_w (hi div PAGE_SIZE) PAGE_SIZE = Inr hi"
  proof -
    have fits: "unat (hi div PAGE_SIZE) * unat PAGE_SIZE < 2 ^ LENGTH(64)"
      using hi assms(1) by (simp add: cnt)
    then have "mul_w (hi div PAGE_SIZE) PAGE_SIZE = Inr (hi div PAGE_SIZE * PAGE_SIZE)"
      by (simp add: mul_w_def)
    moreover have "unat (hi div PAGE_SIZE * PAGE_SIZE) = unat hi"
      using unat_mul_small [OF fits] hi by (simp add: cnt)
    ultimately show ?thesis by (simp add: word_unat_eq_iff)
  qed
  have small: "unat (hi div PAGE_SIZE) + 2 ^ 3 < 2 ^ 64" using hi assms(1) by (simp add: cnt)
  then obtain bits where bits: "align_up (hi div PAGE_SIZE) (2 ^ 3) = Inr bits"
    by (simp add: align_up_pow2 del: power_numeral)
  note b = align_up_bounds [OF _ bits, simplified, unfolded cnt]
  have div: "unat (bits div 8) * 8 = unat bits" using b(1) by (simp add: unat_div)
  then have "n \<le> unat (bits div 8) * 8" "unat (bits div 8) * 8 < n + 8"
    using b(2,3) by simp_all
  then show ?thesis using down mul bits hi by (intro that [of bits]) auto
qed

lemma bit_full_u8: "j < 8 \<Longrightarrow> bit (0xFF :: u8) j"
proof -
  have full: "(0xFF :: u8) = mask 8" by (simp add: mask_eq_decr_exp)
  show "j < 8 \<Longrightarrow> bit (0xFF :: u8) j" unfolding full by (simp add: bit_mask_iff)
qed

lemma frame_free_full: "\<not> frame_free \<lparr>bitmap = replicate n 0xFF, search_from = sf\<rparr> i"
  using bit_full_u8 [of "i mod 8"] by (auto simp: frame_free_def less_mult_imp_div_less)

lemma search_start:
  assumes "entry_ok e" and "entry_usable e"
  shows "\<exists>a sf. align_up (entry_base e) PAGE_SIZE = Inr a \<and> bitmap_index_from_addr a = Inr sf \<and>
     unat sf = unat (entry_base e) div 4096"
proof -
  note ok = entry_ok_usable [OF assms]
  have "unat (entry_base e) + 2 ^ 12 < 2 ^ 64" using ok(3) by (simp add: entry_end_def)
  then have up: "align_up (entry_base e) PAGE_SIZE = Inr (entry_base e)"
    using align_up_idem [of 12 "entry_base e"] ok(1) by (simp add: PAGE_SIZE_def)
  obtain row col where loc: "bitmap_loc_from_addr (entry_base e) = Inr (row, col)"
    and row: "unat row = unat (entry_base e) div 4096 div 8"
    and col: "unat col = unat (entry_base e) div 4096 mod 8"
    by (rule bitmap_loc_from_addr_eq)
  have b: "unat (entry_base e) div 4096 < 2 ^ 52"
    using ok(3) by (simp add: entry_end_def)
  have m: "unat row * unat (8::usize) < 2 ^ LENGTH(64)" using b by (simp add: row)
  have s: "unat (row * 8) + unat col = unat (entry_base e) div 4096"
    using unat_mul_small [OF m] by (simp add: row col)
  then have "add_w (row * 8) col = Inr (row * 8 + col)"
    using b by (simp add: add_w_def)
  then have "bitmap_index_from_addr (entry_base e) = Inr (row * 8 + col)"
    using m by (simp add: bitmap_index_from_addr_def loc bitmap_index_from_loc_def mul_w_def)
  moreover have "unat (row * 8 + col) = unat (entry_base e) div 4096"
    using add_w_unat [OF \<open>add_w (row * 8) col = Inr (row * 8 + col)\<close>] s by simp
  ultimately show ?thesis using up by blast
qed

text \<open>The size of the bitmap and the region it goes to.\<close>

lemma bitmap_region:
  assumes ok: "mmap_ok entries" and lst: "lst \<in> set entries" "entry_usable lst" and r: "r \<in> set entries" "entry_usable r"
    and fits: "entry_end lst \<le> 32768 * unat (entry_length r)"
  shows "\<exists>hi bits best. add_w (entry_base lst) (entry_length lst) = Inr hi \<and> align_down hi PAGE_SIZE = Inr hi \<and>
    mul_w (hi div PAGE_SIZE) PAGE_SIZE = Inr hi \<and> align_up (hi div PAGE_SIZE) 8 = Inr bits \<and>
    entry_end lst \<le> unat (bits div 8) * 32768 \<and> unat (bits div 8) * 32768 < entry_end lst + 32768 \<and>
    best_region (bits div 8) None entries = Some best \<and> best \<in> set entries \<and> entry_usable best \<and> bits div 8 \<le> entry_length best"
proof -
  have "entry_ok lst" using ok lst by (simp add: mmap_ok_def list_all_iff)
  note lok = entry_ok_usable [OF this lst(2)]
  define hi where "hi = entry_base lst + entry_length lst"
  have add: "add_w (entry_base lst) (entry_length lst) = Inr hi"
    using lok(3) by (simp add: add_w_def hi_def entry_end_def)
  have hi: "unat hi = entry_end lst" using add_w_unat [OF add] by (simp add: entry_end_def)
  have "4096 dvd unat hi" using lok by (simp add: hi entry_end_def)
  then obtain bits where bytes: "align_down hi PAGE_SIZE = Inr hi"
    "mul_w (hi div PAGE_SIZE) PAGE_SIZE = Inr hi" "align_up (hi div PAGE_SIZE) 8 = Inr bits"
    and b: "unat hi \<le> unat (bits div 8) * 32768" "unat (bits div 8) * 32768 < unat hi + 32768"
    using bitmap_bytes [of hi] lok(3) hi by auto
  have "unat (bits div 8) \<le> unat (entry_length r)" using b(2) fits by (simp add: hi)
  then have "best_region (bits div 8) None entries \<noteq> None"
    by (intro best_region_exists [OF r]) (simp add: word_le_nat_alt)
  then obtain best where "best_region (bits div 8) None entries = Some best"
    "best \<in> set entries" "entry_usable best" "bits div 8 \<le> entry_length best"
    using best_region_in [of "bits div 8" None entries] by blast
  with add bytes b show ?thesis unfolding hi by blast
qed

text \<open>Filling a bitmap that is all ones.\<close>

lemma bitmap_filled:
  assumes ok: "mmap_ok entries" and lst: "lst \<in> set entries" "entry_usable lst" and best: "best \<in> set entries" "entry_usable best"
    and bnd: "\<And>x. x \<in> set entries \<Longrightarrow> entry_usable x \<Longrightarrow> unat (entry_base x) \<le> unat (entry_base lst) \<and> entry_end x \<le> entry_end lst"
    and ra0: "bitmap ra0 = replicate n 0xFF" "ra_inv ra0" and room: "entry_end lst \<le> n * 32768"
  shows "\<exists>ra1 ra. free_usable lst entries ra0 = Inr ra1 \<and> set_used_from ra1 (entry_base best) (entry_length best) = Inr ra \<and>
    search_from ra = search_from ra0 \<and> length (bitmap ra) = n \<and>
    (\<forall>i. frame_free ra i \<longleftrightarrow> (\<exists>e \<in> set entries. entry_usable e \<and> i \<in> region_frames e) \<and> i \<notin> region_frames best)"
proof -
  have room: "entry_end e \<le> 8 * length (bitmap ra0) * 4096" if "e \<in> set entries" "entry_usable e" for e
    using bnd [OF that] room ra0(1) by simp
  have full: "\<not> frame_free ra0 i" for i
    using frame_free_full [of n "search_from ra0" i] ra0(1) by (simp add: frame_free_def)
  obtain ra1 where ra1: "free_usable lst entries ra0 = Inr ra1" "search_from ra1 = search_from ra0"
    "length (bitmap ra1) = length (bitmap ra0)"
    "\<forall>i. frame_free ra1 i \<longleftrightarrow> (\<exists>e \<in> set entries. entry_usable e \<and> i \<in> region_frames e)"
    using free_usable_spec [OF ok lst, of ra0] ra0 bnd room by (auto simp: full)
  have inv1: "ra_inv ra1" using ra0(2) ra1(3) by (simp add: ra_inv_def)
  have "entry_ok best" using ok best by (simp add: mmap_ok_def list_all_iff)
  from set_from_region(2) [OF this best(2) inv1] room [OF best] ra1(3)
  obtain ra where ra: "set_used_from ra1 (entry_base best) (entry_length best) = Inr ra"
    "search_from ra = search_from ra1" "length (bitmap ra) = length (bitmap ra1)"
    "\<forall>i. frame_free ra i \<longleftrightarrow> frame_free ra1 i \<and> i \<notin> region_frames best" by auto
  then show ?thesis using ra1 ra0(1) by auto
qed

lemma region_allocator_new_spec:
  assumes ok: "mmap_ok entries" and r: "r \<in> set entries" "entry_usable r"
    and fits: "\<forall>e \<in> set entries. entry_usable e \<longrightarrow> entry_end e \<le> 32768 * unat (entry_length r)"
    and hhdm: "\<forall>e \<in> set entries. entry_usable e \<longrightarrow>
      unat (entry_base e) + unat phy_offset < 2 ^ 64"
  shows "\<exists>ra best. region_allocator_new entries phy_offset = Inr ra \<and> ra_inv ra \<and>
     best \<in> set entries \<and> entry_usable best \<and> length (bitmap ra) \<le> unat (entry_length best) \<and>
     free_frames ra = (\<Union>e \<in> {e \<in> set entries. entry_usable e}. region_frames e) - region_frames best"
proof -
  obtain first lst where ub: "usable_bounds None None entries = (Some first, Some lst)"
    and first: "first \<in> set entries" "entry_usable first"
    and lst: "lst \<in> set entries" "entry_usable lst"
    and bnd: "\<And>x. x \<in> set entries \<Longrightarrow> entry_usable x \<Longrightarrow>
      unat (entry_base first) \<le> unat (entry_base x) \<and>
      unat (entry_base x) \<le> unat (entry_base lst) \<and> entry_end x \<le> entry_end lst"
    using mmap_bounds [OF ok r] by blast
  have eok: "entry_ok x" if "x \<in> set entries" for x
    using ok that by (simp add: mmap_ok_def list_all_iff)
  note lok = entry_ok_usable [OF eok [OF lst(1)] lst(2)]
  from bitmap_region [OF ok lst r] fits lst obtain hi bits best where
    bytes: "add_w (entry_base lst) (entry_length lst) = Inr hi" "align_down hi PAGE_SIZE = Inr hi"
      "mul_w (hi div PAGE_SIZE) PAGE_SIZE = Inr hi" "align_up (hi div PAGE_SIZE) 8 = Inr bits"
    and b: "entry_end lst \<le> unat (bits div 8) * 32768" "unat (bits div 8) * 32768 < entry_end lst + 32768"
    and best: "best_region (bits div 8) None entries = Some best" "best \<in> set entries" "entry_usable best" "bits div 8 \<le> entry_length best"
    by blast
  have off: "\<exists>v. add_w (entry_base best) phy_offset = Inr v" using hhdm best by (simp add: add_w_def)
  obtain a sf where sf: "align_up (entry_base first) PAGE_SIZE = Inr a"
    "bitmap_index_from_addr a = Inr sf" "unat sf = unat (entry_base first) div 4096"
    using search_start [OF eok [OF first(1)] first(2)] by blast
  define ra0 where "ra0 = \<lparr>bitmap = replicate (unat (bits div 8)) (0xFF::u8), search_from = sf\<rparr>"
  have inv0: "ra_inv ra0" using b(2) lok(3) by (simp add: ra_inv_def ra0_def)
  from bitmap_filled [OF ok lst best(2,3) _ _ inv0 b(1)] bnd obtain ra1 ra where
    ra: "free_usable lst entries ra0 = Inr ra1" "set_used_from ra1 (entry_base best) (entry_length best) = Inr ra"
      "search_from ra = sf" "length (bitmap ra) = unat (bits div 8)"
      "\<forall>i. frame_free ra i \<longleftrightarrow> (\<exists>e \<in> set entries. entry_usable e \<and> i \<in> region_frames e) \<and> i \<notin> region_frames best"
    by (auto simp: ra0_def)
  have pos: "0 < unat (bits div 8)" using b(1) lok(4) by (auto simp: entry_end_def)
  have new: "region_allocator_new entries phy_offset = Inr ra"
    using off pos by (auto simp: region_allocator_new_def ub bytes best(1) Let_def idx_def sf ra(1) [unfolded ra0_def] ra(2))
  have start: "unat (search_from ra) \<le> i" if "e \<in> set entries" "entry_usable e" "i \<in> region_frames e" for e i
  proof -
    have "unat (entry_base first) \<le> i * 4096" using bnd [OF that(1,2)] that(3) by (auto simp: region_frames_def)
    then show ?thesis using sf(3) ra(3) by simp
  qed
  then have free: "free_frames ra = (\<Union>e \<in> {e \<in> set entries. entry_usable e}. region_frames e) - region_frames best"
    using ra(5) by (auto simp: free_frames_def)
  have "ra_inv ra" "length (bitmap ra) \<le> unat (entry_length best)" using inv0 ra(4) best(4) by (simp_all add: ra_inv_def ra0_def word_le_nat_alt)
  then show ?thesis using new best free by blast
qed



end
