(* ===== verification/Address_Space.thy ===== *)
theory Address_Space
  imports Paging
begin

text \<open>
  Correctness of the page-table code of \<open>Paging\<close>: reading back an entry, the
  invariant of an address space, and what \<open>map_to\<close>, \<open>is_mapped\<close>, \<open>allocate_pml4\<close>
  and \<open>free\<close> do to it.
\<close>

section \<open>Reading an entry back\<close>

definition ADDR_MASK :: usize where "ADDR_MASK = 0x000FFFFFFFFFF000"

definition entry_addr :: "entry \<Rightarrow> phys_addr" where
  "entry_addr e = e AND ADDR_MASK"

definition flags_ok :: "u64 \<Rightarrow> bool" where
  "flags_ok fl \<longleftrightarrow> fl AND all_flags = fl \<and> fl AND PRESENT = PRESENT"

definition addr_ok :: "phys_addr \<Rightarrow> bool" where
  "addr_ok a \<longleftrightarrow> a AND ADDR_MASK = a"

lemma all_flags_val: "all_flags = 0x80000000000001FF"
  by (simp add: all_flags_def PRESENT_def WRITABLE_def USER_ACCESSIBLE_def WRITE_THROUGH_def
      NO_CACHE_def ACCESSED_def DIRTY_def HUGE_PAGE_def GLOBAL_def NO_EXECUTE_def)

lemma mask_disjoint: "all_flags AND ADDR_MASK = 0" "ADDR_MASK AND all_flags = 0"
  by (simp_all add: all_flags_val ADDR_MASK_def)

lemma present_in_flags: "all_flags AND PRESENT = PRESENT"
  by (simp add: all_flags_val PRESENT_def)

lemma and_disjoint: "a AND b = a \<Longrightarrow> b AND c = 0 \<Longrightarrow> a AND c = 0" for a :: "'a::len word"
proof -
  assume ab: "a AND b = a" and bc: "b AND c = 0"
  have "a AND c = (a AND b) AND c" using ab by simp
  also have "\<dots> = a AND (b AND c)" by (simp only: and.assoc)
  finally show ?thesis using bc by simp
qed

lemma flags_ok_addr: "flags_ok fl \<Longrightarrow> fl AND ADDR_MASK = 0"
  using mask_disjoint(1) by (auto simp: flags_ok_def intro: and_disjoint)

lemma addr_ok_flags: "addr_ok a \<Longrightarrow> a AND all_flags = 0"
  using mask_disjoint(2) by (auto simp: addr_ok_def intro: and_disjoint)

lemma present_iff: "x AND PRESENT = PRESENT \<longleftrightarrow> bit x 0"
  by (simp add: PRESENT_def and_one_eq bit_0 odd_iff_mod_2_eq_one)

lemma entry_new_addr: "flags_ok fl \<Longrightarrow> addr_ok a \<Longrightarrow> entry_addr (entry_new fl a) = a"
  by (simp add: entry_addr_def entry_new_def bit.conj_disj_distrib2 flags_ok_addr)
     (simp add: addr_ok_def)

lemma entry_new_flags: "flags_ok fl \<Longrightarrow> addr_ok a \<Longrightarrow> entry_flags (entry_new fl a) = fl"
  by (simp add: entry_flags_def entry_new_def bit.conj_disj_distrib2 addr_ok_flags)
     (simp add: flags_ok_def)

lemma entry_new_mapped: "flags_ok fl \<Longrightarrow> addr_ok a \<Longrightarrow> entry_is_mapped (entry_new fl a)"
  by (simp add: entry_is_mapped_def entry_new_flags) (simp add: flags_ok_def)

lemma not_mapped_zero [simp]: "\<not> entry_is_mapped 0"
  by (simp add: entry_is_mapped_def entry_flags_def PRESENT_def)

lemma ADDR_MASK_eq: "ADDR_MASK = NOT (mask 12) AND mask 52"
  by (simp add: ADDR_MASK_def mask_eq_decr_exp)

lemma addr_ok_entry_addr: "addr_ok (entry_addr e)"
  by (simp add: addr_ok_def entry_addr_def and.assoc)

lemma addr_ok_page: "addr_ok a \<Longrightarrow> a AND NOT (mask 12) = a"
proof -
  assume ok: "addr_ok a"
  have "ADDR_MASK AND NOT (mask 12) = ADDR_MASK"
    by (simp add: ADDR_MASK_def mask_eq_decr_exp)
  then have "(a AND ADDR_MASK) AND NOT (mask 12) = a AND ADDR_MASK" by (simp only: and.assoc)
  then show ?thesis using ok by (simp add: addr_ok_def)
qed

lemma addr_ok_frame:
  assumes "unat a = n * 4096" and "n < 2 ^ 40"
  shows "addr_ok a"
proof -
  have "a AND NOT (mask 12) = a" using assms(1) by (simp add: word_unat_eq_iff unat_page_floor)
  moreover have "a AND mask 52 = a"
    using assms by (simp add: word_unat_eq_iff unat_and_mask)
  ultimately show ?thesis
    by (simp only: addr_ok_def ADDR_MASK_eq and.assoc [symmetric])
qed

lemma entry_frame_mapped:
  "entry_is_mapped e \<Longrightarrow> entry_frame e = Inr (Some \<lparr>start_address = entry_addr e\<rparr>)"
  using addr_ok_page [OF addr_ok_entry_addr [of e]]
  by (simp add: entry_frame_def entry_is_mapped_def frame_containing_address_eq entry_addr_def ADDR_MASK_def)

lemma flags_ok_or:
  assumes "flags_ok fl"
  shows "flags_ok (fl OR entry_flags e)"
proof -
  have "(fl OR entry_flags e) AND all_flags = fl OR entry_flags e"
    using assms by (simp add: flags_ok_def entry_flags_def bit.conj_disj_distrib2 and.assoc)
  moreover have "(fl OR entry_flags e) AND PRESENT = PRESENT"
    using assms by (simp add: flags_ok_def present_iff bit_or_iff)
  ultimately show ?thesis by (simp add: flags_ok_def)
qed

section \<open>Walking an address space\<close>

definition child :: "machine \<Rightarrow> virt_addr \<Rightarrow> nat \<Rightarrow> virt_addr option" where
  "child m t i =
     (if entry_is_mapped (tables m t ! i) then Some (entry_addr (tables m t ! i) + phy_offset m) else None)"

fun follow :: "machine \<Rightarrow> virt_addr \<Rightarrow> nat list \<Rightarrow> virt_addr option" where
  "follow m t [] = Some t"
| "follow m t (i # is) = (case child m t i of None \<Rightarrow> None | Some c \<Rightarrow> follow m c is)"

definition leaf :: "machine \<Rightarrow> virt_addr \<Rightarrow> nat \<Rightarrow> entry option" where
  "leaf m t i = (if entry_is_mapped (tables m t ! i) then Some (tables m t ! i) else None)"

fun walk :: "machine \<Rightarrow> virt_addr \<Rightarrow> nat list \<Rightarrow> entry option" where
  "walk m t [] = None"
| "walk m t [i] = leaf m t i"
| "walk m t (i # j # is) = (case child m t i of None \<Rightarrow> None | Some c \<Rightarrow> walk m c (j # is))"

definition page_path :: "page \<Rightarrow> nat list" where
  "page_path page = (let (_, i1, i2, i3, i4) = translate (page_start page) in
     [unat i4, unat i3, unat i2, unat i1])"

definition pt_entry :: "machine \<Rightarrow> virt_addr \<Rightarrow> page \<Rightarrow> entry option" where
  "pt_entry m root page = walk m root (page_path page)"

text \<open>Well-formed memory, and the level typing of one address space.\<close>

definition wf_machine :: "machine \<Rightarrow> bool" where
  "wf_machine m \<longleftrightarrow> ra_inv (frames m) \<and> 8 * length (bitmap (frames m)) \<le> 2 ^ 40 \<and>
     8 * length (bitmap (frames m)) * 4096 + unat (phy_offset m) \<le> 2 ^ 64 \<and>
     (\<forall>a. length (tables m a) = ENTRY_COUNT)"

definition used_table :: "machine \<Rightarrow> virt_addr \<Rightarrow> bool" where
  "used_table m t \<longleftrightarrow> (\<exists>n. n \<notin> free_frames (frames m) \<and> unat t = n * 4096 + unat (phy_offset m))"

definition link :: "machine \<Rightarrow> (virt_addr \<rightharpoonup> nat) \<Rightarrow> virt_addr \<Rightarrow> nat \<Rightarrow> virt_addr \<Rightarrow> bool" where
  "link m L t i c \<longleftrightarrow> (\<exists>l. L t = Some l \<and> 1 < l) \<and> i < ENTRY_COUNT \<and> child m t i = Some c"

definition wf_space :: "machine \<Rightarrow> virt_addr \<Rightarrow> (virt_addr \<rightharpoonup> nat) \<Rightarrow> bool" where
  "wf_space m root L \<longleftrightarrow> wf_machine m \<and> L root = Some 4 \<and>
     (\<forall>t l. L t = Some l \<longrightarrow> 1 \<le> l \<and> used_table m t) \<and>
     (\<forall>t i c. link m L t i c \<longrightarrow> L c = Some (the (L t) - 1)) \<and>
     (\<forall>t i t' i' c. link m L t i c \<longrightarrow> link m L t' i' c \<longrightarrow> t = t' \<and> i = i')"

lemma follow_append:
  "follow m t (p @ q) = (case follow m t p of None \<Rightarrow> None | Some c \<Rightarrow> follow m c q)"
  by (induction p arbitrary: t) (auto split: option.splits)

lemma follow_snoc:
  "follow m t (p @ [i]) = (case follow m t p of None \<Rightarrow> None | Some c \<Rightarrow> child m c i)"
  by (simp add: follow_append split: option.splits)

lemma wf_spaceD:
  assumes "wf_space m root L"
  shows "wf_machine m" and "L root = Some 4"
    and "L t = Some l \<Longrightarrow> 1 \<le> l" and "L t = Some l \<Longrightarrow> used_table m t"
    and "link m L t i c \<Longrightarrow> L c = Some (the (L t) - 1)"
    and "link m L t i c \<Longrightarrow> link m L t' i' c \<Longrightarrow> t = t' \<and> i = i'"
  using assms unfolding wf_space_def by (elim conjE; blast)+

lemma linkI: "L t = Some l \<Longrightarrow> 1 < l \<Longrightarrow> i < ENTRY_COUNT \<Longrightarrow> child m t i = Some c \<Longrightarrow> link m L t i c"
  by (simp add: link_def)

lemma used_table_no_wrap:
  assumes "used_table m (a + phy_offset m)"
  shows "unat a + unat (phy_offset m) < 2 ^ 64"
proof (rule ccontr)
  let ?a = "unat a" and ?p = "unat (phy_offset m)"
  assume "\<not> ?thesis"
  then have ge: "2 ^ 64 \<le> ?a + ?p" by simp
  obtain n where "unat (a + phy_offset m) = n * 4096 + ?p"
    using assms unfolding used_table_def by blast
  moreover have "unat (a + phy_offset m) = (?a + ?p) mod 2 ^ 64"
    by (simp add: unat_word_ariths)
  moreover have "(?a + ?p) mod 2 ^ 64 = ?a + ?p - 2 ^ 64"
    using ge unat_lt_2p64 [of a] unat_lt_2p64 [of "phy_offset m"]
    by (subst le_mod_geq) (simp_all del: unat_lt_2p64)
  ultimately have "n * 4096 + ?p = ?a + ?p - 2 ^ 64" by (simp only:)
  then show False using ge unat_lt_2p64 [of a] by (simp del: unat_lt_2p64)
qed

lemma child_add:
  assumes "wf_space m root L" and "L t = Some l" and "1 < l" and "i < ENTRY_COUNT"
    and "entry_is_mapped (tables m t ! i)"
  shows "add_w (entry_addr (tables m t ! i)) (phy_offset m)
      = Inr (entry_addr (tables m t ! i) + phy_offset m)"
    and "child m t i = Some (entry_addr (tables m t ! i) + phy_offset m)"
    and "L (entry_addr (tables m t ! i) + phy_offset m) = Some (l - 1)"
proof -
  show c: "child m t i = Some (entry_addr (tables m t ! i) + phy_offset m)"
    using assms(5) by (simp add: child_def)
  show L: "L (entry_addr (tables m t ! i) + phy_offset m) = Some (l - 1)"
    using wf_spaceD(5) [OF assms(1) linkI [where L = L and m = m, OF assms(2-4) c]] assms(2) by simp
  have "used_table m (entry_addr (tables m t ! i) + phy_offset m)"
    using wf_spaceD(4) [OF assms(1) L] .
  from used_table_no_wrap [OF this]
  show "add_w (entry_addr (tables m t ! i)) (phy_offset m)
      = Inr (entry_addr (tables m t ! i) + phy_offset m)"
    by (simp add: add_w_def)
qed

text \<open>
  What one \<open>Entry::map\<close> does to an address space: entry \<open>i\<close> of table \<open>t\<close> now leads
  to \<open>v\<close>, every other entry of the space is as before, and \<open>v\<close> is either the table
  the entry already led to or a new, empty one.
\<close>

definition keeps :: "machine \<Rightarrow> machine \<Rightarrow> (virt_addr \<rightharpoonup> nat) \<Rightarrow> nat \<Rightarrow> bool" where
  "keeps m m' L n \<longleftrightarrow> phy_offset m' = phy_offset m \<and> cr3 m' = cr3 m \<and>
     free_frames (frames m') \<subseteq> free_frames (frames m) \<and>
     card (free_frames (frames m)) \<le> card (free_frames (frames m')) + n \<and>
     (\<forall>a. used_table m a \<longrightarrow> L a = None \<longrightarrow> tables m' a = tables m a)"

definition grows :: "machine \<Rightarrow> machine \<Rightarrow> virt_addr \<Rightarrow> nat \<Rightarrow> virt_addr \<Rightarrow> (virt_addr \<rightharpoonup> nat) \<Rightarrow> bool" where
  "grows m m' t i v L \<longleftrightarrow> child m' t i = Some v \<and> keeps m m' L 1 \<and>
     (\<forall>t' j. t' \<in> dom L \<longrightarrow> (t', j) \<noteq> (t, i) \<longrightarrow> tables m' t' ! j = tables m t' ! j) \<and>
     (child m t i = Some v \<or>
      child m t i = None \<and> v \<notin> dom L \<and> \<not> used_table m v \<and> (\<forall>j < ENTRY_COUNT. tables m' v ! j = 0))"

lemma entry_map_run:
  assumes wf: "wf_space m root L" and t: "L t = Some l" "1 < l" and i: "i < ENTRY_COUNT"
    and fl: "flags_ok fl" and mapped: "entry_is_mapped (tables m t ! i)"
  shows "\<exists>m' e'. entry_map t i fl m = Inr (Inr (entry_addr (tables m t ! i) + phy_offset m), m') \<and>
    m' = write_table t ((tables m t)[i := e']) m \<and> (\<forall>t' j. child m' t' j = child m t' j)"
proof -
  let ?e = "tables m t ! i"
  let ?e' = "entry_new (fl OR entry_flags ?e) (entry_addr ?e)"
  let ?m' = "write_table t ((tables m t)[i := ?e']) m"
  have len: "length (tables m t) = ENTRY_COUNT"
    using wf_spaceD(1) [OF wf] by (simp add: wf_machine_def)
  have new: "entry_is_mapped ?e'" "entry_addr ?e' = entry_addr ?e"
    using entry_new_mapped entry_new_addr flags_ok_or [OF fl] addr_ok_entry_addr by auto
  have "entry_map t i fl m = Inr (Inr (entry_addr ?e + phy_offset m), ?m')"
    using i len mapped child_add(1) [OF wf t i mapped] by (simp add: entry_map_def idx_def entry_frame_mapped Let_def)
  moreover have "child ?m' t' j = child m t' j" for t' j
    using new mapped i len
    by (cases "t' = t \<and> j = i") (auto simp: child_def write_table_def nth_list_update Let_def)
  ultimately show ?thesis by blast
qed

lemma same_children_wf:
  assumes "wf_space m root L" and "m' = write_table t (e[i := x]) m" and "e = tables m t" and "\<forall>t' j. child m' t' j = child m t' j"
  shows "wf_space m' root L" and "frames m' = frames m"
proof -
  have same: "frames m' = frames m" "phy_offset m' = phy_offset m" "\<And>a. length (tables m' a) = length (tables m a)"
    by (auto simp: assms(2,3) write_table_def)
  show "wf_space m' root L"
    using assms(1) unfolding wf_space_def wf_machine_def used_table_def link_def same assms(4)[rule_format] .
  show "frames m' = frames m" by (rule same)
qed

lemma entry_map_mapped:
  assumes wf: "wf_space m root L" and t: "L t = Some l" "1 < l" and i: "i < ENTRY_COUNT"
    and fl: "flags_ok fl" and mapped: "entry_is_mapped (tables m t ! i)"
  shows "\<exists>v m'. entry_map t i fl m = Inr (Inr v, m') \<and> wf_space m' root L \<and>
     L v = Some (l - 1) \<and> grows m m' t i v L"
proof -
  note c = child_add [OF wf t i mapped]
  from entry_map_run [OF assms] obtain m' e' where
    run: "entry_map t i fl m = Inr (Inr (entry_addr (tables m t ! i) + phy_offset m), m')"
    and m': "m' = write_table t ((tables m t)[i := e']) m" and child: "\<forall>t' j. child m' t' j = child m t' j" by blast
  note w = same_children_wf [OF wf m' refl child]
  have "grows m m' t i (entry_addr (tables m t ! i) + phy_offset m) L"
    using c(2) t(1) w(2) by (auto simp: grows_def keeps_def child) (auto simp: m' write_table_def)
  then show ?thesis using run c(3) w(1) by blast
qed

text \<open>An entry that leads to a table is followed without taking a frame.\<close>

lemma entry_map_child:
  assumes wf: "wf_space m root L" and t: "L t = Some l" "1 < l" and i: "i < ENTRY_COUNT"
    and fl: "flags_ok fl" and c: "child m t i = Some v"
  shows "\<exists>m'. entry_map t i fl m = Inr (Inr v, m') \<and> wf_space m' root L \<and> frames m' = frames m \<and>
    (\<forall>t' j. child m' t' j = child m t' j) \<and> L v = Some (l - 1)"
proof -
  have mapped: "entry_is_mapped (tables m t ! i)" and v: "v = entry_addr (tables m t ! i) + phy_offset m"
    using c by (auto simp: child_def split: if_splits)
  from entry_map_run [OF wf t i fl mapped] obtain m' e' where
    m': "entry_map t i fl m = Inr (Inr v, m')" "m' = write_table t ((tables m t)[i := e']) m" "\<forall>t' j. child m' t' j = child m t' j"
    unfolding v by blast
  show ?thesis using m' same_children_wf [OF wf m'(2) refl m'(3)] child_add(3) [OF wf t i mapped] v by auto
qed

lemma used_table_frame:
  assumes "used_table m v" and "unat v = n * 4096 + unat (phy_offset m)"
  shows "n \<notin> free_frames (frames m)"
  using assms by (auto simp: used_table_def)

lemma fresh_frame:
  assumes wfm: "wf_machine m" and f: "frame_no f \<in> free_frames (frames m)"
    and a: "unat (start_address f) = frame_no f * 4096"
  shows "unat (start_address f) + unat (phy_offset m) < 2 ^ 64"
    and "unat (start_address f + phy_offset m) = frame_no f * 4096 + unat (phy_offset m)"
    and "addr_ok (start_address f)"
    and "\<not> used_table m (start_address f + phy_offset m)"
proof -
  note wfm = wfm [unfolded wf_machine_def]
  have n: "frame_no f < 8 * length (bitmap (frames m))"
    using f by (simp add: free_frames_def frame_free_def)
  show nw: "unat (start_address f) + unat (phy_offset m) < 2 ^ 64"
    using n wfm a by linarith
  then show v: "unat (start_address f + phy_offset m) = frame_no f * 4096 + unat (phy_offset m)"
    by (simp add: unat_add_small a)
  show "addr_ok (start_address f)" using addr_ok_frame [OF a] n wfm by linarith
  show "\<not> used_table m (start_address f + phy_offset m)"
    using used_table_frame [OF _ v] f by auto
qed

text \<open>A fresh table \<open>v\<close> hung into entry \<open>i\<close> of \<open>t\<close>.\<close>

lemma new_table_links:
  assumes t: "L t = Some l" "1 < l" and i: "i < ENTRY_COUNT" and fresh: "L v = None"
    and new: "child m' t i = Some v" "child m t i = None" "\<And>j. j < ENTRY_COUNT \<Longrightarrow> child m' v j = None"
    and same: "\<And>t' j. t' \<noteq> v \<Longrightarrow> (t', j) \<noteq> (t, i) \<Longrightarrow> child m' t' j = child m t' j"
  shows "link m' (L(v \<mapsto> l - 1)) t' j c \<longleftrightarrow> (t', j, c) = (t, i, v) \<or> link m L t' j c"
  using fresh t i new(1,2) new(3) [of j] same [of t' j]
  by (cases "t' = v"; cases "(t', j) = (t, i)") (auto simp: link_def)

lemma new_table_wf:
  assumes wf: "wf_space m root L" and t: "L t = Some l" "1 < l" and fresh: "L v = None" and wfm: "wf_machine m'"
    and used: "used_table m' v" "\<And>a. used_table m a \<Longrightarrow> used_table m' a"
    and links: "\<And>t' j c. link m' (L(v \<mapsto> l - 1)) t' j c \<longleftrightarrow> (t', j, c) = (t, i, v) \<or> link m L t' j c"
  shows "wf_space m' root (L(v \<mapsto> l - 1))"
  unfolding wf_space_def
proof (intro conjI allI impI)
  show "wf_machine m'" by (rule wfm)
  show "(L(v \<mapsto> l - 1)) root = Some 4" using wf_spaceD(2) [OF wf] fresh by auto
  fix t' l' j c
  show "1 \<le> l'" if "(L(v \<mapsto> l - 1)) t' = Some l'"
    using that wf_spaceD(3) [OF wf] t by (auto split: if_splits)
  show "used_table m' t'" if "(L(v \<mapsto> l - 1)) t' = Some l'"
    using that wf_spaceD(4) [OF wf, of t'] used by (auto split: if_splits)
  show "(L(v \<mapsto> l - 1)) c = Some (the ((L(v \<mapsto> l - 1)) t') - 1)" if "link m' (L(v \<mapsto> l - 1)) t' j c"
    using that wf_spaceD(5) [OF wf, of t' j c] fresh t unfolding links by (auto simp: link_def)
  fix t2 j2
  assume "link m' (L(v \<mapsto> l - 1)) t' j c" and "link m' (L(v \<mapsto> l - 1)) t2 j2 c"
  then show "t' = t2" and "j = j2"
    using wf_spaceD(6) [OF wf, of t' j c t2 j2] wf_spaceD(5) [OF wf, of _ _ v] fresh unfolding links by auto
qed

lemma entry_map_unmapped:
  assumes wf: "wf_space m root L" and t: "L t = Some l" "1 < l" and i: "i < ENTRY_COUNT"
    and fl: "flags_ok fl" and unmapped: "\<not> entry_is_mapped (tables m t ! i)"
  obtains (none) "entry_map t i fl m = Inr (Inl FrameAllocationFailed, m)"
      and "free_frames (frames m) = {}"
  | (some) v m' where "entry_map t i fl m = Inr (Inr v, m')" and "wf_space m' root (L(v \<mapsto> l - 1))"
      and "grows m m' t i v L"
proof -
  note wfm = wf_spaceD(1) [OF wf, unfolded wf_machine_def]
  have len: "length (tables m a) = ENTRY_COUNT" for a using wfm by blast
  have idx: "idx (tables m t) i = Inr (tables m t ! i)" using i len by (simp add: idx_def)
  have "ra_inv (frames m)" using wfm by blast
  then show thesis
  proof (cases rule: allocate_frame_cases)
    case none
    then show thesis using that(1) unmapped idx by (simp add: entry_map_def)
  next
    case (some f ra')
    define v where "v = start_address f + phy_offset m"
    define e' where "e' = entry_new fl (start_address f)"
    define m' where "m' = write_table v (zeroize (tables m v))
        (write_table t ((tables m t)[i := e']) (m\<lparr>frames := ra'\<rparr>))"
    note fresh_v = fresh_frame [OF wf_spaceD(1) [OF wf] some(2,4)]
    have nw: "unat (start_address f) + unat (phy_offset m) < 2 ^ 64" and ok: "addr_ok (start_address f)"
      and v: "unat v = frame_no f * 4096 + unat (phy_offset m)" and unused: "\<not> used_table m v"
      using fresh_v by (simp_all add: v_def)
    note new = entry_new_mapped [OF fl ok] entry_new_addr [OF fl ok]
    have fresh: "L v = None"
      using unused wf_spaceD(4) [OF wf] by (cases "L v") auto
    with t(1) have vt: "v \<noteq> t" by auto
    have run: "entry_map t i fl m = Inr (Inr v, m')"
      using unmapped idx nw vt some(1)
      by (simp add: entry_map_def Let_def m'_def e'_def v_def add_w_def write_table_def)
    have entries: "j < ENTRY_COUNT \<Longrightarrow> tables m' v ! j = 0"
      "t' \<noteq> v \<Longrightarrow> tables m' t' ! j = (if t' = t \<and> j = i then e' else tables m t' ! j)" for t' j
      using vt i len by (auto simp: m'_def write_table_def zeroize_def nth_list_update)
    have off: "phy_offset m' = phy_offset m" and fr: "frames m' = ra'"
      and len': "length (tables m' a) = ENTRY_COUNT" for a
      using len by (auto simp: m'_def write_table_def zeroize_def)
    have child_t: "child m' t i = Some v"
      using vt [symmetric] i new by (simp add: child_def entries off e'_def) (simp add: v_def)
    have child_v: "child m' v j = None" if "j < ENTRY_COUNT" for j
      using that by (simp add: child_def entries)
    have child_o: "child m' t' j = child m t' j" if "t' \<noteq> v" "(t', j) \<noteq> (t, i)" for t' j
      using that by (auto simp: child_def entries off Let_def)
    have child_n: "child m t i = None" using unmapped by (simp add: child_def)
    note links = new_table_links [OF t i fresh child_t child_n child_v child_o]
    have sub: "free_frames ra' = free_frames (frames m) - {frame_no f}"
      using some(6,8) by (auto simp: free_frames_def)
    have "wf_machine m'" using wfm some(5,7) len' by (simp add: wf_machine_def fr off)
    moreover have "used_table m' v" "used_table m a \<Longrightarrow> used_table m' a" for a
      using v by (auto simp: used_table_def fr off sub)
    ultimately have "wf_space m' root (L(v \<mapsto> l - 1))" using links by (rule new_table_wf [OF wf t fresh])
    moreover have "keeps m m' L 1"
      using unused t(1) unfolding keeps_def fr sub by (auto simp: m'_def write_table_def card_Diff_singleton_if)
    moreover have "t' \<noteq> v" if "t' \<in> dom L" for t' using that fresh by auto
    moreover note unused
    ultimately have "grows m m' t i v L"
      using child_t child_n fresh by (auto simp: grows_def entries)
    moreover note \<open>wf_space m' root (L(v \<mapsto> l - 1))\<close>
    ultimately show thesis using that(2) run by blast
  qed
qed

lemma walk_follow:
  "walk m t (p @ [j]) = (case follow m t p of None \<Rightarrow> None | Some c \<Rightarrow> leaf m c j)"
proof (induction p arbitrary: t)
  case (Cons i p)
  then show ?case by (cases p) (auto split: option.splits)
qed simp

lemma grows_tables:
  assumes "grows m m' t i v L" and "L t' = Some l" and "(t', j) \<noteq> (t, i)"
  shows "tables m' t' ! j = tables m t' ! j" and "child m' t' j = child m t' j"
proof -
  have "t' \<in> dom L" using assms(2) by blast
  then show e: "tables m' t' ! j = tables m t' ! j"
    using assms unfolding grows_def by blast
  show "child m' t' j = child m t' j"
    using assms(1) by (simp add: child_def e Let_def) (simp add: grows_def keeps_def)
qed

lemma grows_walk:
  assumes wf: "wf_space m root L" and g: "grows m m' t i v L" and t: "L t = Some l" "1 < l"
  shows "L t' = Some (length q) \<Longrightarrow> \<forall>j \<in> set q. j < ENTRY_COUNT \<Longrightarrow> walk m' t' q = walk m t' q"
proof (induction q arbitrary: t')
  case (Cons j js)
  show ?case
  proof (cases js)
    case Nil
    then have "t' \<noteq> t" using t Cons.prems by auto
    then show ?thesis using Nil grows_tables [OF g Cons.prems(1)] by (simp add: leaf_def)
  next
    case (Cons j' js')
    have sub: "walk m' c js = walk m c js" if "child m t' j = Some c" for c
    proof -
      have "link m L t' j c" using Cons.prems that Cons by (simp add: link_def)
      then have "L c = Some (length js)" using wf_spaceD(5) [OF wf] Cons.prems by fastforce
      then show ?thesis using Cons.IH Cons.prems by simp
    qed
    show ?thesis
    proof (cases "(t', j) = (t, i) \<and> child m t i = None")
      case True
      then have "tables m' v ! j' = 0" "child m' t' j = Some v"
        using g Cons.prems Cons by (auto simp: grows_def)
      then have "walk m' t' (j # js) = None"
        using Cons by (cases js') (simp_all add: leaf_def child_def)
      then show ?thesis using True Cons by simp
    next
      case False
      then have "child m' t' j = child m t' j"
        using grows_tables(2) [OF g Cons.prems(1), of j] g
        by (cases "(t', j) = (t, i)") (auto simp: grows_def)
      then show ?thesis using sub Cons by (auto split: option.splits)
    qed
  qed
qed simp

definition extends :: "machine \<Rightarrow> (virt_addr \<rightharpoonup> nat) \<Rightarrow> (virt_addr \<rightharpoonup> nat) \<Rightarrow> bool" where
  "extends m L L' \<longleftrightarrow> L \<subseteq>\<^sub>m L' \<and> (\<forall>a. L a = None \<longrightarrow> used_table m a \<longrightarrow> L' a = None)"

text \<open>One step of the walk of \<open>map_to\<close>, whichever branch \<open>Entry::map\<close> takes.\<close>

lemma entry_map_step:
  assumes wf: "wf_space m root L" and t: "L t = Some l" "1 < l" and i: "i < ENTRY_COUNT"
    and fl: "flags_ok fl"
  obtains (fail) "entry_map t i fl m = Inr (Inl FrameAllocationFailed, m)"
      and "free_frames (frames m) = {}"
  | (ok) v m' L' where "entry_map t i fl m = Inr (Inr v, m')" and "wf_space m' root L'"
      and "extends m L L'" and "L' v = Some (l - 1)" and "grows m m' t i v L"
proof (cases "entry_is_mapped (tables m t ! i)")
  case True
  moreover have "extends m L L" by (simp add: extends_def)
  ultimately show thesis using entry_map_mapped [OF wf t i fl] ok [of _ _ L] by blast
next
  case False
  from wf t i fl this show thesis
  proof (cases rule: entry_map_unmapped)
    case none
    then show thesis by (rule fail)
  next
    case (some v m')
    have "L v = Some (l - 1)" if "child m t i = Some v"
      using wf_spaceD(5) [OF wf linkI [where L = L and m = m, OF t i that]] t by simp
    then have "extends m L (L(v \<mapsto> l - 1))"
      using some(3) by (auto simp: grows_def extends_def map_le_def)
    with some show thesis by (intro ok [of v m' "L(v \<mapsto> l - 1)"]) auto
  qed
qed

lemma follow_level:
  assumes wf: "wf_space m root L"
  shows "follow m root p = Some t \<Longrightarrow> length p \<le> 3 \<Longrightarrow> \<forall>i \<in> set p. i < ENTRY_COUNT \<Longrightarrow>
    L t = Some (4 - length p)"
proof (induction p arbitrary: t rule: rev_induct)
  case Nil
  then show ?case using wf_spaceD(2) [OF wf] by simp
next
  case (snoc i p)
  then obtain t' where t': "follow m root p = Some t'" "child m t' i = Some t"
    by (auto simp: follow_snoc split: option.splits)
  then have "L t' = Some (4 - length p)" using snoc by simp
  moreover then have "link m L t' i t" using t' snoc.prems by (intro linkI) auto
  ultimately show ?case using wf_spaceD(5) [OF wf, of t' i t] snoc.prems by simp
qed

lemma follow_inj:
  assumes wf: "wf_space m root L"
  shows "follow m root p = Some t \<Longrightarrow> follow m root q = Some t \<Longrightarrow> length p = length q \<Longrightarrow>
    length p \<le> 3 \<Longrightarrow> \<forall>i \<in> set p \<union> set q. i < ENTRY_COUNT \<Longrightarrow> p = q"
proof (induction p arbitrary: t q rule: rev_induct)
  case (snoc i p)
  obtain q' j where q: "q = q' @ [j]" using snoc.prems(3) by (cases q rule: rev_cases) auto
  obtain a b where a: "follow m root p = Some a" "child m a i = Some t"
    and b: "follow m root q' = Some b" "child m b j = Some t"
    using snoc.prems(1,2) by (auto simp: follow_snoc q split: option.splits)
  have "L a = Some (4 - length p)" "L b = Some (4 - length p)"
    using follow_level [OF wf a(1)] follow_level [OF wf b(1)] snoc.prems q by auto
  then have "link m L a i t" "link m L b j t"
    using a b snoc.prems q by (auto intro!: linkI)
  then have "a = b \<and> i = j" by (rule wf_spaceD(6) [OF wf])
  then show ?case using snoc.IH [OF a(1), of q'] b snoc.prems q by auto
qed simp

lemma leaf_write:
  assumes wf: "wf_space m root L" and t: "L t = Some 1" and i: "i < ENTRY_COUNT"
    and p: "follow m root p = Some t" "length p = 3" "\<forall>j \<in> set p. j < ENTRY_COUNT"
    and e: "entry_is_mapped e"
  defines "m' \<equiv> write_table t ((tables m t)[i := e]) m"
  shows "wf_space m' root L" and "keeps m m' L 0"
    and "walk m' root (p @ [i]) = Some e"
    and "length q = 3 \<Longrightarrow> \<forall>j \<in> set q. j < ENTRY_COUNT \<Longrightarrow> q @ [j] \<noteq> p @ [i] \<Longrightarrow>
      walk m' root (q @ [j]) = walk m root (q @ [j])"
proof -
  have len: "length (tables m a) = ENTRY_COUNT" for a
    using wf_spaceD(1) [OF wf] by (simp add: wf_machine_def)
  have tab: "tables m' a ! j = (if a = t \<and> j = i then e else tables m a ! j)" for a j
    using i len by (simp add: m'_def write_table_def)
  have same: "frames m' = frames m" "phy_offset m' = phy_offset m" "cr3 m' = cr3 m"
    "\<And>a. length (tables m' a) = length (tables m a)"
    by (auto simp: m'_def write_table_def)
  have child: "child m' a j = child m a j" if "a \<noteq> t" for a j
    using that by (simp add: child_def tab same Let_def)
  have link: "link m' L a j c = link m L a j c" for a j c
    using child [of a j] t by (cases "a = t") (auto simp: link_def)
  show wf': "wf_space m' root L"
    using wf unfolding wf_space_def wf_machine_def used_table_def link same .
  show "keeps m m' L 0"
    using t by (auto simp: keeps_def same) (auto simp: m'_def write_table_def)
  have follow: "follow m' root q = follow m root q"
    if "length q \<le> 3" "\<forall>j \<in> set q. j < ENTRY_COUNT" for q
    using that
  proof (induction q rule: rev_induct)
    case (snoc j q)
    have "child m' a j = child m a j" if "follow m root q = Some a" for a
      using follow_level [OF wf that] snoc.prems t by (intro child) auto
    then show ?case using snoc by (simp add: follow_snoc split: option.splits)
  qed simp
  show "walk m' root (p @ [i]) = Some e"
    using p e by (simp add: walk_follow follow leaf_def tab)
  show "walk m' root (q @ [j]) = walk m root (q @ [j])"
    if "length q = 3" "\<forall>j \<in> set q. j < ENTRY_COUNT" "q @ [j] \<noteq> p @ [i]"
  proof -
    have "a \<noteq> t \<or> j \<noteq> i" if "follow m root q = Some a" for a
      using follow_inj [OF wf p(1), of q] that p \<open>length q = 3\<close> \<open>\<forall>j \<in> set q. j < ENTRY_COUNT\<close>
        \<open>q @ [j] \<noteq> p @ [i]\<close> by auto
    then show ?thesis using that
      by (auto simp: walk_follow follow leaf_def tab split: option.splits)
  qed
qed

section \<open>Mapping a page\<close>

lemma page_path_lt: "\<forall>i \<in> set (page_path page). i < ENTRY_COUNT"
  by (simp add: page_path_def translate_def ENTRY_COUNT_def p_index_lt)

lemma keeps_trans:
  assumes "keeps m m1 L a" and "extends m L L1" and "keeps m1 m2 L1 b"
  shows "keeps m m2 L (a + b)"
  unfolding keeps_def
proof (intro conjI allI impI)
  show "phy_offset m2 = phy_offset m" "cr3 m2 = cr3 m"
    "free_frames (frames m2) \<subseteq> free_frames (frames m)"
    "card (free_frames (frames m)) \<le> card (free_frames (frames m2)) + (a + b)"
    using assms by (auto simp: keeps_def)
  fix x
  assume u: "used_table m x" and "L x = None"
  then have "L1 x = None" using assms(2) by (auto simp: extends_def)
  moreover have "used_table m1 x" using u assms(1) by (auto simp: used_table_def keeps_def)
  ultimately show "tables m2 x = tables m x" using assms(1,3) u \<open>L x = None\<close>
    by (auto simp: keeps_def)
qed

lemma extends_trans:
  assumes "extends m L L1" and "keeps m m1 L a" and "extends m1 L1 L2"
  shows "extends m L L2"
  unfolding extends_def
proof (intro conjI allI impI)
  show "L \<subseteq>\<^sub>m L2" using assms by (auto simp: extends_def intro: map_le_trans)
  fix x
  assume u: "L x = None" "used_table m x"
  moreover then have "used_table m1 x" using assms(2) by (auto simp: used_table_def keeps_def)
  ultimately show "L2 x = None" using assms(1,3) by (auto simp: extends_def)
qed

text \<open>
  The common part of the outcomes of \<open>map_to\<close>: from \<open>m\<close> to \<open>m'\<close> the space stayed well
  formed, at most \<open>n\<close> frames were taken, and the memory of every other frame in use
  is untouched.
\<close>

definition evolves :: "machine \<Rightarrow> virt_addr \<Rightarrow> (virt_addr \<rightharpoonup> nat) \<Rightarrow> nat \<Rightarrow> machine \<Rightarrow> (virt_addr \<rightharpoonup> nat) \<Rightarrow> bool" where
  "evolves m root L n m' L' \<longleftrightarrow> wf_space m' root L' \<and> extends m L L' \<and> keeps m m' L n"

lemma evolves_trans:
  "evolves m root L a m1 L1 \<Longrightarrow> evolves m1 root L1 b m2 L2 \<Longrightarrow> evolves m root L (a + b) m2 L2"
  unfolding evolves_def using keeps_trans extends_trans by blast

lemma evolves_refl: "wf_space m root L \<Longrightarrow> evolves m root L 0 m L"
  by (simp add: evolves_def extends_def keeps_def)

lemma entry_map_evolves:
  assumes wf: "wf_space m root L" and t: "L t = Some l" "1 < l" and i: "i < ENTRY_COUNT"
    and fl: "flags_ok fl"
  obtains (fail) "entry_map t i fl m = Inr (Inl FrameAllocationFailed, m)"
      and "free_frames (frames m) = {}"
  | (ok) v m' L' where "entry_map t i fl m = Inr (Inr v, m')" and "evolves m root L 1 m' L'"
      and "L' v = Some (l - 1)" and "child m' t i = Some v"
      and "\<And>t' j. L t' \<noteq> None \<Longrightarrow> (t', j) \<noteq> (t, i) \<Longrightarrow> child m' t' j = child m t' j"
      and "\<And>page. pt_entry m' root page = pt_entry m root page"
  using wf t i fl
proof (cases rule: entry_map_step)
  case fail
  then show thesis by (rule that(1))
next
  case (ok v m' L')
  have "pt_entry m' root page = pt_entry m root page" for page
    unfolding pt_entry_def
  proof (rule grows_walk [OF wf ok(5) t])
    show "L root = Some (length (page_path page))"
      using wf_spaceD(2) [OF wf] by (simp add: page_path_def translate_def)
  qed (rule page_path_lt)
  with ok grows_tables(2) [OF ok(5)] show thesis
    by (intro that(2) [of v m' L']) (auto simp: evolves_def grows_def)
qed

lemma evolves_mono: "evolves m root L a m' L' \<Longrightarrow> a \<le> b \<Longrightarrow> evolves m root L b m' L'"
  by (auto simp: evolves_def keeps_def)

lemma evolves_level: "evolves m root L a m' L' \<Longrightarrow> L t = Some l \<Longrightarrow> L' t = Some l"
  by (auto simp: evolves_def extends_def map_le_def dom_def)

lemma evolves_wf: "evolves m root L a m' L' \<Longrightarrow> wf_space m' root L'"
  by (simp add: evolves_def)

lemma evolves_frames:
  "evolves m root L a m' L' \<Longrightarrow> free_frames (frames m') = {} \<Longrightarrow> card (free_frames (frames m)) \<le> a"
  by (simp add: evolves_def keeps_def)

definition map_to_post ::
  "machine \<Rightarrow> virt_addr \<Rightarrow> (virt_addr \<rightharpoonup> nat) \<Rightarrow> page \<Rightarrow> entry \<Rightarrow> ((map_to_error + unit) \<times> machine) rust \<Rightarrow> bool" where
  "map_to_post m root L page e res \<longleftrightarrow>
     (\<exists>m' L'. res = Inr (Inl FrameAllocationFailed, m') \<and> evolves m root L 2 m' L' \<and>
        card (free_frames (frames m)) < 3 \<and> (\<forall>q. pt_entry m' root q = pt_entry m root q)) \<or>
     (\<exists>m' L'. res = Inr (Inr (), m') \<and> evolves m root L 3 m' L' \<and>
        pt_entry m' root page = Some e \<and>
        (\<forall>q. page_path q \<noteq> page_path page \<longrightarrow> pt_entry m' root q = pt_entry m root q))"

lemma page_path_snoc:
  obtains qs j where "page_path q = qs @ [j]" and "length qs = 3"
proof -
  let ?q = "page_path q"
  have "?q = butlast ?q @ [last ?q]" by (rule append_butlast_last_id [symmetric]) (simp add: page_path_def translate_def)
  moreover have "length (butlast ?q) = 3" by (simp add: page_path_def translate_def)
  ultimately show thesis by (rule that)
qed

text \<open>The last step of \<open>map_to\<close>, behind the three tables.\<close>

lemma map_to_leaf:
  assumes ev: "evolves m root L 3 m3 L3" and t1: "L3 t1 = Some 1" and path: "page_path page = [i4, i3, i2, i1]"
    and f: "follow m3 root [i4, i3, i2] = Some t1" and e: "entry_is_mapped e"
    and same: "\<And>q. pt_entry m3 root q = pt_entry m root q" and m4: "m4 = write_table t1 ((tables m3 t1)[i1 := e]) m3"
  shows "evolves m root L 3 m4 L3" and "pt_entry m4 root page = Some e"
    and "page_path q \<noteq> page_path page \<Longrightarrow> pt_entry m4 root q = pt_entry m root q"
proof -
  have lt: "i4 < ENTRY_COUNT" "i3 < ENTRY_COUNT" "i2 < ENTRY_COUNT" "i1 < ENTRY_COUNT" using page_path_lt [of page] path by auto
  note w = leaf_write [OF evolves_wf [OF ev] t1 lt(4) f _ _ e]
  show "evolves m root L 3 m4 L3"
    using evolves_trans [OF ev, of 0 m4 L3] w(1,2) lt by (simp add: evolves_def extends_def m4)
  show "pt_entry m4 root page = Some e" using w(3) lt by (simp add: pt_entry_def path m4)
  assume q: "page_path q \<noteq> page_path page"
  obtain qs j where qs: "page_path q = qs @ [j]" "length qs = 3" by (rule page_path_snoc)
  then have "walk m4 root (page_path q) = walk m3 root (page_path q)"
    using w(4) [of qs j] lt page_path_lt [of q] q by (simp add: m4 path)
  then show "pt_entry m4 root q = pt_entry m root q" using same by (simp add: pt_entry_def)
qed

lemma map_to_spec:
  assumes wf: "wf_space m root L" and fl: "flags_ok fl" and a: "addr_ok (start_address f)"
  shows "map_to_post m root L page (entry_new fl (start_address f)) (map_to root page f fl m)"
proof -
  obtain o' i1 i2 i3 i4 where tr: "translate (page_start page) = (o', i1, i2, i3, i4)"
    by (metis prod_cases5)
  have path: "page_path page = [unat i4, unat i3, unat i2, unat i1]" by (simp add: page_path_def tr)
  then have lt: "unat i4 < ENTRY_COUNT" "unat i3 < ENTRY_COUNT" "unat i2 < ENTRY_COUNT" "unat i1 < ENTRY_COUNT"
    using page_path_lt [of page] by auto
  note run = map_to_def tr
  have root: "L root = Some 4" by (rule wf_spaceD(2) [OF wf])
  have lv: "1 < (4::nat)" "1 < (4 - 1 :: nat)" "1 < (4 - 1 - 1 :: nat)" by simp_all
  from wf root lv(1) lt(1) fl show ?thesis
  proof (cases rule: entry_map_evolves)
    case fail
    then show ?thesis using evolves_mono [OF evolves_refl [OF wf], of 2]
      by (auto simp: run map_to_post_def)
  next
    case s1: (ok t3 m1 L1)
    from evolves_wf [OF s1(2)] s1(3) lv(2) lt(2) fl show ?thesis
    proof (cases rule: entry_map_evolves)
      case fail
      then show ?thesis using evolves_mono [OF s1(2), of 2] evolves_frames [OF s1(2)] s1(1,6)
        by (auto simp: run map_to_post_def)
    next
      case s2: (ok t2 m2 L2)
      note e2 = evolves_trans [OF s1(2) s2(2)]
      from evolves_wf [OF s2(2)] s2(3) lv(3) lt(3) fl show ?thesis
      proof (cases rule: entry_map_evolves)
        case fail
        then show ?thesis using evolves_mono [OF e2, of 2] evolves_frames [OF e2] s1(1,6) s2(1,6)
          by (auto simp: run map_to_post_def)
      next
        case s3: (ok t1 m3 L3)
        note e3 = evolves_trans [OF e2 s3(2)] and wf3 = evolves_wf [OF s3(2)]
        have lev: "L1 root = Some 4" "L2 root = Some 4" "L2 t3 = Some 3"
          using root evolves_level [OF s1(2)] evolves_level [OF s2(2)] s1(3) by auto
        have "child m3 root (unat i4) = child m2 root (unat i4)"
          using lev s2(3) by (intro s3(5)) auto
        also have "\<dots> = child m1 root (unat i4)" using lev s1(3) by (intro s2(5)) auto
        also have "\<dots> = Some t3" by (rule s1(4))
        finally have c4: "child m3 root (unat i4) = Some t3" .
        have "child m3 t3 (unat i3) = child m2 t3 (unat i3)"
          using lev s2(3) by (intro s3(5)) auto
        then have c3: "child m3 t3 (unat i3) = Some t2" using s2(4) by simp
        have f: "follow m3 root [unat i4, unat i3, unat i2] = Some t1" using c4 c3 s3(4) by simp
        have t1: "L3 t1 = Some 1" using s3(3) by simp
        define m4 where "m4 = write_table t1 ((tables m3 t1)[unat i1 := entry_new fl (start_address f)]) m3"
        have "length (tables m3 t1) = ENTRY_COUNT"
          using wf_spaceD(1) [OF wf3] by (simp add: wf_machine_def)
        then have "map_to root page f fl m = Inr (Inr (), m4)"
          using s1(1) s2(1) s3(1) lt by (simp add: run idx_set_def m4_def)
        moreover have e3': "evolves m root L 3 m3 L3" using e3 by (simp add: numeral_3_eq_3)
        moreover have "\<And>q. pt_entry m3 root q = pt_entry m root q" using s1(6) s2(6) s3(6) by (simp add: pt_entry_def)
        note map_to_leaf [OF e3' t1 path f entry_new_mapped [OF fl a] this m4_def]
        ultimately show ?thesis by (auto simp: map_to_post_def)
      qed
    qed
  qed
qed

text \<open>Mapping a page again takes no frame.\<close>

lemma map_to_again:
  assumes wf: "wf_space m root L" and fl: "flags_ok fl" and a: "addr_ok (start_address f)" and old: "pt_entry m root page \<noteq> None"
  shows "\<exists>m' L'. map_to root page f fl m = Inr (Inr (), m') \<and> evolves m root L 0 m' L' \<and>
    pt_entry m' root page = Some (entry_new fl (start_address f))"
proof -
  obtain o' i1 i2 i3 i4 where tr: "translate (page_start page) = (o', i1, i2, i3, i4)"
    by (metis prod_cases5)
  have path: "page_path page = [unat i4, unat i3, unat i2] @ [unat i1]" by (simp add: page_path_def tr)
  then have lt: "unat i4 < ENTRY_COUNT" "unat i3 < ENTRY_COUNT" "unat i2 < ENTRY_COUNT" "unat i1 < ENTRY_COUNT"
    using page_path_lt [of page] by auto
  obtain t3 t2 t1 where c: "child m root (unat i4) = Some t3" "child m t3 (unat i3) = Some t2" "child m t2 (unat i2) = Some t1"
    using old unfolding pt_entry_def path walk_follow by (auto split: option.splits)
  from entry_map_child [OF wf wf_spaceD(2) [OF wf] _ lt(1) fl c(1)] obtain m1 where
    m1: "entry_map root (unat i4) fl m = Inr (Inr t3, m1)" "wf_space m1 root L" "frames m1 = frames m" "\<forall>t j. child m1 t j = child m t j" "L t3 = Some 3"
    by auto
  from entry_map_child [OF m1(2,5) _ lt(2) fl, of t2] c(2) m1(4) obtain m2 where
    m2: "entry_map t3 (unat i3) fl m1 = Inr (Inr t2, m2)" "wf_space m2 root L" "frames m2 = frames m1" "\<forall>t j. child m2 t j = child m1 t j" "L t2 = Some 2"
    by auto
  from entry_map_child [OF m2(2,5) _ lt(3) fl, of t1] c(3) m1(4) m2(4) obtain m3 where
    m3: "entry_map t2 (unat i2) fl m2 = Inr (Inr t1, m3)" "wf_space m3 root L" "frames m3 = frames m2" by auto
  have "length (tables m3 t1) = ENTRY_COUNT" using wf_spaceD(1) [OF m3(2)] by (simp add: wf_machine_def)
  then have "\<exists>m'. map_to root page f fl m = Inr (Inr (), m') \<and> frames m' = frames m"
    using m1 m2 m3 lt by (auto simp: map_to_def tr idx_set_def write_table_def)
  moreover have "map_to_post m root L page (entry_new fl (start_address f)) (map_to root page f fl m)" by (rule map_to_spec [OF wf fl a])
  ultimately show ?thesis by (auto simp: map_to_post_def evolves_def keeps_def)
qed

lemma mapped_to_child:
  assumes wf: "wf_space m root L" and t: "L t = Some l" "1 < l" and i: "i < ENTRY_COUNT"
  shows "rbind (idx (tables m t) i) (\<lambda>e. rbind (mapped_to m e) K) = K (child m t i)"
    and "child m t i = Some c \<Longrightarrow> L c = Some (l - 1)"
proof -
  have "idx (tables m t) i = Inr (tables m t ! i)"
    using wf_spaceD(1) [OF wf] i by (simp add: wf_machine_def idx_def)
  moreover have "mapped_to m (tables m t ! i) = Inr (child m t i)"
    using child_add [OF wf t i]
    by (cases "entry_is_mapped (tables m t ! i)")
       (simp_all add: mapped_to_def entry_frame_mapped, simp add: child_def)
  ultimately show "rbind (idx (tables m t) i) (\<lambda>e. rbind (mapped_to m e) K) = K (child m t i)"
    by simp
  show "L c = Some (l - 1)" if "child m t i = Some c"
    using wf_spaceD(5) [OF wf, of t i c] linkI [of L t l i m c] that t i by simp
qed

lemma is_mapped_spec:
  assumes wf: "wf_space m root L"
  shows "is_mapped m root page = Inr (pt_entry m root page \<noteq> None)"
proof -
  obtain o' i1 i2 i3 i4 where tr: "translate (page_start page) = (o', i1, i2, i3, i4)"
    by (metis prod_cases5)
  have path: "page_path page = [unat i4, unat i3, unat i2, unat i1]" by (simp add: page_path_def tr)
  then have lt: "unat i4 < ENTRY_COUNT" "unat i3 < ENTRY_COUNT" "unat i2 < ENTRY_COUNT" "unat i1 < ENTRY_COUNT"
    using page_path_lt [of page] by auto
  have leaf: "rbind (idx (tables m t) (unat i1)) (\<lambda>e. Inr (entry_is_mapped e)) = Inr (leaf m t (unat i1) \<noteq> None)" for t
    using wf_spaceD(1) [OF wf] lt by (simp add: wf_machine_def idx_def leaf_def Let_def)
  have lv: "1 < (4::nat)" "1 < (3::nat)" "1 < (2::nat)" by simp_all
  note root = wf_spaceD(2) [OF wf]
  note run = is_mapped_def tr pt_entry_def path
  note s4 = mapped_to_child [OF wf root lv(1) lt(1)]
  show ?thesis
  proof (cases "child m root (unat i4)")
    case None
    then show ?thesis by (simp add: run s4(1))
  next
    case t3: (Some t3)
    then have "L t3 = Some 3" using s4(2) by simp
    note s3 = mapped_to_child [OF wf this lv(2) lt(2)]
    show ?thesis
    proof (cases "child m t3 (unat i3)")
      case None
      then show ?thesis using t3 by (simp add: run s4(1) s3(1))
    next
      case t2: (Some t2)
      then have "L t2 = Some 2" using s3(2) by simp
      note s2 = mapped_to_child [OF wf this lv(3) lt(3)]
      show ?thesis using t3 t2
        by (cases "child m t2 (unat i2)") (simp_all add: run s4(1) s3(1) s2(1) leaf)
    qed
  qed
qed

section \<open>Properties\<close>

text \<open>
  C1: \<open>map_to\<close> on a well-formed address space never panics. Either it runs out of
  frames (only possible with fewer than three free ones) and every page translates as
  before, or the page now translates to exactly the frame and flags given and every page
  with other table indices translates as before. In both cases the address space stays
  well formed and the memory of every other frame in use is untouched.
\<close>
theorem map_to_correct:
  assumes "wf_space m root L" and "flags_ok flags" and "addr_ok (start_address frame)"
  shows "(\<exists>m' L'. map_to root page frame flags m = Inr (Inl FrameAllocationFailed, m') \<and>
       evolves m root L 2 m' L' \<and> card (free_frames (frames m)) < 3 \<and>
       (\<forall>q. pt_entry m' root q = pt_entry m root q)) \<or>
     (\<exists>m' L'. map_to root page frame flags m = Inr (Inr (), m') \<and>
       evolves m root L 3 m' L' \<and>
       pt_entry m' root page = Some (entry_new flags (start_address frame)) \<and>
       (\<forall>q. page_path q \<noteq> page_path page \<longrightarrow> pt_entry m' root q = pt_entry m root q))"
  using map_to_spec [OF assms, of page] unfolding map_to_post_def .

definition example_machine :: machine where
  "example_machine = \<lparr>tables = (\<lambda>_. replicate ENTRY_COUNT 0), frames = \<lparr>bitmap = 1 # replicate 99 0, search_from = 0\<rparr>,
     cr3 = 0, phy_offset = 0\<rparr>"

lemma example_machine_sel [simp]:
  "tables example_machine t = replicate ENTRY_COUNT 0" "phy_offset example_machine = 0"
  "frames example_machine = \<lparr>bitmap = 1 # replicate 99 0, search_from = 0\<rparr>"
  by (simp_all add: example_machine_def)

text \<open>A root table without entries is an address space.\<close>

lemma empty_tables_wf:
  assumes "wf_machine m" and "\<And>t. tables m t = replicate ENTRY_COUNT 0" and "used_table m root"
  shows "wf_space m root [root \<mapsto> 4]"
proof -
  have "\<not> link m [root \<mapsto> 4] t i c" for t i c by (auto simp: link_def child_def assms(2))
  moreover have "1 \<le> l \<and> used_table m t" if "[root \<mapsto> 4] t = Some l" for t and l :: nat
    using that assms(3) by (cases "t = root") simp_all
  moreover have "[root \<mapsto> 4] root = Some (4 :: nat)" by simp
  ultimately show ?thesis using assms(1) unfolding wf_space_def by blast
qed

lemma example_machine_wf: "wf_space example_machine 0 [0 \<mapsto> 4]"
proof (rule empty_tables_wf)
  show "wf_machine example_machine" by (simp add: wf_machine_def ra_inv_def)
  show "used_table example_machine 0"
    unfolding used_table_def by (rule exI [of _ 0]) (simp add: free_frames_def frame_free_def bit_1_iff)
qed simp

lemma example_machine_child: "i < ENTRY_COUNT \<Longrightarrow> child example_machine t i = None"
  by (simp add: child_def)

lemma example_machine_frames: "512 \<le> card (free_frames (frames example_machine))"
proof -
  have "frame_free (frames example_machine) i" if "8 \<le> i" "i < 800" for i
  proof -
    have "i div 8 = Suc (i div 8 - 1)" "i div 8 - 1 < 99" using that by auto
    then have "(1 # replicate 99 0 :: u8 list) ! (i div 8) = 0" by (metis nth_Cons_Suc nth_replicate)
    then show ?thesis using that by (simp add: frame_free_def)
  qed
  then have "{8..<800} \<subseteq> free_frames (frames example_machine)"
    by (auto simp: free_frames_def)
  moreover have "finite (free_frames (frames example_machine))" by (rule finite_free_frames)
  ultimately have "card {8..<800::nat} \<le> card (free_frames (frames example_machine))"
    by (intro card_mono)
  then show ?thesis by simp
qed

lemma example_machine_root: "current_root_table example_machine = Inr 0"
  by (simp add: current_root_table_def frame_containing_address_eq add_w_def) (simp add: example_machine_def)

theorem map_to_correct_witness:
  "\<exists>m'. map_to 0 \<lparr>page_start = 0x1000\<rparr> \<lparr>start_address = 0x5000\<rparr> 3 example_machine = Inr (Inr (), m') \<and>
     pt_entry m' 0 \<lparr>page_start = 0x1000\<rparr> = Some 0x5003"
proof -
  have "flags_ok 3" by (simp add: flags_ok_def all_flags_val PRESENT_def)
  moreover have "addr_ok (start_address \<lparr>start_address = 0x5000\<rparr>)" by (simp add: addr_ok_def ADDR_MASK_def)
  moreover have "entry_new 3 0x5000 = 0x5003" by (simp add: entry_new_def)
  ultimately show ?thesis
    using map_to_correct [OF example_machine_wf, of 3 "\<lparr>start_address = 0x5000\<rparr>" "\<lparr>page_start = 0x1000\<rparr>"]
      example_machine_frames by auto
qed

text \<open>
  \<open>PageTable::is_mapped\<close> on a well-formed address space returns, without panicking,
  whether the four-level walk of the page ends in a present entry.
\<close>
lemma is_mapped_correct:
  assumes "wf_space m root L"
  shows "is_mapped m root page = Inr (pt_entry m root page \<noteq> None)"
  by (rule is_mapped_spec [OF assms])

lemma is_mapped_correct_example:
  "is_mapped example_machine 0 \<lparr>page_start = 0x1000\<rparr> = Inr False"
proof -
  have "pt_entry example_machine 0 \<lparr>page_start = 0x1000\<rparr> = None"
    by (simp add: pt_entry_def page_path_def translate_def p1_index_def p2_index_def p3_index_def p4_index_def
        example_machine_child ENTRY_COUNT_def)
  then show ?thesis
    using is_mapped_correct [OF example_machine_wf, of "\<lparr>page_start = 0x1000\<rparr>"] by simp
qed

lemma iter_page_next_step:
  assumes s: "unat s = a * 4096" and e: "unat e = b * 4096"
  shows "b < a \<Longrightarrow> iter_page_next (iter_pages \<lparr>page_start = s\<rparr> \<lparr>page_start = e\<rparr>) =
      Inr (None, iter_pages \<lparr>page_start = s\<rparr> \<lparr>page_start = e\<rparr>)"
    and "a \<le> b \<Longrightarrow> a < 2 ^ 52 - 1 \<Longrightarrow> iter_page_next (iter_pages \<lparr>page_start = s\<rparr> \<lparr>page_start = e\<rparr>) =
      Inr (Some \<lparr>page_start = s\<rparr>, iter_pages \<lparr>page_start = s + 4096\<rparr> \<lparr>page_start = e\<rparr>)"
    and "a \<le> b \<Longrightarrow> a = 2 ^ 52 - 1 \<Longrightarrow> iter_page_next (iter_pages \<lparr>page_start = s\<rparr> \<lparr>page_start = e\<rparr>) =
      Inr (Some \<lparr>page_start = s\<rparr>, iter_pages \<lparr>page_start = s\<rparr> \<lparr>page_start = e - 4096\<rparr>)"
proof -
  have mx: "unat max_page_addr = 2 ^ 64 - 4096" by (simp add: max_page_addr_def PAGE_SIZE_def)
  note run = iter_page_next_def iter_pages_def word_le_nat_alt word_less_nat_alt add_w_def sub_w_def
    s e mx PAGE_SIZE_def
  show "b < a \<Longrightarrow> iter_page_next (iter_pages \<lparr>page_start = s\<rparr> \<lparr>page_start = e\<rparr>) =
      Inr (None, iter_pages \<lparr>page_start = s\<rparr> \<lparr>page_start = e\<rparr>)"
    by (simp add: run)
  show "a \<le> b \<Longrightarrow> a < 2 ^ 52 - 1 \<Longrightarrow> iter_page_next (iter_pages \<lparr>page_start = s\<rparr> \<lparr>page_start = e\<rparr>) =
      Inr (Some \<lparr>page_start = s\<rparr>, iter_pages \<lparr>page_start = s + 4096\<rparr> \<lparr>page_start = e\<rparr>)"
    by (simp add: run)
  show "a \<le> b \<Longrightarrow> a = 2 ^ 52 - 1 \<Longrightarrow> iter_page_next (iter_pages \<lparr>page_start = s\<rparr> \<lparr>page_start = e\<rparr>) =
      Inr (Some \<lparr>page_start = s\<rparr>, iter_pages \<lparr>page_start = s\<rparr> \<lparr>page_start = e - 4096\<rparr>)"
    by (simp add: run)
qed

lemma pages_of_empty:
  "unat s = a * 4096 \<Longrightarrow> unat e = b * 4096 \<Longrightarrow> b < a \<Longrightarrow>
   pages_of (iter_pages \<lparr>page_start = s\<rparr> \<lparr>page_start = e\<rparr>) = Inr []"
  by (subst pages_of.simps) (simp add: iter_page_next_step)

lemma pages_of_spec:
  assumes e: "unat e = b * 4096"
  shows "unat s = a * 4096 \<Longrightarrow> pages_of (iter_pages \<lparr>page_start = s\<rparr> \<lparr>page_start = e\<rparr>) =
    Inr (map (\<lambda>k. \<lparr>page_start = of_nat (k * 4096)\<rparr>) [a..<Suc b])"
proof (induction "Suc b - a" arbitrary: a s)
  case 0
  then show ?case by (simp add: pages_of_empty [OF 0(2) e])
next
  case (Suc n)
  have ab: "a \<le> b" using Suc.hyps(2) by simp
  have b: "b \<le> 2 ^ 52 - 1" using unat_lt_2p64 [of e] e by simp
  have s: "s = of_nat (a * 4096)" by (simp flip: Suc.prems)
  show ?case
  proof (cases "a < 2 ^ 52 - 1")
    case True
    then have "unat (s + 4096) = Suc a * 4096"
      using Suc.prems by (subst unat_add_small) simp_all
    then have "pages_of (iter_pages \<lparr>page_start = s + 4096\<rparr> \<lparr>page_start = e\<rparr>) =
        Inr (map (\<lambda>k. \<lparr>page_start = of_nat (k * 4096)\<rparr>) [Suc a..<Suc b])"
      using Suc.hyps by (intro Suc.hyps(1)) simp_all
    moreover have "[a..<Suc b] = a # [Suc a..<Suc b]" using ab by (intro upt_conv_Cons) simp
    ultimately show ?thesis
      using iter_page_next_step(2) [OF Suc.prems e ab True] s
      by (subst pages_of.simps) (simp del: upt_Suc)
  next
    case False
    then have a: "a = 2 ^ 52 - 1" "b = a" using ab b by auto
    have "unat (e - 4096) = (b - 1) * 4096"
      using a e by (subst unat_sub_small) (simp_all add: word_le_nat_alt)
    then show ?thesis
      using iter_page_next_step(3) [OF Suc.prems e ab a(1)] pages_of_empty [OF Suc.prems, of "e - 4096" "b - 1"] a s
      by (subst pages_of.simps) simp
  qed
qed

text \<open>
  Iterating over the pages between two page-aligned addresses visits every page from
  the first to the last, both included, once and in increasing order, and never
  overflows, not even when the range ends at the top of the address space.
\<close>
lemma iter_pages_correct:
  assumes "unat s = a * 4096" and "unat e = b * 4096"
  shows "pages_of (iter_pages \<lparr>page_start = s\<rparr> \<lparr>page_start = e\<rparr>) =
    Inr (map (\<lambda>k. \<lparr>page_start = of_nat (k * 4096)\<rparr>) [a..<Suc b])"
  by (rule pages_of_spec [OF assms(2,1)])

lemma iter_pages_correct_example:
  "pages_of (iter_pages \<lparr>page_start = 0xFFFFFFFFFFFFE000\<rparr> \<lparr>page_start = 0xFFFFFFFFFFFFF000\<rparr>) =
    Inr [\<lparr>page_start = 0xFFFFFFFFFFFFE000\<rparr>, \<lparr>page_start = 0xFFFFFFFFFFFFF000\<rparr>]"
  using iter_pages_correct [of "0xFFFFFFFFFFFFE000" "2 ^ 52 - 2" "0xFFFFFFFFFFFFF000" "2 ^ 52 - 1"]
  by (simp add: upt_conv_Cons)

section \<open>Creating and freeing a root table\<close>

lemma free_entries_zero: "\<forall>e \<in> set es. e = 0 \<Longrightarrow> free_entries l es m = Inr m"
  by (induction es) (cases l; simp)+

lemma free_entries_leaf:
  "free_entries 0 es m = (if \<exists>e \<in> set es. e \<noteq> 0 then Inl ArithmeticOverflow else Inr m)"
  by (induction es) auto

lemma frame_of_table:
  assumes "unat a = n * 4096" and "unat a + unat p < 2 ^ 64"
  shows "sub_w (a + p) p = Inr a" and "frame_containing_address a = Inr \<lparr>start_address = a\<rparr>"
proof -
  have "unat (a + p) = unat a + unat p" using assms(2) by (simp add: unat_add_small)
  then show "sub_w (a + p) p = Inr a" by (simp add: sub_w_def word_le_nat_alt)
  show "frame_containing_address a = Inr \<lparr>start_address = a\<rparr>"
    using assms(1) by (simp add: frame_containing_address_eq word_unat_eq_iff unat_page_floor)
qed

lemma pt_free_empty:
  assumes "unat a = n * 4096" and "unat a + unat (phy_offset m) < 2 ^ 64"
    and "\<forall>i < HIGHER_HALF_ENTRY. tables m (a + phy_offset m) ! i = 0"
    and "HIGHER_HALF_ENTRY \<le> length (tables m (a + phy_offset m))"
  shows "pt_free level (a + phy_offset m) m = dealloc_in \<lparr>start_address = a\<rparr> m"
proof -
  have "\<forall>e \<in> set (take HIGHER_HALF_ENTRY (tables m (a + phy_offset m))). e = 0"
    using assms(3,4) by (auto simp: in_set_conv_nth)
  then show ?thesis
    by (simp add: pt_free.simps free_entries_zero frame_of_table [OF assms(1,2)])
qed

lemma copy_higher_half_eq:
  assumes "current_root_table m = Inr root" and "\<And>a. length (tables m a) = ENTRY_COUNT"
  shows "copy_higher_half t m =
    Inr (write_table t (take 256 (tables m t) @ drop 256 (tables m root)) m)"
  using assms by (simp add: copy_higher_half_def slice_def copy_into_def HIGHER_HALF_ENTRY_def ENTRY_COUNT_def)

lemma allocate_pml4_spec:
  assumes wfm: "wf_machine m" and root: "current_root_table m = Inr root" "used_table m root"
  shows "free_frames (frames m) = {} \<and> allocate_pml4 m = Inr (Inl FrameAllocationFailed, m) \<or>
    (\<exists>p m' m''. allocate_pml4 m = Inr (Inr p, m') \<and>
       unat p + unat (phy_offset m) < 2 ^ 64 \<and> phy_offset m' = phy_offset m \<and>
       (\<forall>i < 256. tables m' (p + phy_offset m) ! i = 0) \<and>
       (\<forall>i < 512. 256 \<le> i \<longrightarrow> tables m' (p + phy_offset m) ! i = tables m root ! i) \<and>
       (\<forall>a. used_table m a \<longrightarrow> tables m' a = tables m a) \<and>
       pt_free 4 (p + phy_offset m) m' = Inr m'' \<and> frames m'' = frames m)"
proof -
  note wfm' = wfm [unfolded wf_machine_def ENTRY_COUNT_def]
  from wfm' have inv: "ra_inv (frames m)" and len: "\<And>a. length (tables m a) = 512" by blast+
  from inv show ?thesis
  proof (cases rule: allocate_frame_cases)
    case none
    then show ?thesis by (simp add: allocate_pml4_def)
  next
    case (some f ra')
    note fr = fresh_frame [OF wfm some(2,4)]
    let ?v = "start_address f + phy_offset m"
    define m1 where "m1 = write_table ?v (zeroize (tables m ?v)) (m\<lparr>frames := ra'\<rparr>)"
    define m2 where "m2 = write_table ?v (take 256 (tables m1 ?v) @ drop 256 (tables m1 root)) m1"
    have "current_root_table m1 = Inr root" "\<And>a. length (tables m1 a) = ENTRY_COUNT"
      using root(1) len by (simp_all add: m1_def write_table_def current_root_table_def zeroize_def ENTRY_COUNT_def)
    then have run: "allocate_pml4 m = Inr (Inr (start_address f), m2)"
      using some(1) fr(1) by (simp add: allocate_pml4_def add_w_def copy_higher_half_eq flip: m1_def m2_def)
    have diff: "a \<noteq> ?v" if "used_table m a" for a using that fr(4) by auto
    have t: "tables m2 ?v = replicate 256 0 @ drop 256 (tables m root)"
      "\<And>a. a \<noteq> ?v \<Longrightarrow> tables m2 a = tables m a"
      "phy_offset m2 = phy_offset m" "frames m2 = ra'"
      using diff [OF root(2)] len
      by (simp_all add: m2_def m1_def write_table_def zeroize_def map_replicate_const)
    have low: "\<forall>i < 256. tables m2 ?v ! i = 0" by (simp add: t nth_append)
    have "pt_free 4 ?v m2 = dealloc_in \<lparr>start_address = start_address f\<rparr> m2"
      using pt_free_empty [of "start_address f" "frame_no f" m2 4] some(4) fr(1) t low len
      by (simp add: HIGHER_HALF_ENTRY_def)
    moreover have "deallocate_frame ra' \<lparr>start_address = start_address f\<rparr> = Inr (frames m)"
      using allocate_then_deallocate [OF inv some(1)] by (cases f) simp
    ultimately have "pt_free 4 ?v m2 = Inr (m2\<lparr>frames := frames m\<rparr>)" by (simp add: dealloc_in_def t)
    moreover have "\<forall>i < 512. 256 \<le> i \<longrightarrow> tables m2 ?v ! i = tables m root ! i"
      using len by (simp add: t nth_append)
    ultimately show ?thesis using run low t diff fr(1) by auto
  qed
qed

text \<open>
  C33: \<open>allocate_pml4\<close> fails only when no frame is free, and then changes nothing.
  Otherwise the new table has an empty lower half and the higher half of the table in
  \<open>cr3\<close>, the memory of every frame in use is untouched, and freeing the new table with
  \<open>PageTable::free\<close> at level 4 gives the frame allocator back exactly as it was.
\<close>
theorem allocate_pml4_correct:
  assumes wfm: "wf_machine m" and root: "current_root_table m = Inr root" "used_table m root"
  shows "free_frames (frames m) = {} \<and> allocate_pml4 m = Inr (Inl FrameAllocationFailed, m) \<or>
    (\<exists>p m' m''. allocate_pml4 m = Inr (Inr p, m') \<and>
       unat p + unat (phy_offset m) < 2 ^ 64 \<and> phy_offset m' = phy_offset m \<and>
       (\<forall>i < 256. tables m' (p + phy_offset m) ! i = 0) \<and>
       (\<forall>i < 512. 256 \<le> i \<longrightarrow> tables m' (p + phy_offset m) ! i = tables m root ! i) \<and>
       (\<forall>a. used_table m a \<longrightarrow> tables m' a = tables m a) \<and>
       pt_free 4 (p + phy_offset m) m' = Inr m'' \<and> frames m'' = frames m)"
  by (rule allocate_pml4_spec [OF assms])

theorem allocate_pml4_correct_witness:
  "\<exists>p m' m''. allocate_pml4 example_machine = Inr (Inr p, m') \<and>
     pt_free 4 p m' = Inr m'' \<and> frames m'' = frames example_machine"
proof -
  have "wf_machine example_machine" "used_table example_machine 0"
    using wf_spaceD(1) [OF example_machine_wf] wf_spaceD(4) [OF example_machine_wf] by simp_all
  moreover have "free_frames (frames example_machine) \<noteq> {}" using example_machine_frames by auto
  ultimately show ?thesis
    using allocate_pml4_correct [of example_machine 0] example_machine_root unfolding example_machine_sel(2) add_0_right by blast
qed

text \<open>
  \<open>Entry::free\<close> at level 0 never gives the mapped frame back. It deallocates the
  frame and then runs \<open>PageTable::free\<close> on the contents of the page, which either hits
  \<open>level - 1\<close> with level 0 and panics (a non-zero word in the lower half of the page) or
  deallocates the same frame again, which marks it used.
\<close>
lemma entry_free_leaf_leaks:
  assumes "entry_is_mapped e" and "unat (entry_addr e) + unat (phy_offset m) < 2 ^ 64"
    and "unat (entry_addr e) div 4096 < 8 * length (bitmap (frames m))"
  shows "entry_free 0 e m =
    (if \<exists>w \<in> set (take 256 (tables m (entry_addr e + phy_offset m))). w \<noteq> 0
     then Inl ArithmeticOverflow else Inr m)"
proof -
  let ?f = "\<lparr>start_address = entry_addr e\<rparr>"
  obtain n where n: "unat (entry_addr e) = n * 4096"
    using addr_ok_page [OF addr_ok_entry_addr, of e] unat_page_floor [of "entry_addr e"] by metis
  obtain ra where d: "deallocate_frame (frames m) ?f = Inr ra" "deallocate_frame ra ?f = Inr (frames m)"
    using deallocate_twice [of ?f "frames m"] assms(3) by (auto simp: frame_no_def)
  show ?thesis
    using assms d by (simp add: entry_free.simps pt_free.simps entry_frame_mapped dealloc_in_def add_w_def
        free_entries_leaf HIGHER_HALF_ENTRY_def frame_of_table [OF n])
qed

lemma entry_free_leaf_leaks_example:
  "entry_free 0 0x5003 example_machine = Inr example_machine"
proof -
  have "entry_is_mapped 0x5003" by (simp add: entry_is_mapped_def entry_flags_def all_flags_val PRESENT_def)
  moreover have "entry_addr 0x5003 = 0x5000" by (simp add: entry_addr_def ADDR_MASK_def)
  ultimately show ?thesis
    using entry_free_leaf_leaks [of "0x5003" example_machine] by (simp add: ENTRY_COUNT_def)
qed

end
