(* ===== verification/Heap_Allocator.thy ===== *)
theory Heap_Allocator
  imports Address_Space
begin

text \<open>
  \<open>kernel/src/memory/allocator.rs\<close> and the heap part of \<open>kernel/src/memory/mod.rs\<close>: the
  linked-list allocator behind the global allocator of the kernel.

  A \<open>Node\<close> lives at the first bytes of the free block it describes and owns the next
  one (\<open>Option<&'static mut Node>\<close> is a unique reference), so the chain that hangs off
  \<open>head\<close> is the list \<open>free_list\<close> of start address and size, first node first.
  \<open>find_free_node\<close> calls itself after \<open>extend_heap\<close>, so it is a partial function; a call
  that never returns would be \<open>None\<close>.
\<close>

section \<open>Nodes\<close>

record node =
  start_addr :: usize
  n_size :: usize

record linked_list_allocator =
  free_list :: "node list"
  heap_end :: usize

definition SIZE_OF_NODE :: usize where "SIZE_OF_NODE = 16"
definition ALIGN_OF_NODE :: usize where "ALIGN_OF_NODE = 8"

definition end_addr :: "node \<Rightarrow> usize rust" where
  "end_addr n = add_w (start_addr n) (n_size n)"

definition can_hold :: "node \<Rightarrow> usize \<Rightarrow> usize \<Rightarrow> (unit + usize) rust" where
  "can_hold n sz align_amount =
     rbind (align_up (start_addr n) align_amount) (\<lambda>start.
     case checked_add start sz of
       None \<Rightarrow> Inr (Inl ())
     | Some end \<Rightarrow>
         rbind (end_addr n) (\<lambda>e.
         if end > e then Inr (Inl ())
         else rbind (sub_w e end) (\<lambda>ecess_size.
           if ecess_size > 0 \<and> ecess_size < SIZE_OF_NODE then Inr (Inl ())
           else Inr (Inr start))))"

definition linked_list_allocator_new :: linked_list_allocator where
  "linked_list_allocator_new = \<lparr>free_list = [], heap_end = 0\<rparr>"

definition add_free_node :: "usize \<Rightarrow> usize \<Rightarrow> linked_list_allocator \<Rightarrow> linked_list_allocator rust" where
  "add_free_node addr sz h =
     rbind (align_up addr ALIGN_OF_NODE) (\<lambda>a.
     rbind (rassert (a = addr)) (\<lambda>_.
     rbind (rassert (sz \<ge> SIZE_OF_NODE)) (\<lambda>_.
     Inr (h\<lparr>free_list := \<lparr>start_addr = addr, n_size = sz\<rparr> # free_list h\<rparr>))))"

definition allocator_init :: "usize \<Rightarrow> usize \<Rightarrow> linked_list_allocator \<Rightarrow> linked_list_allocator rust" where
  "allocator_init possible_start sz h =
     rbind (align_up possible_start SIZE_OF_NODE) (\<lambda>heap_start.
     rbind (sub_w heap_start possible_start) (\<lambda>d.
     rbind (sub_w sz d) (\<lambda>sz'.
     rbind (add_w heap_start sz') (\<lambda>e.
     add_free_node heap_start sz' (h\<lparr>heap_end := e\<rparr>)))))"

section \<open>Layouts\<close>

text \<open>\<open>core::alloc::Layout\<close>: \<open>align_to\<close> and \<open>pad_to_align\<close>.\<close>

record layout =
  l_size :: usize
  l_align :: usize

definition is_power_of_two :: "usize \<Rightarrow> bool" where
  "is_power_of_two a \<longleftrightarrow> a \<noteq> 0 \<and> a AND (a - 1) = 0"

definition layout_align_to :: "usize \<Rightarrow> layout \<Rightarrow> layout option" where
  "layout_align_to align l =
     (let a = max (l_align l) align in
      if is_power_of_two a \<and> l_size l \<le> 0x8000000000000000 - a
      then Some \<lparr>l_size = l_size l, l_align = a\<rparr> else None)"

definition pad_to_align :: "layout \<Rightarrow> layout" where
  "pad_to_align l = l\<lparr>l_size := (l_size l + l_align l - 1) AND NOT (l_align l - 1)\<rparr>"

definition size_align :: "layout \<Rightarrow> (usize \<times> usize) rust" where
  "size_align layout =
     rbind (unwrap (layout_align_to ALIGN_OF_NODE layout)) (\<lambda>l.
     let l' = pad_to_align l in
     Inr (max (l_size l') SIZE_OF_NODE, l_align l'))"

section \<open>Growing the heap\<close>

definition PAGES_PER_EXTEND :: usize where "PAGES_PER_EXTEND = 128"

text \<open>The body of the mapping loops: a fresh frame for the page, in the current root table.\<close>

definition map_fresh_writeable :: "page \<Rightarrow> machine \<Rightarrow> ((map_to_error + unit) \<times> machine) rust" where
  "map_fresh_writeable page m =
     rbind (allocate_frame (frames m)) (\<lambda>(fo, ra). case fo of
       None \<Rightarrow> Inr (Inl FrameAllocationFailed, m\<lparr>frames := ra\<rparr>)
     | Some f \<Rightarrow>
         rbind (current_root_table m) (\<lambda>root.
         map_to root page f (PRESENT OR WRITABLE) (m\<lparr>frames := ra\<rparr>)))"

definition extend_page :: "page \<Rightarrow> machine \<Rightarrow> ((unit + unit) \<times> machine) rust" where
  "extend_page page m =
     rbind (map_fresh_writeable page m) (\<lambda>(r, m'). Inr (map_sum (\<lambda>_. ()) id r, m'))"

text \<open>The loop of \<open>extend_heap\<close> that combines the first node with the ones behind it.\<close>

fun merge_extended :: "node list \<Rightarrow> node list rust" where
  "merge_extended [] = Inl UnwrapFailed"
| "merge_extended [n] = Inr [n]"
| "merge_extended (n # k # ns) =
     (if n_size k mod (PAGE_SIZE * PAGES_PER_EXTEND) = 0 then
        rbind (add_w (n_size n) (n_size k)) (\<lambda>s. merge_extended (n\<lparr>n_size := s\<rparr> # ns))
      else Inr (n # k # ns))"

definition extend_heap :: "linked_list_allocator \<Rightarrow> machine \<Rightarrow>
    ((unit + unit) \<times> linked_list_allocator \<times> machine) rust" where
  "extend_heap h m =
     rbind (add_w (heap_end h) PAGE_SIZE) (\<lambda>s.
     rbind (page_containing_address s) (\<lambda>start_page.
     rbind (add_w (heap_end h) (PAGE_SIZE * PAGES_PER_EXTEND)) (\<lambda>e.
     rbind (page_containing_address e) (\<lambda>end_page.
     rbind (for_pages extend_page (iter_pages start_page end_page) m) (\<lambda>(r, m'). case r of
       Inl _ \<Rightarrow> Inr (Inl (), h, m')
     | Inr _ \<Rightarrow>
         rbind (add_free_node (page_start start_page) (PAGE_SIZE * PAGES_PER_EXTEND) h) (\<lambda>h1.
         rbind (merge_extended (free_list h1)) (\<lambda>ns.
         rbind (add_w (page_start end_page) PAGE_SIZE) (\<lambda>e'.
         Inr (Inr (), \<lparr>free_list = ns, heap_end = e'\<rparr>, m')))))))))"

section \<open>Allocation\<close>

text \<open>The loop of \<open>find_free_node\<close>: the first node that can hold the block leaves the list.\<close>

fun find_fit :: "usize \<Rightarrow> usize \<Rightarrow> node list \<Rightarrow> (node \<times> usize \<times> node list) option rust" where
  "find_fit sz align [] = Inr None"
| "find_fit sz align (n # ns) =
     rbind (can_hold n sz align) (\<lambda>r. case r of
       Inr addr \<Rightarrow> Inr (Some (n, addr, ns))
     | Inl _ \<Rightarrow> rbind (find_fit sz align ns) (\<lambda>r'. Inr (case r' of
         None \<Rightarrow> None
       | Some (k, addr, rest) \<Rightarrow> Some (k, addr, n # rest))))"

partial_function (option) find_free_node :: "usize \<Rightarrow> usize \<Rightarrow> linked_list_allocator \<Rightarrow> machine \<Rightarrow>
    ((node \<times> usize) option \<times> linked_list_allocator \<times> machine) rust option" where
  "find_free_node sz align h m =
     (case find_fit sz align (free_list h) of
        Inl p \<Rightarrow> Some (Inl p)
      | Inr (Some (node, addr, rest)) \<Rightarrow> Some (Inr (Some (node, addr), h\<lparr>free_list := rest\<rparr>, m))
      | Inr None \<Rightarrow>
          (case extend_heap h m of
             Inl p \<Rightarrow> Some (Inl p)
           | Inr (Inl _, h', m') \<Rightarrow> Some (Inr (None, h', m'))
           | Inr (Inr _, h', m') \<Rightarrow> find_free_node sz align h' m'))"

definition carve :: "node \<Rightarrow> usize \<Rightarrow> usize \<Rightarrow> linked_list_allocator \<Rightarrow> linked_list_allocator rust" where
  "carve node addr sz h =
     rbind (unwrap (checked_add addr sz)) (\<lambda>alloc_end.
     rbind (end_addr node) (\<lambda>e.
     rbind (sub_w e alloc_end) (\<lambda>excess_size.
     if excess_size > 0 then add_free_node alloc_end excess_size h else Inr h)))"

definition alloc_mut :: "layout \<Rightarrow> linked_list_allocator \<Rightarrow> machine \<Rightarrow>
    (usize \<times> linked_list_allocator \<times> machine) rust option" where
  "alloc_mut layout h m =
     (case size_align layout of
        Inl p \<Rightarrow> Some (Inl p)
      | Inr (sz, align) \<Rightarrow>
          (case find_free_node sz align h m of
             None \<Rightarrow> None
           | Some r \<Rightarrow> Some (rbind r (\<lambda>(found, h', m'). case found of
                 None \<Rightarrow> Inr (0, h', m')
               | Some (node, addr) \<Rightarrow> rbind (carve node addr sz h') (\<lambda>h''. Inr (addr, h'', m'))))))"

definition dealloc_mut :: "usize \<Rightarrow> layout \<Rightarrow> linked_list_allocator \<Rightarrow> linked_list_allocator rust" where
  "dealloc_mut ptr layout h =
     rbind (size_align layout) (\<lambda>(sz, _). add_free_node ptr sz h)"

section \<open>Setting the heap up\<close>

definition identity_map_present :: "phys_addr \<Rightarrow> machine \<Rightarrow> machine rust" where
  "identity_map_present addr m =
     rbind (current_root_table m) (\<lambda>root.
     rbind (page_containing_address addr) (\<lambda>page.
     rbind (frame_containing_address addr) (\<lambda>frame.
     rbind (map_to root page frame PRESENT m) (\<lambda>(r, m').
     case r of Inl _ \<Rightarrow> Inl UnwrapFailed | Inr _ \<Rightarrow> Inr m'))))"

definition identity_map_writeable :: "phys_addr \<Rightarrow> machine \<Rightarrow> machine rust" where
  "identity_map_writeable addr m =
     rbind (current_root_table m) (\<lambda>root.
     rbind (page_containing_address addr) (\<lambda>page.
     rbind (frame_containing_address addr) (\<lambda>frame.
     rbind (map_to root page frame (PRESENT OR WRITABLE) m) (\<lambda>(r, m').
     case r of Inl _ \<Rightarrow> Inl UnwrapFailed | Inr _ \<Rightarrow> Inr m'))))"

definition INIT_HEAP_SIZE :: usize where "INIT_HEAP_SIZE = 4 * 9 * 1024 * 1024"

definition init_heap :: "usize \<Rightarrow> linked_list_allocator \<Rightarrow> machine \<Rightarrow>
    ((map_to_error + unit) \<times> linked_list_allocator \<times> machine) rust" where
  "init_heap heap_start h m =
     rbind (add_w heap_start INIT_HEAP_SIZE) (\<lambda>heap_end.
     rbind (page_containing_address heap_start) (\<lambda>heap_start_page.
     rbind (page_containing_address heap_end) (\<lambda>heap_end_page.
     rbind (for_pages map_fresh_writeable (iter_pages heap_start_page heap_end_page) m) (\<lambda>(r, m').
     case r of
       Inl e \<Rightarrow> Inr (Inl e, h, m')
     | Inr _ \<Rightarrow>
         rbind (allocator_init heap_start INIT_HEAP_SIZE h) (\<lambda>h'. Inr (Inr (), h', m'))))))"

definition memory_init :: "usize \<Rightarrow> linked_list_allocator \<Rightarrow> machine \<Rightarrow>
    (linked_list_allocator \<times> machine) rust" where
  "memory_init heap_start h m =
     rbind (init_heap heap_start h m) (\<lambda>(r, h', m').
     case r of Inl _ \<Rightarrow> Inl UnwrapFailed | Inr _ \<Rightarrow> Inr (h', m'))"

end
