(* ===== verification/Heap_Safety.thy ===== *)
theory Heap_Safety
  imports Heap_Allocator "HOL-Library.Disjoint_Sets"
begin

text \<open>
  Memory safety of the linked-list allocator: the bytes of the free nodes, the
  contract a block allocator promises its clients (a locale), and the proof that the
  code of \<open>Heap_Allocator\<close> keeps it.
\<close>

section \<open>The bytes of the free list\<close>

definition block :: "usize \<Rightarrow> usize \<Rightarrow> nat set" where
  "block a sz = {unat a ..< unat a + unat sz}"

definition node_bytes :: "node \<Rightarrow> nat set" where
  "node_bytes n = block (start_addr n) (n_size n)"

definition free_bytes :: "linked_list_allocator \<Rightarrow> nat set" where
  "free_bytes h = (\<Union>n \<in> set (free_list h). node_bytes n)"

definition node_ok :: "node \<Rightarrow> bool" where
  "node_ok n \<longleftrightarrow> 8 dvd unat (start_addr n) \<and> 16 \<le> unat (n_size n) \<and>
     unat (start_addr n) + unat (n_size n) < 2 ^ 64"

definition nodes_ok :: "node list \<Rightarrow> bool" where
  "nodes_ok ns \<longleftrightarrow> (\<forall>n \<in> set ns. node_ok n) \<and>
     sorted_wrt (\<lambda>n k. node_bytes n \<inter> node_bytes k = {}) ns"

definition heap_inv :: "linked_list_allocator \<Rightarrow> bool" where
  "heap_inv h \<longleftrightarrow> nodes_ok (free_list h) \<and> free_bytes h \<subseteq> {..<unat (heap_end h)}"

lemma can_hold_spec:
  assumes n: "node_ok n" and k: "k < 64" and fits: "unat (start_addr n) + 2 ^ k < 2 ^ 64"
  obtains (no) "can_hold n sz (2 ^ k) = Inr (Inl ())"
  | (yes) a where "can_hold n sz (2 ^ k) = Inr (Inr a)" and "2 ^ k dvd unat a"
      and "unat (start_addr n) \<le> unat a"
      and "unat a + unat sz \<le> unat (start_addr n) + unat (n_size n)"
      and "unat a + unat sz = unat (start_addr n) + unat (n_size n) \<or>
        unat a + unat sz + 16 \<le> unat (start_addr n) + unat (n_size n)"
proof -
  obtain a where a: "align_up (start_addr n) (2 ^ k) = Inr a"
    using align_up_pow2 [OF k] fits by auto
  note b = align_up_bounds [OF k a]
  have e: "end_addr n = Inr (start_addr n + n_size n)"
    "unat (start_addr n + n_size n) = unat (start_addr n) + unat (n_size n)"
    using n by (simp_all add: end_addr_def add_w_def node_ok_def unat_add_small)
  show thesis
  proof (cases "unat a + unat sz \<le> unat (start_addr n) + unat (n_size n)")
    case True
    then have nw: "unat a + unat sz < 2 ^ 64" using n by (simp add: node_ok_def)
    then have u: "unat (a + sz) = unat a + unat sz" by (simp add: unat_add_small)
    then have le: "a + sz \<le> start_addr n + n_size n" using True e by (simp add: word_le_nat_alt)
    have d: "unat (start_addr n + n_size n - (a + sz)) = unat (start_addr n) + unat (n_size n) - (unat a + unat sz)"
      using unat_sub_small [OF le] u e by simp
    show thesis
    proof (cases "unat a + unat sz = unat (start_addr n) + unat (n_size n) \<or>
        unat a + unat sz + 16 \<le> unat (start_addr n) + unat (n_size n)")
      case ok: True
      then have "can_hold n sz (2 ^ k) = Inr (Inr a)"
        using nw u le d e True
        by (auto simp: can_hold_def a checked_add_def sub_w_def SIZE_OF_NODE_def word_less_nat_alt word_le_nat_alt)
      then show thesis using b True ok by (intro yes) auto
    next
      case False
      then have "can_hold n sz (2 ^ k) = Inr (Inl ())"
        using nw u le d e True
        by (auto simp: can_hold_def a checked_add_def sub_w_def SIZE_OF_NODE_def word_less_nat_alt word_le_nat_alt)
      then show thesis by (rule no)
    qed
  next
    case False
    have "can_hold n sz (2 ^ k) = Inr (Inl ())"
      using False e unat_add_small [of a sz]
      by (auto simp: can_hold_def a checked_add_def word_less_nat_alt)
    then show thesis by (rule no)
  qed
qed

text \<open>A block placed at \<open>a\<close> inside node \<open>n\<close>, with nothing or a whole node left behind it.\<close>

definition placed :: "node \<Rightarrow> usize \<Rightarrow> usize \<Rightarrow> nat \<Rightarrow> bool" where
  "placed n a sz k \<longleftrightarrow> 2 ^ k dvd unat a \<and> unat (start_addr n) \<le> unat a \<and>
     (unat a + unat sz = unat (start_addr n) + unat (n_size n) \<or>
      unat a + unat sz + 16 \<le> unat (start_addr n) + unat (n_size n))"

lemma find_fit_spec:
  assumes "\<forall>n \<in> set ns. node_ok n \<and> unat (start_addr n) + 2 ^ k < 2 ^ 64" and k: "k < 64"
  obtains (none) "find_fit sz (2 ^ k) ns = Inr None"
      and "\<forall>n \<in> set ns. can_hold n sz (2 ^ k) = Inr (Inl ())"
  | (some) ns1 n ns2 a where "ns = ns1 @ n # ns2" and "find_fit sz (2 ^ k) ns = Inr (Some (n, a, ns1 @ ns2))"
      and "placed n a sz k" and "\<forall>j \<in> set ns1. can_hold j sz (2 ^ k) = Inr (Inl ())"
  using assms(1)
proof (induction ns arbitrary: thesis)
  case Nil
  then show ?case by simp
next
  case (Cons n ns)
  from Cons.prems have n: "node_ok n" "unat (start_addr n) + 2 ^ k < 2 ^ 64" by auto
  from n(1) k n(2) show ?case
  proof (cases rule: can_hold_spec [where sz = sz])
    case no
    show ?thesis
    proof (rule Cons.IH)
      assume "find_fit sz (2 ^ k) ns = Inr None" "\<forall>n \<in> set ns. can_hold n sz (2 ^ k) = Inr (Inl ())"
      then show ?thesis using no by (intro Cons.prems(1)) auto
    next
      fix ns1 j ns2 a
      assume "ns = ns1 @ j # ns2" "find_fit sz (2 ^ k) ns = Inr (Some (j, a, ns1 @ ns2))"
        "placed j a sz k" "\<forall>j \<in> set ns1. can_hold j sz (2 ^ k) = Inr (Inl ())"
      then show ?thesis using no by (intro Cons.prems(2) [of "n # ns1" j ns2 a]) auto
    next
      show "\<forall>n \<in> set ns. node_ok n \<and> unat (start_addr n) + 2 ^ k < 2 ^ 64" using Cons.prems by auto
    qed
  next
    case (yes a)
    then show ?thesis by (intro Cons.prems(2) [of "[]" n ns a]) (auto simp: placed_def)
  qed
qed

lemma add_free_node_spec:
  assumes "8 dvd unat addr" and "16 \<le> unat sz" and "unat addr + unat sz < 2 ^ 64"
  shows "add_free_node addr sz h =
    Inr (h\<lparr>free_list := \<lparr>start_addr = addr, n_size = sz\<rparr> # free_list h\<rparr>)"
proof -
  have "align_up addr (2 ^ 3) = Inr addr" using assms by (intro align_up_idem) auto
  then show ?thesis
    using assms(2) by (simp add: add_free_node_def ALIGN_OF_NODE_def SIZE_OF_NODE_def word_le_nat_alt)
qed

lemma carve_spec:
  assumes n: "node_ok n" and p: "placed n a sz k" and dvd: "8 dvd unat a" "8 dvd unat sz"
  obtains (exact) "carve n a sz h = Inr h" and "unat a + unat sz = unat (start_addr n) + unat (n_size n)"
  | (rest) r where "carve n a sz h = Inr (h\<lparr>free_list := r # free_list h\<rparr>)" and "node_ok r"
      and "unat (start_addr r) = unat a + unat sz"
      and "unat (n_size r) = unat (start_addr n) + unat (n_size n) - (unat a + unat sz)"
      and "unat a + unat sz < unat (start_addr n) + unat (n_size n)"
proof -
  let ?e = "start_addr n + n_size n"
  have e: "end_addr n = Inr ?e" "unat ?e = unat (start_addr n) + unat (n_size n)"
    and e64: "unat (start_addr n) + unat (n_size n) < 2 ^ 64"
    using n by (simp_all add: end_addr_def add_w_def node_ok_def unat_add_small)
  have nw: "unat a + unat sz < 2 ^ 64" using p e64 by (auto simp: placed_def)
  then have u: "unat (a + sz) = unat a + unat sz" by (simp add: unat_add_small)
  have le: "a + sz \<le> ?e" using p e u by (auto simp: placed_def word_le_nat_alt)
  have d: "unat (?e - (a + sz)) = unat (start_addr n) + unat (n_size n) - (unat a + unat sz)"
    using unat_sub_small [OF le] u e by simp
  have run: "carve n a sz h = (if ?e - (a + sz) > 0 then add_free_node (a + sz) (?e - (a + sz)) h else Inr h)"
    using nw le by (simp add: carve_def checked_add_def e sub_w_def)
  show thesis
  proof (cases "unat a + unat sz = unat (start_addr n) + unat (n_size n)")
    case True
    then have "carve n a sz h = Inr h" using run d by (simp add: word_less_nat_alt)
    then show thesis using True by (rule exact)
  next
    case False
    then have big: "unat a + unat sz + 16 \<le> unat (start_addr n) + unat (n_size n)"
      using p by (simp add: placed_def)
    let ?r = "\<lparr>start_addr = a + sz, n_size = ?e - (a + sz)\<rparr>"
    have r: "node_ok ?r" using big d u e64 dvd by (simp add: node_ok_def)
    then have "carve n a sz h = Inr (h\<lparr>free_list := ?r # free_list h\<rparr>)"
      using run big d by (simp add: word_less_nat_alt add_free_node_spec node_ok_def)
    then show thesis using r d u big by (intro rest [of ?r]) auto
  qed
qed

lemma can_hold_placed:
  assumes "node_ok n" and "k < 64" and "can_hold n sz (2 ^ k) = Inr (Inr a)"
  shows "placed n a sz k"
proof -
  obtain u where "align_up (start_addr n) (2 ^ k) = Inr u"
    using assms(3) by (auto simp: can_hold_def rust_simps)
  then have "unat (start_addr n) + 2 ^ k < 2 ^ 64" by (rule align_up_bounds(4) [OF assms(2)])
  with assms(1,2) show ?thesis
    by (cases rule: can_hold_spec [where sz = sz]) (use assms(3) in \<open>auto simp: placed_def\<close>)
qed

lemma find_fit_placed:
  assumes "find_fit sz (2 ^ k) ns = Inr (Some (n, a, rest))" and "\<forall>n \<in> set ns. node_ok n" and "k < 64"
  shows "\<exists>ns1 ns2. ns = ns1 @ n # ns2 \<and> rest = ns1 @ ns2 \<and> placed n a sz k"
  using assms(1,2)
proof (induction ns arbitrary: rest)
  case (Cons j ns)
  obtain r where r: "can_hold j sz (2 ^ k) = Inr r" using Cons.prems(1) by (auto simp: rust_simps)
  show ?case
  proof (cases r)
    case (Inl u)
    then obtain rest' where "find_fit sz (2 ^ k) ns = Inr (Some (n, a, rest'))" and rest: "rest = j # rest'"
      using Cons.prems(1) r by (auto simp: rust_simps split: option.splits)
    then obtain ns1 ns2 where "ns = ns1 @ n # ns2" "rest' = ns1 @ ns2" "placed n a sz k"
      using Cons.IH [of rest'] Cons.prems(2) by auto
    then show ?thesis using rest by (intro exI [of _ "j # ns1"] exI [of _ ns2]) simp
  next
    case (Inr b)
    then have "n = j" "a = b" "rest = ns" using Cons.prems(1) r by auto
    moreover have "placed j b sz k" using can_hold_placed [OF _ assms(3)] Cons.prems(2) r Inr by simp
    ultimately show ?thesis by (intro exI [of _ "[]"] exI [of _ ns]) simp
  qed
qed simp

lemma find_fit_can_hold:
  "find_fit sz al ns = Inr (Some (n, a, rest)) \<Longrightarrow> can_hold n sz al = Inr (Inr a)"
proof (induction ns arbitrary: rest)
  case (Cons j ns)
  obtain r where "can_hold j sz al = Inr r" using Cons.prems by (auto simp: rust_simps)
  then show ?case using Cons
    by (cases r) (auto simp: rust_simps split: option.splits)
qed simp

section \<open>Layouts\<close>

text \<open>The invariant of \<open>core::alloc::Layout\<close>: a power-of-two alignment, and a size that stays
  representable when rounded up to it.\<close>

definition layout_ok :: "layout \<Rightarrow> bool" where
  "layout_ok l \<longleftrightarrow> (\<exists>k. k < 63 \<and> l_align l = 2 ^ k \<and> unat (l_size l) + 2 ^ k \<le> 2 ^ 63)"

lemma is_power_of_two_pow: "k < 64 \<Longrightarrow> is_power_of_two (2 ^ k)"
proof -
  assume k: "k < 64"
  have "unat ((2::usize) ^ k AND mask k) = 0" using k by (simp add: unat_and_mask unat_pow2)
  moreover have "(2::usize) ^ k \<noteq> 0" using k by (simp add: word_unat_eq_iff unat_pow2)
  ultimately show ?thesis by (simp add: is_power_of_two_def mask_eq_sub_one word_unat_eq_iff)
qed

lemma max_pow2: "k < 64 \<Longrightarrow> max (2 ^ k) (8 :: usize) = 2 ^ max k 3"
proof -
  assume k: "k < 64"
  have "(2::usize) ^ k \<le> 2 ^ 3 \<longleftrightarrow> k \<le> 3"
    unfolding word_le_nat_alt using k power_increasing_iff [of "2::nat" k 3]
    by (simp add: unat_pow2)
  then show ?thesis by (auto simp: max_def)
qed

text \<open>The size a request is rounded up to.\<close>

definition rounded :: "nat \<Rightarrow> nat \<Rightarrow> nat" where
  "rounded sz a = max 16 ((sz + a - 1) div a * a)"

lemma size_align_spec:
  assumes k: "l_align l = 2 ^ k" "k < 63"
  obtains (ok) sz where "size_align l = Inr (sz, 2 ^ max k 3)"
      and "unat sz = rounded (unat (l_size l)) (2 ^ max k 3)"
      and "unat (l_size l) + 2 ^ max k 3 \<le> 2 ^ 63"
  | (panic) "size_align l = Inl UnwrapFailed" and "2 ^ 63 < unat (l_size l) + 2 ^ max k 3"
proof -
  let ?j = "max k 3"
  have j: "?j < 63" "?j < 64" using k by auto
  then have p: "unat ((2::usize) ^ ?j) = 2 ^ ?j" by (simp add: unat_pow2)
  have pj: "(2::nat) ^ ?j \<le> 2 ^ 62" using j by (intro power_increasing) auto
  have lim: "unat (0x8000000000000000 - 2 ^ ?j :: usize) = 2 ^ 63 - 2 ^ ?j"
    using pj p by (subst unat_sub_small) (simp_all add: word_le_nat_alt)
  have fit: "l_size l \<le> 0x8000000000000000 - 2 ^ ?j \<longleftrightarrow> unat (l_size l) + 2 ^ ?j \<le> 2 ^ 63"
    using pj by (simp add: word_le_nat_alt lim) linarith
  have at: "layout_align_to ALIGN_OF_NODE l = (if unat (l_size l) + 2 ^ ?j \<le> 2 ^ 63
      then Some \<lparr>l_size = l_size l, l_align = 2 ^ ?j\<rparr> else None)"
    using k j(2) by (simp add: layout_align_to_def ALIGN_OF_NODE_def max_pow2 is_power_of_two_pow fit Let_def)
  show thesis
  proof (cases "unat (l_size l) + 2 ^ ?j \<le> 2 ^ 63")
    case True
    let ?s = "(l_size l + 2 ^ ?j - 1) AND NOT (mask ?j) :: usize"
    have "unat (l_size l + 2 ^ ?j) = unat (l_size l) + 2 ^ ?j"
      using True p by (subst unat_add_small) simp_all
    then have "unat (l_size l + 2 ^ ?j - 1) = unat (l_size l) + 2 ^ ?j - 1"
      using one_le_power [of "2::nat" ?j]
      by (subst unat_sub_small) (simp_all add: word_le_nat_alt trans_le_add2)
    then have s: "unat ?s = (unat (l_size l) + 2 ^ ?j - 1) div 2 ^ ?j * 2 ^ ?j"
      by (simp add: unat_and_not_mask)
    have "size_align l = Inr (max ?s 16, 2 ^ ?j)"
      using True by (simp add: size_align_def at pad_to_align_def mask_eq_sub_one SIZE_OF_NODE_def Let_def)
    moreover have "unat (max ?s 16) = rounded (unat (l_size l)) (2 ^ ?j)"
      using s by (auto simp: rounded_def max_def word_le_nat_alt)
    ultimately show thesis using True by (rule ok)
  next
    case False
    then show thesis by (intro panic) (simp_all add: size_align_def at)
  qed
qed

lemma rounded_bounds:
  assumes "3 \<le> k"
  shows "8 dvd rounded sz (2 ^ k)" and "16 \<le> rounded sz (2 ^ k)" and "sz \<le> rounded sz (2 ^ k)"
proof -
  have "(2::nat) ^ 3 dvd 2 ^ k" using assms by (rule le_imp_power_dvd)
  then have "8 dvd (sz + 2 ^ k - 1) div 2 ^ k * 2 ^ k" by simp
  then show "8 dvd rounded sz (2 ^ k)" by (auto simp: rounded_def max_def)
  show "16 \<le> rounded sz (2 ^ k)" by (simp add: rounded_def)
  have "sz \<le> (sz + 2 ^ k - 1) div 2 ^ k * 2 ^ k"
  proof (cases "2 ^ k dvd sz")
    case True
    then show ?thesis using align_up_pow2_arith [of "2 ^ k" sz] by simp
  next
    case False
    have "sz mod 2 ^ k < 2 ^ k" by simp
    then have "sz \<le> sz div 2 ^ k * 2 ^ k + 2 ^ k" using div_mult_mod_eq [of sz "2 ^ k"] by linarith
    then show ?thesis using align_up_pow2_arith [of "2 ^ k" sz] False by simp
  qed
  then show "sz \<le> rounded sz (2 ^ k)" by (simp add: rounded_def)
qed

section \<open>Allocating from the free list\<close>

lemma nodes_ok_split:
  "nodes_ok (ns1 @ n # ns2) \<longleftrightarrow> node_ok n \<and> nodes_ok (ns1 @ ns2) \<and>
     (\<forall>k \<in> set (ns1 @ ns2). node_bytes n \<inter> node_bytes k = {})"
  unfolding nodes_ok_def sorted_wrt_append set_append sorted_wrt.simps by (auto simp: Int_commute) blast+

lemma nodes_ok_Cons:
  "nodes_ok (n # ns) \<longleftrightarrow> node_ok n \<and> nodes_ok ns \<and> (\<forall>k \<in> set ns. node_bytes n \<inter> node_bytes k = {})"
  by (auto simp: nodes_ok_def)

lemma carve_bytes:
  assumes h: "nodes_ok (ns1 @ n # ns2)" and p: "placed n a sz k" and dvd: "8 dvd unat a" "8 dvd unat sz"
  obtains h' where "carve n a sz (h\<lparr>free_list := ns1 @ ns2\<rparr>) = Inr h'" and "nodes_ok (free_list h')"
    and "heap_end h' = heap_end h"
    and "free_bytes h' = (\<Union>k \<in> set (ns1 @ n # ns2). node_bytes k) - {unat (start_addr n)..<unat a + unat sz}"
proof -
  let ?U = "\<Union>k \<in> set (ns1 @ ns2). node_bytes k"
  from h have n: "node_ok n" and rest: "nodes_ok (ns1 @ ns2)" and disj: "node_bytes n \<inter> ?U = {}"
    unfolding nodes_ok_split by blast+
  have all: "(\<Union>k \<in> set (ns1 @ n # ns2). node_bytes k) = node_bytes n \<union> ?U" by auto
  have nb: "node_bytes n = {unat (start_addr n)..<unat (start_addr n) + unat (n_size n)}"
    by (simp add: node_bytes_def block_def)
  have le: "unat a + unat sz \<le> unat (start_addr n) + unat (n_size n)" using p by (auto simp: placed_def)
  have cut: "(node_bytes n \<union> ?U) - {unat (start_addr n)..<unat a + unat sz} =
      {unat a + unat sz ..< unat (start_addr n) + unat (n_size n)} \<union> ?U"
    using disj le p unfolding nb placed_def by (auto simp: disjoint_iff)
  from n p dvd show thesis
  proof (cases rule: carve_spec [where h = "h\<lparr>free_list := ns1 @ ns2\<rparr>"])
    case exact
    then show thesis using rest cut all
      by (intro that [of "h\<lparr>free_list := ns1 @ ns2\<rparr>"]) (simp_all add: free_bytes_def)
  next
    case (rest r)
    have r: "node_bytes r = {unat a + unat sz ..< unat (start_addr n) + unat (n_size n)}"
      using rest by (simp add: node_bytes_def block_def)
    then have "node_bytes r \<subseteq> node_bytes n" using p unfolding nb by (auto simp: placed_def)
    then have "nodes_ok (r # ns1 @ ns2)"
      using \<open>nodes_ok (ns1 @ ns2)\<close> rest(2) disj by (auto simp: nodes_ok_Cons)
    then show thesis using rest(1) cut all r
      by (intro that [of "h\<lparr>free_list := r # ns1 @ ns2\<rparr>"]) (simp_all add: free_bytes_def)
  qed
qed

lemma alloc_mut_fit:
  assumes inv: "heap_inv h" and l: "l_align l = 2 ^ k" "k < 63"
    and sa: "size_align l = Inr (sz, al)" and fit: "find_fit sz al (free_list h) = Inr (Some (n, a, rest))"
  obtains h' where "alloc_mut l h m = Some (Inr (a, h', m))" and "heap_inv h'" and "heap_end h' = heap_end h"
    and "al = 2 ^ max k 3" and "2 ^ max k 3 dvd unat a"
    and "unat sz = rounded (unat (l_size l)) (2 ^ max k 3)"
    and "block a sz \<subseteq> free_bytes h" and "free_bytes h' \<subseteq> free_bytes h - block a sz"
proof -
  let ?j = "max k 3"
  have j: "?j < 64" "3 \<le> ?j" using l by auto
  have al: "al = 2 ^ ?j" and sz: "unat sz = rounded (unat (l_size l)) (2 ^ ?j)"
    using size_align_spec [OF l] sa by auto
  have ok: "nodes_ok (free_list h)" using inv by (simp add: heap_inv_def)
  obtain ns1 ns2 where ns: "free_list h = ns1 @ n # ns2" "rest = ns1 @ ns2" and p: "placed n a sz ?j"
    using find_fit_placed [of sz ?j "free_list h" n a rest] fit ok j by (auto simp: al nodes_ok_def)
  have "(2::nat) ^ 3 dvd 2 ^ ?j" by (rule le_imp_power_dvd) simp
  moreover have a: "2 ^ ?j dvd unat a" using p by (simp add: placed_def)
  ultimately have a8: "8 dvd unat a" using dvd_trans by fastforce
  have s8: "8 dvd unat sz" using rounded_bounds(1) [OF j(2)] sz by simp
  obtain h' where h': "carve n a sz (h\<lparr>free_list := ns1 @ ns2\<rparr>) = Inr h'" "nodes_ok (free_list h')"
    "heap_end h' = heap_end h" "free_bytes h' = free_bytes h - {unat (start_addr n)..<unat a + unat sz}"
    using carve_bytes [OF ok [unfolded ns(1)] p a8 s8, of h] by (auto simp: free_bytes_def ns(1))
  have "block a sz \<subseteq> node_bytes n"
    using p by (auto simp: node_bytes_def block_def placed_def)
  then have "block a sz \<subseteq> free_bytes h" by (auto simp: free_bytes_def ns(1))
  moreover have "free_bytes h' \<subseteq> free_bytes h - block a sz"
    using p h'(4) by (auto simp: block_def placed_def)
  moreover have "alloc_mut l h m = Some (Inr (a, h', m))"
    by (simp add: alloc_mut_def sa find_free_node.simps fit ns(2) h'(1))
  moreover have "heap_inv h'" using h' inv by (auto simp: heap_inv_def)
  ultimately show thesis using h'(3) al a sz by (intro that)
qed

section \<open>The contract of a block allocator\<close>

text \<open>
  \<open>avail\<close> are the bytes the allocator may still hand out, \<open>region\<close> all bytes it manages;
  \<open>footprint a l\<close> are the bytes of a block for request \<open>l\<close> at address \<open>a\<close>.
\<close>

locale block_heap =
  fixes alloc :: "'l \<Rightarrow> 's \<Rightarrow> (usize \<times> 's) option"
    and dealloc :: "usize \<Rightarrow> 'l \<Rightarrow> 's \<Rightarrow> 's option"
    and grow :: "'s \<Rightarrow> 's option"
    and avail :: "'s \<Rightarrow> nat set"
    and region :: "'s \<Rightarrow> nat set"
    and footprint :: "usize \<Rightarrow> 'l \<Rightarrow> nat set"
    and valid :: "usize \<Rightarrow> 'l \<Rightarrow> bool"
    and req :: "'l \<Rightarrow> bool"
    and inv :: "'s \<Rightarrow> bool"
  assumes avail_region: "inv s \<Longrightarrow> avail s \<subseteq> region s"
    and alloc_law: "inv s \<Longrightarrow> req l \<Longrightarrow> alloc l s = Some (a, s') \<Longrightarrow>
      valid a l \<and> footprint a l \<subseteq> avail s \<and> avail s' \<subseteq> avail s - footprint a l \<and>
      region s' = region s \<and> inv s'"
    and dealloc_law: "inv s \<Longrightarrow> valid a l \<Longrightarrow> footprint a l \<subseteq> region s - avail s \<Longrightarrow>
      \<exists>s'. dealloc a l s = Some s' \<and> avail s' = avail s \<union> footprint a l \<and> region s' = region s \<and> inv s'"
    and grow_law: "inv s \<Longrightarrow> grow s = Some s' \<Longrightarrow>
      region s \<subseteq> region s' \<and> avail s' \<inter> region s = avail s \<and> inv s'"
begin

text \<open>A state and the set of blocks its clients hold.\<close>

definition consistent :: "'s \<Rightarrow> (usize \<times> 'l) set \<Rightarrow> bool" where
  "consistent s B \<longleftrightarrow> inv s \<and>
     (\<forall>(a, l) \<in> B. valid a l \<and> footprint a l \<subseteq> region s - avail s) \<and>
     disjoint_family_on (\<lambda>(a, l). footprint a l) B"

lemma consistent_empty: "inv s \<Longrightarrow> consistent s {}"
  by (simp add: consistent_def disjoint_family_on_def)

lemma consistent_alloc:
  assumes c: "consistent s B" and r: "req l" and a: "alloc l s = Some (a, s')"
  shows "consistent s' (insert (a, l) B)"
proof -
  have inv: "inv s" using c by (simp add: consistent_def)
  note law = alloc_law [OF inv r a] and sub = avail_region [OF inv]
  have apart: "footprint a' l' \<inter> footprint a l = {}" if "(a', l') \<in> B" for a' l'
    using that c law by (fastforce simp: consistent_def)
  have "disjoint_family_on (\<lambda>(a, l). footprint a l) (insert (a, l) B)"
    unfolding disjoint_family_on_def
  proof (intro ballI impI)
    fix x y
    assume x: "x \<in> insert (a, l) B" and y: "y \<in> insert (a, l) B" and "x \<noteq> y"
    then show "(case x of (a, l) \<Rightarrow> footprint a l) \<inter> (case y of (a, l) \<Rightarrow> footprint a l) = {}"
      using c apart [of "fst x" "snd x"] apart [of "fst y" "snd y"] disjoint_family_onD [OF _ _ _ \<open>x \<noteq> y\<close>]
      unfolding consistent_def by (cases "x \<in> B \<and> y \<in> B") (blast, auto)
  qed
  moreover have "valid a' l' \<and> footprint a' l' \<subseteq> region s' - avail s'" if "(a', l') \<in> B" for a' l'
    using that c law by (fastforce simp: consistent_def)
  moreover have "valid a l \<and> footprint a l \<subseteq> region s' - avail s'" using law sub by blast
  ultimately show ?thesis using law unfolding consistent_def by auto
qed

lemma consistent_dealloc:
  assumes c: "consistent s B" and b: "(a, l) \<in> B"
  shows "\<exists>s'. dealloc a l s = Some s' \<and> consistent s' (B - {(a, l)})"
proof -
  have inv: "inv s" and v: "valid a l" and f: "footprint a l \<subseteq> region s - avail s"
    using c b by (auto simp: consistent_def)
  from dealloc_law [OF inv v f] obtain s' where s': "dealloc a l s = Some s'"
    "avail s' = avail s \<union> footprint a l" "region s' = region s" "inv s'" by blast
  have "footprint a' l' \<inter> footprint a l = {}" if "(a', l') \<in> B" "(a', l') \<noteq> (a, l)" for a' l'
    using c disjoint_family_onD [OF _ that(1) b that(2)] unfolding consistent_def by fastforce
  then have "valid a' l' \<and> footprint a' l' \<subseteq> region s' - avail s'"
    if "(a', l') \<in> B" "(a', l') \<noteq> (a, l)" for a' l'
    using that c s' by (fastforce simp: consistent_def)
  then have "consistent s' (B - {(a, l)})"
    using c s' disjoint_family_on_mono [of "B - {(a, l)}" B] by (auto simp: consistent_def)
  with s'(1) show ?thesis by blast
qed

lemma consistent_grow:
  assumes c: "consistent s B" and g: "grow s = Some s'"
  shows "consistent s' B"
proof -
  have inv: "inv s" using c by (simp add: consistent_def)
  note law = grow_law [OF inv g]
  have "valid a l \<and> footprint a l \<subseteq> region s' - avail s'" if "(a, l) \<in> B" for a l
    using that c law by (fastforce simp: consistent_def)
  then show ?thesis using c law by (auto simp: consistent_def)
qed

end

section \<open>The linked-list allocator keeps the contract\<close>

definition no_merge :: "linked_list_allocator \<Rightarrow> bool" where
  "no_merge h \<longleftrightarrow> (case free_list h of [] \<Rightarrow> True
     | n # _ \<Rightarrow> n_size n mod (PAGE_SIZE * PAGES_PER_EXTEND) \<noteq> 0)"

definition fits_now :: "layout \<Rightarrow> linked_list_allocator \<Rightarrow> bool" where
  "fits_now l h \<longleftrightarrow> (case size_align l of
       Inl _ \<Rightarrow> False
     | Inr (sz, align) \<Rightarrow> (case find_fit sz align (free_list h) of Inr (Some _) \<Rightarrow> True | _ \<Rightarrow> False))"

type_synonym kernel_heap = "linked_list_allocator \<times> machine"

definition alloc_now :: "layout \<Rightarrow> kernel_heap \<Rightarrow> (usize \<times> kernel_heap) option" where
  "alloc_now l = (\<lambda>(h, m). if fits_now l h then
     (case alloc_mut l h m of Some (Inr (a, h', m')) \<Rightarrow> Some (a, (h', m')) | _ \<Rightarrow> None) else None)"

definition dealloc_now :: "usize \<Rightarrow> layout \<Rightarrow> kernel_heap \<Rightarrow> kernel_heap option" where
  "dealloc_now a l = (\<lambda>(h, m). case dealloc_mut a l h of Inr h' \<Rightarrow> Some (h', m) | Inl _ \<Rightarrow> None)"

definition grow_now :: "kernel_heap \<Rightarrow> kernel_heap option" where
  "grow_now = (\<lambda>(h, m). if no_merge h then
     (case extend_heap h m of Inr (Inr _, h', m') \<Rightarrow> Some (h', m') | _ \<Rightarrow> None) else None)"

definition footprint :: "usize \<Rightarrow> layout \<Rightarrow> nat set" where
  "footprint a l = {unat a ..< unat a + rounded (unat (l_size l)) (max 8 (unat (l_align l)))}"

definition valid_block :: "usize \<Rightarrow> layout \<Rightarrow> bool" where
  "valid_block a l \<longleftrightarrow> (\<exists>k. k < 63 \<and> l_align l = 2 ^ k \<and> 2 ^ max k 3 dvd unat a \<and>
     unat (l_size l) + 2 ^ max k 3 \<le> 2 ^ 63)"

lemma page_containing_eq: "page_containing_address a = Inr \<lparr>page_start = a AND NOT (mask 12)\<rparr>"
  by (simp add: page_containing_address_def align_down_page)

lemma extend_heap_ok:
  assumes "extend_heap h m = Inr (Inr u, h', m')"
  obtains s where "unat s = (unat (heap_end h) div 4096 + 1) * 4096"
    and "unat (heap_end h') = unat s + 524288"
    and "merge_extended (\<lparr>start_addr = s, n_size = 524288\<rparr> # free_list h) = Inr (free_list h')"
    and "for_pages extend_page (iter_pages \<lparr>page_start = s\<rparr> \<lparr>page_start = s + 520192\<rparr>) m = Inr (Inr (), m')"
proof -
  let ?s = "(heap_end h + 4096) AND NOT (mask 12)" and ?e = "(heap_end h + 524288) AND NOT (mask 12)"
  have sz: "PAGE_SIZE * PAGES_PER_EXTEND = 524288" by (simp add: PAGE_SIZE_def PAGES_PER_EXTEND_def)
  from assms obtain h1 ns where
    nw: "unat (heap_end h) + 524288 < 2 ^ 64"
    and pages: "for_pages extend_page (iter_pages \<lparr>page_start = ?s\<rparr> \<lparr>page_start = ?e\<rparr>) m = Inr (Inr (), m')"
    and add: "add_free_node ?s 524288 h = Inr h1" and merge: "merge_extended (free_list h1) = Inr ns"
    and e: "unat ?e + 4096 < 2 ^ 64" and h': "h' = \<lparr>free_list = ns, heap_end = ?e + 4096\<rparr>"
    unfolding extend_heap_def sz
    by (auto simp: rust_simps page_containing_eq PAGE_SIZE_def split: sum.splits)
       (metis (full_types) old.unit.exhaust sumE)
  have floor: "(x + n * 4096) div 4096 = x div 4096 + n" for x n :: nat by simp
  have us: "unat ?s = (unat (heap_end h) div 4096 + 1) * 4096"
    using nw floor [of "unat (heap_end h)" 1]
    by (subst unat_page_floor, subst unat_add_small) (simp_all only: unat_numeral, simp_all)
  have ue: "unat ?e = (unat (heap_end h) div 4096 + 128) * 4096"
    using nw floor [of "unat (heap_end h)" 128] by (subst unat_page_floor, subst unat_add_small) simp_all
  have "unat (?s + 520192) = unat ?e"
    using us ue e by (subst unat_add_small) simp_all
  then have se: "?e = ?s + 520192" by (simp add: word_unat_eq_iff)
  have "free_list h1 = \<lparr>start_addr = ?s, n_size = 524288\<rparr> # free_list h"
    using add by (auto simp: add_free_node_def rust_simps)
  then show thesis
    using that [OF us] ue us e h' merge pages by (simp add: unat_add_small se)
qed

definition heap_region :: "kernel_heap \<Rightarrow> nat set" where
  "heap_region s = {..<unat (heap_end (fst s))}"

lemma max_8_pow2: "k < 63 \<Longrightarrow> max 8 (unat ((2::usize) ^ k)) = 2 ^ max k 3"
proof -
  assume k: "k < 63"
  have "unat (max (2 ^ k) (8::usize)) = 2 ^ max k 3" using k by (simp add: max_pow2 unat_pow2)
  then show ?thesis by (auto simp: max_def word_le_nat_alt split: if_splits)
qed

lemma footprint_eq:
  "l_align l = 2 ^ k \<Longrightarrow> k < 63 \<Longrightarrow> unat sz = rounded (unat (l_size l)) (2 ^ max k 3) \<Longrightarrow>
    footprint a l = block a sz"
  by (simp add: footprint_def block_def max_8_pow2)

lemma fits_nowE:
  assumes "fits_now l h"
  obtains sz align n b rest where "size_align l = Inr (sz, align)"
    and "find_fit sz align (free_list h) = Inr (Some (n, b, rest))"
proof (cases "size_align l")
  case (Inr p)
  obtain sz align where p: "p = (sz, align)" by (cases p)
  with assms Inr obtain x where "find_fit sz align (free_list h) = Inr (Some x)"
    by (auto simp: fits_now_def split: sum.splits option.splits)
  with that Inr p show thesis by (cases x) auto
qed (use assms in \<open>simp add: fits_now_def\<close>)

lemma alloc_now_law:
  assumes inv: "heap_inv (fst s)" and l: "layout_ok l" and al: "alloc_now l s = Some (a, s')"
  shows "valid_block a l \<and> footprint a l \<subseteq> free_bytes (fst s) \<and>
    free_bytes (fst s') \<subseteq> free_bytes (fst s) - footprint a l \<and>
    heap_region s' = heap_region s \<and> heap_inv (fst s')"
proof -
  obtain h m where s: "s = (h, m)" by (cases s)
  from l obtain k where k: "l_align l = 2 ^ k" "k < 63" by (auto simp: layout_ok_def)
  from al obtain sz align n b rest where sa: "size_align l = Inr (sz, align)"
    and fit: "find_fit sz align (free_list h) = Inr (Some (n, b, rest))"
    using fits_nowE by (auto simp: alloc_now_def s split: if_splits)
  from fit sa have "fits_now l h" by (simp add: fits_now_def)
  have inv': "heap_inv h" using inv by (simp add: s)
  show ?thesis
  proof (rule alloc_mut_fit [OF inv' k sa fit, where m = m])
    fix h'
    assume h': "alloc_mut l h m = Some (Inr (b, h', m))" "heap_inv h'" "heap_end h' = heap_end h"
      "align = 2 ^ max k 3" "2 ^ max k 3 dvd unat b" "unat sz = rounded (unat (l_size l)) (2 ^ max k 3)"
      "block b sz \<subseteq> free_bytes h" "free_bytes h' \<subseteq> free_bytes h - block b sz"
    have "a = b" "s' = (h', m)" using al h'(1) \<open>fits_now l h\<close> by (auto simp: alloc_now_def s)
    moreover have "unat (l_size l) + 2 ^ max k 3 \<le> 2 ^ 63"
      using size_align_spec [OF k] sa by auto
    ultimately show ?thesis
      using h' k footprint_eq [OF k h'(6)] by (auto simp: valid_block_def heap_region_def s)
  qed
qed

lemma dealloc_now_law:
  assumes inv: "heap_inv (fst s)" and v: "valid_block a l"
    and f: "footprint a l \<subseteq> heap_region s - free_bytes (fst s)"
  shows "\<exists>s'. dealloc_now a l s = Some s' \<and> free_bytes (fst s') = free_bytes (fst s) \<union> footprint a l \<and>
    heap_region s' = heap_region s \<and> heap_inv (fst s')"
proof -
  obtain h m where s: "s = (h, m)" by (cases s)
  from v obtain k where k: "l_align l = 2 ^ k" "k < 63" and a: "2 ^ max k 3 dvd unat a"
    and lim: "unat (l_size l) + 2 ^ max k 3 \<le> 2 ^ 63" by (auto simp: valid_block_def)
  obtain sz where sa: "size_align l = Inr (sz, 2 ^ max k 3)" and sz: "unat sz = rounded (unat (l_size l)) (2 ^ max k 3)"
    using size_align_spec [OF k] lim by auto
  have "(2::nat) ^ 3 dvd 2 ^ max k 3" by (rule le_imp_power_dvd) simp
  then have a8: "8 dvd unat a" using a dvd_trans by fastforce
  have sz16: "16 \<le> unat sz" using sz rounded_bounds(2) [of "max k 3"] by simp
  have fp: "footprint a l = block a sz" by (rule footprint_eq [OF k sz])
  let ?n = "\<lparr>start_addr = a, n_size = sz\<rparr>"
  have "unat a + unat sz - 1 \<in> block a sz" using sz16 by (auto simp: block_def)
  then have "unat a + unat sz - 1 < unat (heap_end h)" using f fp by (auto simp: heap_region_def s)
  then have top: "unat a + unat sz < 2 ^ 64" using sz16 unat_lt_2p64 [of "heap_end h"] by (simp del: unat_lt_2p64)
  have run: "dealloc_mut a l h = Inr (h\<lparr>free_list := ?n # free_list h\<rparr>)"
    using add_free_node_spec [OF a8 sz16 top] by (simp add: dealloc_mut_def sa)
  have fb: "free_bytes (h\<lparr>free_list := ?n # free_list h\<rparr>) = free_bytes h \<union> block a sz"
    by (auto simp: free_bytes_def node_bytes_def)
  have "node_ok ?n" using a8 sz16 top by (simp add: node_ok_def)
  moreover have "node_bytes ?n \<inter> node_bytes j = {}" if "j \<in> set (free_list h)" for j
    using that f fp by (auto simp: node_bytes_def [of ?n] free_bytes_def s)
  ultimately have "heap_inv (h\<lparr>free_list := ?n # free_list h\<rparr>)"
    using inv f fp fb by (auto simp: heap_inv_def nodes_ok_Cons s heap_region_def)
  then show ?thesis
    using run fb fp by (intro exI [of _ "(h\<lparr>free_list := ?n # free_list h\<rparr>, m)"])
      (simp add: dealloc_now_def s heap_region_def)
qed

lemma grow_now_law:
  assumes inv: "heap_inv (fst s)" and g: "grow_now s = Some s'"
  shows "heap_region s \<subseteq> heap_region s' \<and> free_bytes (fst s') \<inter> heap_region s = free_bytes (fst s) \<and>
    heap_inv (fst s')"
proof -
  obtain h m h' m' where s: "s = (h, m)" "s' = (h', m')" by (cases s, cases s') auto
  from g have nm: "no_merge h" and x: "\<exists>u. extend_heap h m = Inr (Inr u, h', m')"
    by (auto simp: grow_now_def s split: if_splits sum.splits prod.splits)
  then obtain a where a: "unat a = (unat (heap_end h) div 4096 + 1) * 4096"
    and e: "unat (heap_end h') = unat a + 524288"
    and fl: "merge_extended (\<lparr>start_addr = a, n_size = 524288\<rparr> # free_list h) = Inr (free_list h')"
    using extend_heap_ok by blast
  let ?n = "\<lparr>start_addr = a, n_size = 524288\<rparr>"
  have fl': "free_list h' = ?n # free_list h"
    using fl nm by (cases "free_list h") (auto simp: no_merge_def)
  have gt: "unat (heap_end h) < unat a" using a by (simp add: div_mult_mod_eq [symmetric])
  have nb: "node_bytes ?n = {unat a ..< unat a + 524288}" by (simp add: node_bytes_def block_def)
  have top: "unat a + 524288 < 2 ^ 64" using e unat_lt_2p64 [of "heap_end h'"] by simp
  have ok: "node_ok ?n" using top a by (simp add: node_ok_def)
  have low: "free_bytes h \<subseteq> {..<unat (heap_end h)}" using inv by (simp add: heap_inv_def s)
  then have "node_bytes ?n \<inter> node_bytes j = {}" if "j \<in> set (free_list h)" for j
    using that gt unfolding nb free_bytes_def by fastforce
  then have "nodes_ok (free_list h')" using ok inv by (simp add: fl' nodes_ok_Cons heap_inv_def s)
  moreover have "free_bytes h' = node_bytes ?n \<union> free_bytes h" by (simp add: free_bytes_def fl')
  ultimately show ?thesis
    using low gt e unfolding s heap_region_def heap_inv_def nb by auto
qed

interpretation linked_heap: block_heap alloc_now dealloc_now grow_now "\<lambda>s. free_bytes (fst s)"
  heap_region footprint valid_block layout_ok "\<lambda>s. heap_inv (fst s)"
proof unfold_locales
  show "free_bytes (fst s) \<subseteq> heap_region s" if "heap_inv (fst s)" for s
    using that by (simp add: heap_inv_def heap_region_def)
qed (rule alloc_now_law dealloc_now_law grow_now_law; assumption)+

section \<open>Every history of the heap\<close>

text \<open>
  The states of the heap after any sequence of its operations, with the blocks that
  were handed out and not given back. Other kernel code may change the page tables
  and the frame allocator in between.
\<close>

inductive heap_run :: "kernel_heap \<Rightarrow> (usize \<times> layout) set \<Rightarrow> bool" where
  init: "allocator_init start sz linked_list_allocator_new = Inr h \<Longrightarrow> heap_run (h, m) {}"
| alloc: "heap_run (h, m) B \<Longrightarrow> layout_ok l \<Longrightarrow> fits_now l h \<Longrightarrow>
    alloc_mut l h m = Some (Inr (a, h', m')) \<Longrightarrow> heap_run (h', m') (insert (a, l) B)"
| dealloc: "heap_run (h, m) B \<Longrightarrow> (a, l) \<in> B \<Longrightarrow> dealloc_mut a l h = Inr h' \<Longrightarrow>
    heap_run (h', m) (B - {(a, l)})"
| extend: "heap_run (h, m) B \<Longrightarrow> no_merge h \<Longrightarrow> extend_heap h m = Inr (Inr u, h', m') \<Longrightarrow>
    heap_run (h', m') B"
| other: "heap_run (h, m) B \<Longrightarrow> heap_run (h, m') B"

lemma allocator_init_inv:
  assumes "allocator_init start sz linked_list_allocator_new = Inr h"
  shows "heap_inv h"
proof -
  from assms obtain a d z e where "align_up start SIZE_OF_NODE = Inr a" and "sub_w sz d = Inr z"
    and "add_w a z = Inr e" and h: "add_free_node a z (linked_list_allocator_new\<lparr>heap_end := e\<rparr>) = Inr h"
    unfolding allocator_init_def rbind_eq_Inr by blast
  then have a: "align_up start (2 ^ 4) = Inr a" and e: "unat a + unat z < 2 ^ 64" and ee: "e = a + z"
    by (simp_all add: SIZE_OF_NODE_def add_w_eq_Inr)
  have "2 ^ 4 dvd unat a" using align_up_bounds(1) [OF _ a] by simp
  then have a8: "8 dvd unat a" by (rule dvd_trans [rotated]) simp
  from h have "SIZE_OF_NODE \<le> z" by (auto simp: add_free_node_def rust_simps)
  then have z16: "16 \<le> unat z" by (simp add: SIZE_OF_NODE_def word_le_nat_alt)
  have "h = \<lparr>free_list = [\<lparr>start_addr = a, n_size = z\<rparr>], heap_end = a + z\<rparr>"
    using h add_free_node_spec [OF a8 z16 e] by (simp add: linked_list_allocator_new_def ee)
  then show ?thesis
    using a8 z16 e by (auto simp: heap_inv_def nodes_ok_def node_ok_def free_bytes_def node_bytes_def
        block_def unat_add_small)
qed

lemma heap_run_consistent: "heap_run s B \<Longrightarrow> linked_heap.consistent s B"
proof (induction rule: heap_run.induct)
  case (init start sz h m)
  then show ?case using allocator_init_inv by (intro linked_heap.consistent_empty) simp
next
  case (alloc h m B l a h' m')
  then have "alloc_now l (h, m) = Some (a, (h', m'))" by (simp add: alloc_now_def)
  with alloc show ?case using linked_heap.consistent_alloc by blast
next
  case (dealloc h m B a l h')
  then have "dealloc_now a l (h, m) = Some (h', m)" by (simp add: dealloc_now_def)
  with linked_heap.consistent_dealloc [OF dealloc.IH dealloc.hyps(2)] show ?case by simp
next
  case (extend h m B u h' m')
  then have "grow_now (h, m) = Some (h', m')" by (simp add: grow_now_def)
  with extend show ?case using linked_heap.consistent_grow by blast
next
  case (other h m B m')
  then show ?case unfolding linked_heap.consistent_def by (simp add: heap_region_def)
qed

text \<open>
  C3: in every history of the kernel heap made of initialisation, allocations served from the
  free list, deallocations of live blocks and extensions that do not merge, any two live blocks are
  disjoint, each is aligned as requested, lies below the end of the heap and shares no
  byte with a free node, and giving any of them back never panics.
\<close>
theorem heap_live_blocks_disjoint:
  assumes "heap_run (h, m) B"
  shows "disjoint_family_on (\<lambda>(a, l). footprint a l) B \<and>
    (\<forall>a l. (a, l) \<in> B \<longrightarrow> unat (l_align l) dvd unat a \<and>
       footprint a l \<subseteq> {..<unat (heap_end h)} - free_bytes h \<and>
       (\<exists>h'. dealloc_mut a l h = Inr h'))"
proof -
  have c: "linked_heap.consistent (h, m) B" using heap_run_consistent [OF assms] .
  have "unat (l_align l) dvd unat a" if "(a, l) \<in> B" for a l
  proof -
    have "valid_block a l" using c that by (auto simp: linked_heap.consistent_def)
    then obtain k where k: "k < 63" "l_align l = 2 ^ k" "2 ^ max k 3 dvd unat a"
      by (auto simp: valid_block_def)
    have "(2::nat) ^ k dvd 2 ^ max k 3" by (rule le_imp_power_dvd) simp
    then show ?thesis using k dvd_trans by (auto simp: unat_pow2)
  qed
  moreover have "\<exists>h'. dealloc_mut a l h = Inr h'" if "(a, l) \<in> B" for a l
    using linked_heap.consistent_dealloc [OF c that]
    by (auto simp: dealloc_now_def split: sum.splits)
  ultimately show ?thesis
    using c unfolding linked_heap.consistent_def by (auto simp: heap_region_def)
qed

lemmas heap_eval = allocator_init_def linked_list_allocator_new_def SIZE_OF_NODE_def ALIGN_OF_NODE_def
  add_free_node_def end_addr_def can_hold_def checked_add_def carve_def size_align_def layout_align_to_def
  pad_to_align_def is_power_of_two_def alloc_mut_def find_free_node.simps align_up_def add_w_def sub_w_def
  rassert_def unwrap_def

theorem heap_live_blocks_disjoint_witness:
  "footprint 0x1000 \<lparr>l_size = 20, l_align = 4\<rparr> \<inter> footprint 0x1018 \<lparr>l_size = 8, l_align = 8\<rparr> = {}"
proof -
  let ?l1 = "\<lparr>l_size = 20, l_align = 4\<rparr>" and ?l2 = "\<lparr>l_size = 8, l_align = 8\<rparr>"
  let ?h0 = "\<lparr>free_list = [\<lparr>start_addr = 0x1000, n_size = 0x1000\<rparr>], heap_end = 0x2000\<rparr>"
  let ?h1 = "\<lparr>free_list = [\<lparr>start_addr = 0x1018, n_size = 0xFE8\<rparr>], heap_end = 0x2000\<rparr>"
  let ?h2 = "\<lparr>free_list = [\<lparr>start_addr = 0x1028, n_size = 0xFD8\<rparr>], heap_end = 0x2000\<rparr>"
  have "heap_run (?h0, example_machine) {}"
    by (rule heap_run.init [of "0xFF8" "0x1008"]) (simp add: heap_eval)
  then have "heap_run (?h1, example_machine) {(0x1000, ?l1)}"
    by (rule heap_run.alloc [of ?h0 example_machine "{}" ?l1])
       (auto simp: heap_eval fits_now_def layout_ok_def intro!: exI [of _ 2])
  then have "heap_run (?h2, example_machine) {(0x1018, ?l2), (0x1000, ?l1)}"
    by (rule heap_run.alloc [of ?h1 example_machine "{(0x1000, ?l1)}" ?l2])
       (auto simp: heap_eval fits_now_def layout_ok_def intro!: exI [of _ 3])
  from heap_live_blocks_disjoint [OF this]
  show ?thesis by (auto simp: disjoint_family_on_def)
qed

text \<open>
  \<open>size_align\<close> turns a layout into an alignment of at least eight and the size rounded up to
  it (never below the sixteen bytes of a node), and panics exactly when the adjusted layout would
  not fit in \<open>isize\<close>.
\<close>
lemma size_align_correct:
  assumes "l_align l = 2 ^ k" and "k < 63"
  shows "case size_align l of
      Inl p \<Rightarrow> p = UnwrapFailed \<and> 2 ^ 63 < unat (l_size l) + 2 ^ max k 3
    | Inr (sz, al) \<Rightarrow> al = 2 ^ max k 3 \<and> unat sz = rounded (unat (l_size l)) (2 ^ max k 3) \<and>
        unat (l_size l) \<le> unat sz \<and> 16 \<le> unat sz \<and> 8 dvd unat sz"
  using assms
proof (cases rule: size_align_spec)
  case (ok sz)
  then show ?thesis using rounded_bounds [of "max k 3" "unat (l_size l)"] by simp
qed simp

lemma size_align_correct_example:
  "size_align \<lparr>l_size = 20, l_align = 4\<rparr> = Inr (24, 8) \<and> 8 dvd unat (24 :: usize)"
proof -
  have run: "size_align \<lparr>l_size = 20, l_align = 4\<rparr> = Inr (24, 8)" by (simp add: heap_eval)
  then show ?thesis using size_align_correct [of "\<lparr>l_size = 20, l_align = 4\<rparr>" 2] by simp
qed

text \<open>
  C32: an allocation that some free node can hold never panics and never extends the heap: it is placed at the
  aligned start of the first such node, and the free bytes lose everything from the start
  of that node to the end of the block, the bytes skipped for alignment included.
\<close>
theorem alloc_mut_first_fit:
  assumes inv: "heap_inv h" and l: "l_align l = 2 ^ k" "k < 63"
    and sa: "size_align l = Inr (sz, al)"
    and top: "\<forall>n \<in> set (free_list h). unat (start_addr n) + 2 ^ max k 3 < 2 ^ 64"
    and some: "j \<in> set (free_list h)" "can_hold j sz al = Inr (Inr b)"
  shows "\<exists>n ns1 ns2 a h'. free_list h = ns1 @ n # ns2 \<and> can_hold n sz al = Inr (Inr a) \<and>
    (\<forall>i \<in> set ns1. can_hold i sz al = Inr (Inl ())) \<and>
    alloc_mut l h m = Some (Inr (a, h', m)) \<and> heap_inv h' \<and>
    free_bytes h' = free_bytes h - {unat (start_addr n)..<unat a + unat sz}"
proof -
  let ?j = "max k 3"
  have j: "?j < 64" "3 \<le> ?j" using l by auto
  have al: "al = 2 ^ ?j" and sz: "unat sz = rounded (unat (l_size l)) (2 ^ ?j)"
    using size_align_spec [OF l] sa by auto
  have ok: "nodes_ok (free_list h)" using inv by (simp add: heap_inv_def)
  then have "\<forall>n \<in> set (free_list h). node_ok n \<and> unat (start_addr n) + 2 ^ ?j < 2 ^ 64"
    using top by (simp add: nodes_ok_def)
  from this j(1) show ?thesis
  proof (cases rule: find_fit_spec [where sz = sz])
    case none
    then show ?thesis using some by (auto simp: al)
  next
    case (some ns1 n ns2 a)
    have "8 dvd (2::nat) ^ ?j" using le_imp_power_dvd [OF j(2), of "2::nat"] by simp
    then have a8: "8 dvd unat a" using some(3) dvd_trans by (auto simp: placed_def)
    have s8: "8 dvd unat sz" using rounded_bounds(1) [OF j(2)] sz by simp
    obtain h' where h': "carve n a sz (h\<lparr>free_list := ns1 @ ns2\<rparr>) = Inr h'" "nodes_ok (free_list h')"
      "heap_end h' = heap_end h" "free_bytes h' = free_bytes h - {unat (start_addr n)..<unat a + unat sz}"
      using carve_bytes [OF ok [unfolded some(1)] some(3) a8 s8, of h] by (auto simp: free_bytes_def some(1))
    have "can_hold n sz al = Inr (Inr a)" using find_fit_can_hold [OF some(2)] by (simp add: al)
    moreover have "alloc_mut l h m = Some (Inr (a, h', m))"
      using some(2) by (simp add: alloc_mut_def sa find_free_node.simps al h'(1))
    moreover have "heap_inv h'" using h' inv by (auto simp: heap_inv_def)
    ultimately show ?thesis using some h'(4) al by blast
  qed
qed

theorem alloc_mut_first_fit_witness:
  "\<exists>a h'. alloc_mut \<lparr>l_size = 64, l_align = 64\<rparr>
       \<lparr>free_list = [\<lparr>start_addr = 0x1010, n_size = 0x100\<rparr>], heap_end = 0x1110\<rparr> example_machine =
     Some (Inr (a, h', example_machine)) \<and> free_bytes h' = {0x1080..<0x1110}"
proof -
  let ?n = "\<lparr>start_addr = 0x1010, n_size = 0x100\<rparr> :: node"
  let ?h = "\<lparr>free_list = [?n], heap_end = 0x1110\<rparr>" and ?l = "\<lparr>l_size = 64, l_align = 64\<rparr>"
  have inv: "heap_inv ?h"
    by (auto simp: heap_inv_def nodes_ok_def node_ok_def free_bytes_def node_bytes_def block_def)
  have sa: "size_align ?l = Inr (64, 64)" by (simp add: heap_eval)
  have ch: "can_hold ?n 64 64 = Inr (Inr 0x1040)" by (simp add: heap_eval)
  have align: "l_align ?l = 2 ^ 6" by simp
  have fb: "free_bytes ?h = {0x1010..<0x1110}" by (simp add: free_bytes_def node_bytes_def block_def)
  have "\<forall>n \<in> set (free_list ?h). unat (start_addr n) + 2 ^ max 6 3 < 2 ^ 64" by simp
  from alloc_mut_first_fit [OF inv align _ sa this, of ?n "0x1040" example_machine] ch
  obtain n ns1 ns2 a h' where r: "[?n] = ns1 @ n # ns2" "can_hold n 64 64 = Inr (Inr a)"
    "alloc_mut ?l ?h example_machine = Some (Inr (a, h', example_machine))"
    "free_bytes h' = free_bytes ?h - {unat (start_addr n)..<unat a + unat (64::usize)}"
    by auto
  then have "n = ?n" "a = 0x1040" using ch by (auto simp: Cons_eq_append_conv)
  then have "free_bytes h' = {0x1080..<0x1110}" using r(4) unfolding fb by auto
  then show ?thesis using r(3) by blast
qed

end
