(* ===== verification/Heap_Growth.thy ===== *)
theory Heap_Growth
  imports Heap_Safety
begin

text \<open>
  Growing the heap: the loops of \<open>extend_heap\<close> and \<open>init_heap\<close> back every page of the
  new range with a frame of its own, \<open>find_free_node\<close> always returns, and what
  \<open>extend_heap\<close> does when it merges nodes.
\<close>

section \<open>Loops over pages\<close>

fun fold_pages :: "(page \<Rightarrow> 's \<Rightarrow> (('e + unit) \<times> 's) rust) \<Rightarrow> page list \<Rightarrow> 's \<Rightarrow> (('e + unit) \<times> 's) rust" where
  "fold_pages body [] s = Inr (Inr (), s)"
| "fold_pages body (p # ps) s = sbind (body p s) (\<lambda>_ s'. fold_pages body ps s')"

lemma for_pages_fold:
  "pages_of it = Inr ps \<Longrightarrow> for_pages body it s = fold_pages body ps s"
proof (induction it arbitrary: ps s rule: pages_of.induct)
  case (1 it)
  from 1(2) obtain p it' where n: "iter_page_next it = Inr (p, it')"
    by (subst (asm) pages_of.simps) (auto simp: rust_simps)
  show ?case
  proof (cases p)
    case None
    then show ?thesis using 1(2) n by (subst for_pages.simps, subst (asm) pages_of.simps) simp
  next
    case (Some page)
    then obtain qs where qs: "pages_of it' = Inr qs" "ps = page # qs"
      using 1(2) n by (subst (asm) pages_of.simps) (auto simp: rust_simps)
    have "for_pages body it' s' = fold_pages body qs s'" for s'
      using 1(1) [OF n refl Some qs(1)] .
    then have "for_pages body it' = fold_pages body qs" by (rule ext)
    then show ?thesis using Some n qs by (subst for_pages.simps) simp
  qed
qed

section \<open>A fresh frame for a page\<close>

lemma pt_entry_frames: "pt_entry (m\<lparr>frames := ra\<rparr>) root page = pt_entry m root page"
proof -
  have "child (m\<lparr>frames := ra\<rparr>) t i = child m t i" "leaf (m\<lparr>frames := ra\<rparr>) t i = leaf m t i" for t i
    by (simp_all add: child_def leaf_def)
  then have "walk (m\<lparr>frames := ra\<rparr>) t p = walk m t p" for t p
    by (induction m t p rule: walk.induct) (auto split: option.splits)
  then show ?thesis by (simp add: pt_entry_def)
qed

lemma allocate_evolves:
  assumes wf: "wf_space m root L" and al: "allocate_frame (frames m) = Inr (Some f, ra)"
  shows "evolves m root L 1 (m\<lparr>frames := ra\<rparr>) L" and "frame_no f \<in> free_frames (frames m)"
    and "free_frames ra = free_frames (frames m) - {frame_no f}"
    and "addr_ok (start_address f)"
proof -
  have "ra_inv (frames m)" using wf_spaceD(1) [OF wf] by (simp add: wf_machine_def)
  then have all: "frame_no f \<in> free_frames (frames m) \<and> free_frames ra = free_frames (frames m) - {frame_no f} \<and>
      ra_inv ra \<and> length (bitmap ra) = length (bitmap (frames m)) \<and> unat (start_address f) = frame_no f * 4096"
    by (cases rule: allocate_frame_cases) (use al in \<open>auto simp: free_frames_def\<close>)
  then show f: "frame_no f \<in> free_frames (frames m)"
    and sub: "free_frames ra = free_frames (frames m) - {frame_no f}"
    and "addr_ok (start_address f)"
    using fresh_frame(3) [OF wf_spaceD(1) [OF wf]] by auto
  from all have inv: "ra_inv ra" "length (bitmap ra) = length (bitmap (frames m))" by auto
  have "used_table (m\<lparr>frames := ra\<rparr>) t" if "used_table m t" for t
    using that sub by (auto simp: used_table_def)
  moreover have "link (m\<lparr>frames := ra\<rparr>) L = link m L" by (simp add: link_def child_def fun_eq_iff)
  moreover have "wf_machine (m\<lparr>frames := ra\<rparr>)" using wf_spaceD(1) [OF wf] inv by (simp add: wf_machine_def)
  ultimately have "wf_space (m\<lparr>frames := ra\<rparr>) root L" using wf unfolding wf_space_def by auto
  then show "evolves m root L 1 (m\<lparr>frames := ra\<rparr>) L"
    using sub f by (auto simp: evolves_def extends_def keeps_def card_Diff_singleton_if)
qed

text \<open>Writing to a table that is in no address space yet changes none.\<close>

lemma evolves_write_fresh:
  assumes wf: "wf_space m root L" and ev: "evolves m root L n m1 L" and v: "\<not> used_table m v" and t: "length t = ENTRY_COUNT"
    and same: "tables m1 = tables m"
  shows "evolves m root L n (write_table v t m1) L"
proof -
  let ?m = "write_table v t m1"
  have sel: "frames ?m = frames m1" "phy_offset ?m = phy_offset m1" "cr3 ?m = cr3 m1" "\<And>a. a \<noteq> v \<Longrightarrow> tables ?m a = tables m1 a"
    by (simp_all add: write_table_def)
  have ne: "a \<noteq> v" if "used_table m a" for a using that v by auto
  have "link ?m L a i c = link m1 L a i c" for a i c
  proof (cases "L a")
    case (Some l)
    then have "a \<noteq> v" using wf_spaceD(4) [OF wf] ne by blast
    then show ?thesis by (simp add: link_def child_def sel)
  qed (simp add: link_def)
  moreover have "wf_machine ?m" using evolves_wf [OF ev] t by (auto simp: wf_space_def wf_machine_def write_table_def)
  moreover have "used_table ?m = used_table m1" by (simp add: used_table_def fun_eq_iff sel)
  ultimately have "wf_space ?m root L" using evolves_wf [OF ev] unfolding wf_space_def by simp
  then show ?thesis using ev ne by (auto simp: evolves_def keeps_def sel same)
qed

lemma allocate_pml4_evolves:
  assumes wf: "wf_space m root L" and root: "current_root_table m = Inr root" and fr: "free_frames (frames m) \<noteq> {}"
  shows "\<exists>p m'. allocate_pml4 m = Inr (Inr p, m') \<and> evolves m root L 1 m' L \<and> unat p + unat (phy_offset m') < 2 ^ 64"
proof -
  note wfm = wf_spaceD(1) [OF wf]
  have len: "length (tables m a) = ENTRY_COUNT" for a using wfm by (simp add: wf_machine_def)
  have "ra_inv (frames m)" using wfm by (simp add: wf_machine_def)
  then obtain f ra where f: "allocate_frame (frames m) = Inr (Some f, ra)" "frame_no f \<in> free_frames (frames m)" "unat (start_address f) = frame_no f * 4096"
    by (cases rule: allocate_frame_cases) (use fr in auto)
  note a = allocate_evolves [OF wf f(1)] and v = fresh_frame [OF wfm f(2,3)]
  let ?v = "start_address f + phy_offset m" and ?m1 = "m\<lparr>frames := ra\<rparr>"
  let ?z = "write_table ?v (zeroize (tables m ?v)) ?m1"
  have "current_root_table ?z = Inr root" using root by (simp add: current_root_table_def write_table_def)
  moreover have lz: "length (tables ?z a) = ENTRY_COUNT" for a using len by (simp add: write_table_def zeroize_def)
  ultimately have "copy_higher_half ?v ?z = Inr (write_table ?v (take 256 (tables ?z ?v) @ drop 256 (tables ?z root)) ?z)"
    by (rule copy_higher_half_eq)
  moreover have "write_table ?v t ?z = write_table ?v t ?m1" for t by (simp add: write_table_def)
  ultimately have run: "allocate_pml4 m = Inr (Inr (start_address f), write_table ?v (take 256 (tables ?z ?v) @ drop 256 (tables ?z root)) ?m1)"
    using f(1) v(1) by (simp add: allocate_pml4_def add_w_def)
  have "evolves m root L 1 (write_table ?v (take 256 (tables ?z ?v) @ drop 256 (tables ?z root)) ?m1) L"
    by (rule evolves_write_fresh [OF wf a(1) v(4)]) (simp_all add: lz ENTRY_COUNT_def)
  then show ?thesis using run v(1) by (auto simp: write_table_def)
qed

lemma evolves_root:
  "evolves m root L n m' L' \<Longrightarrow> current_root_table m' = current_root_table m"
  by (simp add: evolves_def keeps_def current_root_table_def)

lemma evolves_free: "evolves m root L n m' L' \<Longrightarrow> free_frames (frames m') \<subseteq> free_frames (frames m)"
  by (simp add: evolves_def keeps_def)

lemma writeable_flags: "flags_ok (PRESENT OR WRITABLE)"
  by (simp add: flags_ok_def all_flags_val PRESENT_def WRITABLE_def)

lemma map_fresh_spec:
  assumes wf: "wf_space m root L" and root: "current_root_table m = Inr root"
  obtains (fail) m' L' where "map_fresh_writeable page m = Inr (Inl FrameAllocationFailed, m')"
      and "evolves m root L 4 m' L'" and "\<And>q. pt_entry m' root q = pt_entry m root q"
      and "card (free_frames (frames m)) < 4"
  | (ok) m' L' f where "map_fresh_writeable page m = Inr (Inr (), m')" and "evolves m root L 4 m' L'"
      and "pt_entry m' root page = Some (entry_new (PRESENT OR WRITABLE) (start_address f))"
      and "frame_no f \<in> free_frames (frames m) - free_frames (frames m')"
      and "\<And>q. page_path q \<noteq> page_path page \<Longrightarrow> pt_entry m' root q = pt_entry m root q"
proof -
  have "ra_inv (frames m)" using wf_spaceD(1) [OF wf] by (simp add: wf_machine_def)
  then show thesis
  proof (cases rule: allocate_frame_cases)
    case none
    then show thesis using evolves_mono [OF evolves_refl [OF wf], of 4]
      by (intro fail [of m L]) (simp_all add: map_fresh_writeable_def)
  next
    case (some f ra)
    note a = allocate_evolves [OF wf some(1)]
    let ?m1 = "m\<lparr>frames := ra\<rparr>"
    have run: "map_fresh_writeable page m = map_to root page f (PRESENT OR WRITABLE) ?m1"
      using some(1) root by (simp add: map_fresh_writeable_def)
    have card: "card (free_frames (frames m)) \<le> card (free_frames (frames ?m1)) + 1"
      using a(1) by (simp add: evolves_def keeps_def)
    note post = map_to_spec [OF evolves_wf [OF a(1)] writeable_flags a(4), of page]
    show thesis
    proof (cases "map_fresh_writeable page m")
      case (Inl x)
      then show thesis using post run by (auto simp: map_to_post_def)
    next
      case (Inr x)
      then consider (bad) m' L' where "x = (Inl FrameAllocationFailed, m')" "evolves ?m1 root L 2 m' L'"
          "card (free_frames (frames ?m1)) < 3" "\<And>q. pt_entry m' root q = pt_entry ?m1 root q"
        | (good) m' L' where "x = (Inr (), m')" "evolves ?m1 root L 3 m' L'"
          "pt_entry m' root page = Some (entry_new (PRESENT OR WRITABLE) (start_address f))"
          "\<And>q. page_path q \<noteq> page_path page \<Longrightarrow> pt_entry m' root q = pt_entry ?m1 root q"
        using post run by (auto simp: map_to_post_def)
      then show thesis
      proof cases
        case bad
        then show thesis using Inr card evolves_mono [OF evolves_trans [OF a(1) bad(2)], of 4]
          by (intro fail [of m' L']) (auto simp: pt_entry_frames)
      next
        case good
        have "frame_no f \<notin> free_frames (frames m')" using evolves_free [OF good(2)] a(3) by auto
        then show thesis using Inr good evolves_mono [OF evolves_trans [OF a(1) good(2)], of 4] a(2)
          by (intro ok [of m' L' f]) (auto simp: pt_entry_frames)
      qed
    qed
  qed
qed

definition backed :: "machine \<Rightarrow> machine \<Rightarrow> virt_addr \<Rightarrow> page list \<Rightarrow> frame list \<Rightarrow> bool" where
  "backed m m' root ps fs \<longleftrightarrow> distinct (map frame_no fs) \<and>
     frame_no ` set fs \<subseteq> free_frames (frames m) - free_frames (frames m') \<and>
     list_all2 (\<lambda>p f. pt_entry m' root p = Some (entry_new (PRESENT OR WRITABLE) (start_address f))) ps fs"

definition unmoved :: "machine \<Rightarrow> machine \<Rightarrow> virt_addr \<Rightarrow> page list \<Rightarrow> bool" where
  "unmoved m m' root ps \<longleftrightarrow>
     (\<forall>q. page_path q \<notin> page_path ` set ps \<longrightarrow> pt_entry m' root q = pt_entry m root q)"

lemma fold_map_fresh:
  assumes "wf_space m root L" and "current_root_table m = Inr root" and "distinct (map page_path ps)"
  shows "\<exists>r m' L'. fold_pages map_fresh_writeable ps m = Inr (r, m') \<and>
    evolves m root L (4 * length ps) m' L' \<and> unmoved m m' root ps \<and>
    (r = Inl FrameAllocationFailed \<and> card (free_frames (frames m)) < 4 * length ps \<or>
     r = Inr () \<and> (\<exists>fs. backed m m' root ps fs))"
  using assms
proof (induction ps arbitrary: m L)
  case Nil
  then show ?case using evolves_refl by (fastforce simp: unmoved_def backed_def)
next
  case (Cons p ps)
  from Cons.prems(1,2) show ?case
  proof (cases rule: map_fresh_spec [where page = p])
    case (fail m' L')
    then show ?thesis using evolves_mono [OF fail(2), of "4 * length (p # ps)"]
      by (auto simp: unmoved_def)
  next
    case (ok m1 L1 f)
    have "current_root_table m1 = Inr root" using evolves_root [OF ok(2)] Cons.prems(2) by simp
    with Cons.IH [OF evolves_wf [OF ok(2)]] Cons.prems(3) obtain r m' L' where
      run: "fold_pages map_fresh_writeable ps m1 = Inr (r, m')" and ev: "evolves m1 root L1 (4 * length ps) m' L'"
      and un: "unmoved m1 m' root ps"
      and res: "r = Inl FrameAllocationFailed \<and> card (free_frames (frames m1)) < 4 * length ps \<or>
        r = Inr () \<and> (\<exists>fs. backed m1 m' root ps fs)" by auto
    have ev': "evolves m root L (4 * length (p # ps)) m' L'"
      using evolves_trans [OF ok(2) ev] by simp
    have card: "card (free_frames (frames m)) \<le> card (free_frames (frames m1)) + 4"
      using ok(2) by (simp add: evolves_def keeps_def)
    have un': "unmoved m m' root (p # ps)" using un ok(5) by (auto simp: unmoved_def)
    have p: "pt_entry m' root p = pt_entry m1 root p"
      using un Cons.prems(3) by (auto simp: unmoved_def)
    have "backed m m' root (p # ps) (f # fs)" if "backed m1 m' root ps fs" for fs
      using that p ok(3,4) evolves_free [OF ok(2)] evolves_free [OF ev] by (fastforce simp: backed_def)
    then show ?thesis
      using ok(1) run ev' un' res card by fastforce
  qed
qed

section \<open>Ranges of pages\<close>

definition page_no :: "nat \<Rightarrow> page" where
  "page_no k = \<lparr>page_start = of_nat (k * 4096)\<rparr>"

lemma page_path_no:
  assumes "k < 2 ^ 52"
  shows "page_path (page_no k) = [k div 2 ^ 27 mod 512, k div 2 ^ 18 mod 512, k div 2 ^ 9 mod 512, k mod 512]"
proof -
  have u: "unat (of_nat (k * 4096) :: usize) = k * 4096"
    using assms by (intro unat_of_nat_small) simp
  have d: "k * 4096 div 2 ^ (12 + n) = k div 2 ^ n" for n
    by (simp add: power_add div_mult2_eq)
  show ?thesis
    using d [of 27] d [of 18] d [of 9] d [of 0]
    by (simp add: page_path_def page_no_def translate_def unat_p_index u del: of_nat_mult)
qed

lemma page_path_mod:
  assumes "k < 2 ^ 52" and "j < 2 ^ 52" and "page_path (page_no k) = page_path (page_no j)"
  shows "k mod 2 ^ 36 = j mod 2 ^ 36"
proof -
  have "x mod 2 ^ 36 = x mod 512 + 512 * (x div 2 ^ 9 mod 512) + 2 ^ 18 * (x div 2 ^ 18 mod 512) +
      2 ^ 27 * (x div 2 ^ 27 mod 512)" for x :: nat
    using mod_split [of x 512] mod_split [of x "2 ^ 18"] mod_split [of x "2 ^ 27"] by simp
  then show ?thesis using assms by (simp add: page_path_no)
qed

lemma mod_eq_close:
  fixes k j n :: nat
  assumes "k mod n = j mod n" and "k < j + n" and "j < k + n"
  shows "k = j"
proof (cases "k \<le> j")
  case True
  then have "n dvd j - k" using assms(1) mod_eq_dvd_iff_nat [OF True, of n] by simp
  then show ?thesis using True assms(3) nat_dvd_not_less [of "j - k" n] by linarith
next
  case False
  then have "n dvd k - j" using assms(1) mod_eq_dvd_iff_nat [of j k n] by simp
  then show ?thesis using False assms(2) nat_dvd_not_less [of "k - j" n] by linarith
qed

lemma distinct_paths:
  assumes "b < 2 ^ 52" and "b < a + 2 ^ 36"
  shows "distinct (map page_path (map page_no [a..<Suc b]))"
proof -
  have "inj_on (page_path \<circ> page_no) {a..<Suc b}"
  proof (rule inj_onI)
    fix k j
    assume k: "k \<in> {a..<Suc b}" and j: "j \<in> {a..<Suc b}"
      and eq: "(page_path \<circ> page_no) k = (page_path \<circ> page_no) j"
    have "k < 2 ^ 52" "j < 2 ^ 52" using k j assms(1) unfolding atLeastLessThan_iff by linarith+
    then have "k mod 2 ^ 36 = j mod 2 ^ 36" using eq [unfolded comp_apply] by (rule page_path_mod)
    moreover have "k < j + 2 ^ 36" "j < k + 2 ^ 36"
      using k j assms(2) unfolding atLeastLessThan_iff by linarith+
    ultimately show "k = j" by (rule mod_eq_close)
  qed
  then show ?thesis by (simp add: distinct_map del: upt_Suc)
qed

text \<open>What mapping a whole range does: all pages backed by fresh frames, or an error.\<close>

definition range_mapped :: "machine \<Rightarrow> virt_addr \<Rightarrow> (virt_addr \<rightharpoonup> nat) \<Rightarrow> nat \<Rightarrow> nat \<Rightarrow> bool \<Rightarrow> machine \<Rightarrow> bool" where
  "range_mapped m root L a n ok m' \<longleftrightarrow>
     (\<exists>L'. evolves m root L (4 * n) m' L') \<and> unmoved m m' root (map page_no [a..<a + n]) \<and>
     (if ok then \<exists>fs. backed m m' root (map page_no [a..<a + n]) fs
      else card (free_frames (frames m)) < 4 * n)"

lemma for_range_map:
  assumes wf: "wf_space m root L" and root: "current_root_table m = Inr root"
    and s: "unat s = a * 4096" and e: "unat e = b * 4096" and ab: "Suc b = a + n" and n: "n \<le> 2 ^ 36"
  obtains (fail) m' where "for_pages map_fresh_writeable (iter_pages \<lparr>page_start = s\<rparr> \<lparr>page_start = e\<rparr>) m =
      Inr (Inl FrameAllocationFailed, m')" and "range_mapped m root L a n False m'"
  | (ok) m' where "for_pages map_fresh_writeable (iter_pages \<lparr>page_start = s\<rparr> \<lparr>page_start = e\<rparr>) m =
      Inr (Inr (), m')" and "range_mapped m root L a n True m'"
proof -
  let ?ps = "map page_no [a..<a + n]"
  have pages: "pages_of (iter_pages \<lparr>page_start = s\<rparr> \<lparr>page_start = e\<rparr>) = Inr ?ps"
    using pages_of_spec [OF e s] by (simp add: page_no_def [abs_def] ab del: upt_Suc)
  have "b < 2 ^ 52" using unat_lt_2p64 [of e] e by simp
  then have d: "distinct (map page_path ?ps)"
    using distinct_paths [of b a] n ab by (simp del: upt_Suc)
  have len: "length ?ps = n" by simp
  from fold_map_fresh [OF wf root d, unfolded len] obtain r m' L' where
    run: "fold_pages map_fresh_writeable ?ps m = Inr (r, m')" and ev: "evolves m root L (4 * n) m' L'"
    and un: "unmoved m m' root ?ps"
    and res: "r = Inl FrameAllocationFailed \<and> card (free_frames (frames m)) < 4 * n \<or>
      r = Inr () \<and> (\<exists>fs. backed m m' root ?ps fs)" by blast
  from res show thesis
  proof (elim disjE conjE)
    assume "r = Inl FrameAllocationFailed" "card (free_frames (frames m)) < 4 * n"
    then show thesis using run ev un
      by (intro fail [of m']) (auto simp: for_pages_fold [OF pages] range_mapped_def)
  next
    assume "r = Inr ()" "\<exists>fs. backed m m' root ?ps fs"
    then show thesis using run ev un
      by (intro ok [of m']) (auto simp: for_pages_fold [OF pages] range_mapped_def)
  qed
qed

lemma fold_extend_page:
  "fold_pages extend_page ps m =
     rbind (fold_pages map_fresh_writeable ps m) (\<lambda>(r, m'). Inr (map_sum (\<lambda>_. ()) id r, m'))"
proof (induction ps arbitrary: m)
  case (Cons p ps)
  show ?case
  proof (cases "map_fresh_writeable p m")
    case (Inr x)
    obtain r m' where x: "x = (r, m')" by (cases x)
    show ?thesis using Cons Inr x by (cases r) (simp_all add: extend_page_def)
  qed (simp add: extend_page_def)
qed simp

lemma for_extend_page:
  assumes "pages_of it = Inr ps"
  shows "for_pages extend_page it m =
     rbind (for_pages map_fresh_writeable it m) (\<lambda>(r, m'). Inr (map_sum (\<lambda>_. ()) id r, m'))"
  by (simp add: for_pages_fold [OF assms] fold_extend_page)

lemma extend_heap_pages:
  assumes wf: "wf_space m root L" and root: "current_root_table m = Inr root"
    and top: "unat (heap_end h) + 528384 < 2 ^ 64"
  obtains (fail) m' where "extend_heap h m = Inr (Inl (), h, m')"
      and "range_mapped m root L (unat (heap_end h) div 4096 + 1) 128 False m'"
  | (ok) m' a where "range_mapped m root L (unat (heap_end h) div 4096 + 1) 128 True m'"
      and "unat a = (unat (heap_end h) div 4096 + 1) * 4096"
      and "extend_heap h m = rbind (merge_extended (\<lparr>start_addr = a, n_size = 524288\<rparr> # free_list h))
        (\<lambda>ns. Inr (Inr (), \<lparr>free_list = ns, heap_end = a + 524288\<rparr>, m'))"
proof -
  let ?k = "unat (heap_end h) div 4096"
  let ?s = "(heap_end h + 4096) AND NOT (mask 12)" and ?e = "(heap_end h + 524288) AND NOT (mask 12)"
  have floor: "(x + n * 4096) div 4096 = x div 4096 + n" for x n :: nat by simp
  have us: "unat ?s = (?k + 1) * 4096"
    using top floor [of "unat (heap_end h)" 1]
    by (subst unat_page_floor, subst unat_add_small) (simp_all only: unat_numeral, simp_all)
  have ue: "unat ?e = (?k + 128) * 4096"
    using top floor [of "unat (heap_end h)" 128] by (subst unat_page_floor, subst unat_add_small) simp_all
  have le: "?k * 4096 \<le> unat (heap_end h)" by simp
  have "unat (?s + 524288) = unat (?e + 4096)"
    using us ue top le by (subst (1 2) unat_add_small) simp_all
  then have e': "?e + 4096 = ?s + 524288" by (simp add: word_unat_eq_iff)
  have sz: "PAGE_SIZE * PAGES_PER_EXTEND = 524288" by (simp add: PAGE_SIZE_def PAGES_PER_EXTEND_def)
  have a1: "add_w (heap_end h) PAGE_SIZE = Inr (heap_end h + 4096)"
    using top by (simp add: add_w_def PAGE_SIZE_def)
  have a2: "add_w (heap_end h) 524288 = Inr (heap_end h + 524288)" using top by (simp add: add_w_def)
  have a3: "add_free_node ?s 524288 h =
      Inr (h\<lparr>free_list := \<lparr>start_addr = ?s, n_size = 524288\<rparr> # free_list h\<rparr>)"
    using us top le by (intro add_free_node_spec) simp_all
  have fl: "free_list (h\<lparr>free_list := ns\<rparr>) = ns" for ns by simp
  have a4: "add_w ?e PAGE_SIZE = Inr (?s + 524288)"
    unfolding e' [symmetric] using ue top le by (simp add: add_w_def PAGE_SIZE_def)
  let ?it = "iter_pages \<lparr>page_start = ?s\<rparr> \<lparr>page_start = ?e\<rparr>"
  have run: "extend_heap h m = rbind (for_pages extend_page ?it m) (\<lambda>(r, m'). case r of
       Inl _ \<Rightarrow> Inr (Inl (), h, m')
     | Inr _ \<Rightarrow> rbind (merge_extended (\<lparr>start_addr = ?s, n_size = 524288\<rparr> # free_list h))
        (\<lambda>ns. Inr (Inr (), \<lparr>free_list = ns, heap_end = ?s + 524288\<rparr>, m')))"
    unfolding extend_heap_def sz a1 a2 page_containing_eq rbind_Inr page.simps a3 a4 fl ..
  have pages: "pages_of ?it = Inr (map page_no [?k + 1..<Suc (?k + 128)])"
    using pages_of_spec [OF ue us] by (simp add: page_no_def [abs_def] del: upt_Suc)
  have n: "Suc (?k + 128) = ?k + 1 + 128" "(128::nat) \<le> 2 ^ 36" by simp_all
  from wf root us ue n show thesis
  proof (cases rule: for_range_map)
    case (fail m')
    then show thesis using run by (intro that(1)) (simp_all add: for_extend_page [OF pages])
  next
    case (ok m')
    then show thesis using run us by (intro that(2) [of m' ?s]) (simp_all add: for_extend_page [OF pages])
  qed
qed

section \<open>The search for a node always returns\<close>

lemma range_mapped_wf:
  assumes "range_mapped m root L a n ok m'" and "current_root_table m = Inr root"
  shows "current_root_table m' = Inr root" and "\<exists>L'. wf_space m' root L'"
    and "free_frames (frames m') \<subseteq> free_frames (frames m)"
  using assms evolves_root evolves_free by (auto simp: range_mapped_def evolves_def keeps_def current_root_table_def)

lemma range_mapped_shrinks:
  assumes "range_mapped m root L a n True m'" and "0 < n"
  shows "free_frames (frames m') \<subset> free_frames (frames m)"
proof -
  obtain fs where "backed m m' root (map page_no [a..<a + n]) fs"
    using assms(1) by (auto simp: range_mapped_def)
  moreover then have "length fs = n" by (auto simp: backed_def dest: list_all2_lengthD)
  ultimately obtain f where "f \<in> set fs" "frame_no f \<in> free_frames (frames m) - free_frames (frames m')"
    using assms(2) by (cases fs) (auto simp: backed_def)
  moreover have "free_frames (frames m') \<subseteq> free_frames (frames m)"
    using assms(1) evolves_free by (fastforce simp: range_mapped_def)
  ultimately show ?thesis by auto
qed

lemma extend_ok_mapped:
  assumes wf: "wf_space m root L" and root: "current_root_table m = Inr root"
    and x: "extend_heap h m = Inr (Inr u, h', m')"
  shows "range_mapped m root L (unat (heap_end h) div 4096 + 1) 128 True m'"
  using x
proof (rule extend_heap_ok)
  fix s
  let ?k = "unat (heap_end h) div 4096"
  assume s: "unat s = (?k + 1) * 4096" and e: "unat (heap_end h') = unat s + 524288"
    and run: "for_pages extend_page (iter_pages \<lparr>page_start = s\<rparr> \<lparr>page_start = s + 520192\<rparr>) m = Inr (Inr (), m')"
  have ue: "unat (s + 520192) = (?k + 128) * 4096"
    using s e unat_lt_2p64 [of "heap_end h'"] by (subst unat_add_small) (simp_all del: unat_lt_2p64)
  have n: "Suc (?k + 128) = ?k + 1 + 128" "(128::nat) \<le> 2 ^ 36" by simp_all
  note pages = pages_of_spec [OF ue s]
  from wf root s ue n show ?thesis
    by (cases rule: for_range_map) (use run in \<open>simp_all add: for_extend_page [OF pages]\<close>)
qed

lemma find_free_node_returns:
  assumes "wf_space m root L" and "current_root_table m = Inr root"
  shows "\<exists>r. find_free_node sz align h m = Some r"
  using assms
proof (induction "card (free_frames (frames m))" arbitrary: h m L rule: less_induct)
  case less
  have step: "\<exists>r. find_free_node sz align h' m' = Some r" if "extend_heap h m = Inr (Inr u, h', m')" for u h' m'
  proof -
    note r = extend_ok_mapped [OF less.prems that]
    have "card (free_frames (frames m')) < card (free_frames (frames m))"
      using range_mapped_shrinks [OF r] by (simp add: psubset_card_mono finite_free_frames)
    then show ?thesis using less.hyps range_mapped_wf [OF r less.prems(2)] by blast
  qed
  show ?case
    using step by (subst find_free_node.simps) (auto split: sum.splits option.splits prod.splits)
qed

text \<open>
  C9: \<open>alloc_mut\<close> always returns: however many times \<open>find_free_node\<close> extends the heap
  and calls itself, every extension uses up free frames, so the search ends with a block, a
  null pointer or a panic.
\<close>
theorem alloc_mut_terminates:
  assumes "wf_space m root L" and "current_root_table m = Inr root"
  shows "\<exists>r. alloc_mut layout h m = Some r"
proof (cases "size_align layout")
  case (Inr p)
  obtain r where "find_free_node (fst p) (snd p) h m = Some r"
    using find_free_node_returns [OF assms] by blast
  then show ?thesis using Inr by (simp add: alloc_mut_def split_beta)
qed (simp add: alloc_mut_def)

theorem alloc_mut_terminates_witness:
  "\<exists>r. alloc_mut \<lparr>l_size = 8, l_align = 8\<rparr> linked_list_allocator_new example_machine = Some r"
  by (rule alloc_mut_terminates [OF example_machine_wf example_machine_root])

section \<open>Extending the heap\<close>

text \<open>
  C31: when the first free node is not a whole number of extensions, \<open>extend_heap\<close> either
  runs out of frames and leaves the allocator as it was, or adds one free node of 128 pages
  that starts on the first page boundary above the old end of the heap and reaches exactly to
  the new one; each of its pages is then mapped writeable to a frame of its own that was free before,
  and no other page changes its translation.
\<close>
theorem extend_heap_correct:
  assumes wf: "wf_space m root L" and root: "current_root_table m = Inr root"
    and top: "unat (heap_end h) + 528384 < 2 ^ 64" and nm: "no_merge h"
  shows "(\<exists>m'. extend_heap h m = Inr (Inl (), h, m') \<and> card (free_frames (frames m)) < 512) \<or>
    (\<exists>m' a fs. extend_heap h m = Inr (Inr (), \<lparr>free_list = \<lparr>start_addr = a, n_size = 524288\<rparr> # free_list h,
         heap_end = a + 524288\<rparr>, m') \<and>
       unat a = (unat (heap_end h) div 4096 + 1) * 4096 \<and>
       backed m m' root (map page_no [unat a div 4096..<unat a div 4096 + 128]) fs \<and>
       unmoved m m' root (map page_no [unat a div 4096..<unat a div 4096 + 128]))"
  using wf root top
proof (cases rule: extend_heap_pages)
  case (fail m')
  then show ?thesis by (simp add: range_mapped_def)
next
  case (ok m' a)
  have "merge_extended (\<lparr>start_addr = a, n_size = 524288\<rparr> # free_list h) =
      Inr (\<lparr>start_addr = a, n_size = 524288\<rparr> # free_list h)"
    using nm by (cases "free_list h") (simp_all add: no_merge_def)
  moreover have "unat a div 4096 = unat (heap_end h) div 4096 + 1"
    using ok(2) by simp
  ultimately show ?thesis using ok by (auto simp: range_mapped_def)
qed

theorem extend_heap_correct_witness:
  "\<exists>m' a. extend_heap \<lparr>free_list = [], heap_end = 0x10000\<rparr> example_machine =
     Inr (Inr (), \<lparr>free_list = [\<lparr>start_addr = a, n_size = 524288\<rparr>], heap_end = a + 524288\<rparr>, m') \<and>
     unat a = 0x11000"
proof -
  let ?h = "\<lparr>free_list = [], heap_end = 0x10000\<rparr>"
  have "unat (heap_end ?h) + 528384 < 2 ^ 64" "no_merge ?h" by (simp_all add: no_merge_def)
  from extend_heap_correct [OF example_machine_wf example_machine_root this]
  show ?thesis using example_machine_frames by auto
qed

lemma merge_extended_first:
  "merge_extended (n # ns) = Inr ks \<Longrightarrow> \<exists>k ks'. ks = k # ks' \<and> start_addr k = start_addr n \<and> unat (n_size n) \<le> unat (n_size k)"
proof (induction "n # ns" arbitrary: n ns rule: merge_extended.induct)
  case (3 n k ns)
  show ?case
  proof (cases "n_size k mod (PAGE_SIZE * PAGES_PER_EXTEND) = 0")
    case True
    then obtain z where z: "add_w (n_size n) (n_size k) = Inr z"
      and m: "merge_extended (n\<lparr>n_size := z\<rparr> # ns) = Inr ks"
      using 3(2) by (auto simp: rust_simps)
    then show ?thesis using 3(1) [OF True z m] add_w_unat [OF z] by auto
  qed (use 3(2) in auto)
qed auto

text \<open>
  C40: \<open>extend_heap\<close> merges the new node with the free nodes behind it whenever their size is a
  whole number of extensions, wherever they lie. The new node is above all the others, so the merged node starts at
  the new pages and reaches past the end of the heap by the size of the nodes it swallowed: the allocator
  then owns addresses that no extension has mapped.
\<close>
theorem extend_heap_merge_overruns:
  assumes x: "extend_heap h m = Inr (Inr (), h', m')" and fl: "free_list h = n # ns"
    and mult: "n_size n mod (PAGE_SIZE * PAGES_PER_EXTEND) = 0"
  shows "\<exists>k ks. free_list h' = k # ks \<and> unat (heap_end h) < unat (start_addr k) \<and>
    unat (heap_end h') + unat (n_size n) \<le> unat (start_addr k) + unat (n_size k)"
  using x
proof (rule extend_heap_ok)
  fix s
  assume s: "unat s = (unat (heap_end h) div 4096 + 1) * 4096" and e: "unat (heap_end h') = unat s + 524288"
    and m: "merge_extended (\<lparr>start_addr = s, n_size = 524288\<rparr> # free_list h) = Inr (free_list h')"
  from m mult obtain z where z: "add_w 524288 (n_size n) = Inr z"
    and "merge_extended (\<lparr>start_addr = s, n_size = z\<rparr> # ns) = Inr (free_list h')"
    by (auto simp: fl rust_simps)
  from merge_extended_first [OF this(2)] obtain k ks where k: "free_list h' = k # ks" "start_addr k = s"
    "unat z \<le> unat (n_size k)" by auto
  moreover have "unat (heap_end h) < unat s" using s by (simp add: div_mult_mod_eq [symmetric])
  ultimately show ?thesis using e add_w_unat [OF z] by auto
qed

theorem extend_heap_merge_overruns_witness:
  "\<exists>h' m' k ks. extend_heap \<lparr>free_list = [\<lparr>start_addr = 0x10000, n_size = 524288\<rparr>], heap_end = 0x90000\<rparr> example_machine =
      Inr (Inr (), h', m') \<and> free_list h' = k # ks \<and>
      unat (heap_end h') + 524288 \<le> unat (start_addr k) + unat (n_size k)"
proof -
  let ?h = "\<lparr>free_list = [\<lparr>start_addr = 0x10000, n_size = 524288\<rparr>], heap_end = 0x90000\<rparr>"
  have top: "unat (heap_end ?h) + 528384 < 2 ^ 64" by simp
  have mult: "(524288 :: usize) mod (PAGE_SIZE * PAGES_PER_EXTEND) = 0"
    by (simp add: PAGE_SIZE_def PAGES_PER_EXTEND_def)
  from example_machine_wf example_machine_root top
  have "\<exists>h' m'. extend_heap ?h example_machine = Inr (Inr (), h', m')"
  proof (cases rule: extend_heap_pages)
    case (fail m')
    then show ?thesis using example_machine_frames by (simp add: range_mapped_def)
  next
    case (ok m' a)
    then show ?thesis by (simp add: mult add_w_def)
  qed
  then obtain h' m' where x: "extend_heap ?h example_machine = Inr (Inr (), h', m')" by blast
  from extend_heap_merge_overruns [OF x, of "\<lparr>start_addr = 0x10000, n_size = 524288\<rparr>" "[]"] mult x
  show ?thesis by auto
qed

section \<open>Setting up the heap\<close>

lemma unat_INIT_HEAP_SIZE [simp]: "unat INIT_HEAP_SIZE = 37748736"
  by (simp add: INIT_HEAP_SIZE_def)

lemma allocator_init_run:
  assumes top: "unat s + unat sz + 16 < 2 ^ 64" and big: "32 \<le> unat sz"
  obtains a where "2 ^ 4 dvd unat a" and "unat s \<le> unat a" and "unat a < unat s + 16"
    and "allocator_init s sz h = Inr \<lparr>free_list = \<lparr>start_addr = a, n_size = s + sz - a\<rparr> # free_list h,
           heap_end = s + sz\<rparr>"
proof -
  have "align_up s (2 ^ 4) = Inr ((s + mask 4) AND NOT (mask 4))"
    using top align_up_pow2 [of 4 s] by simp
  then obtain a where a: "align_up s (2 ^ 4) = Inr a" by blast
  note b = align_up_bounds [OF _ a, simplified]
  have us: "unat (s + sz) = unat s + unat sz" using top by (simp add: unat_add_small)
  have d: "unat (a - s) = unat a - unat s" using b by (intro unat_sub_small) (simp add: word_le_nat_alt)
  have z: "unat (sz - (a - s)) = unat sz - (unat a - unat s)"
    using b d big by (subst unat_sub_small) (simp_all add: word_le_nat_alt)
  have "unat (s + sz - a) = unat (sz - (a - s))"
    using b us z big by (subst unat_sub_small) (simp_all add: word_le_nat_alt)
  then have zz: "sz - (a - s) = s + sz - a" by (simp add: word_unat_eq_iff)
  have "8 dvd unat a" using b(1) by (rule dvd_trans [rotated]) simp
  moreover have "16 \<le> unat (s + sz - a)" using z zz b big by simp
  moreover have "unat a + unat (s + sz - a) < 2 ^ 64" using z zz b top by simp
  ultimately have add: "add_free_node a (s + sz - a) h' =
      Inr (h'\<lparr>free_list := \<lparr>start_addr = a, n_size = s + sz - a\<rparr> # free_list h'\<rparr>)" for h'
    by (rule add_free_node_spec)
  have e: "add_w a (s + sz - a) = Inr (s + sz)" using z zz b top by (simp add: add_w_def)
  have s1: "sub_w a s = Inr (a - s)" using b by (simp add: sub_w_def word_le_nat_alt)
  have s2: "sub_w sz (a - s) = Inr (s + sz - a)" using b d big zz by (simp add: sub_w_def word_le_nat_alt)
  have "allocator_init s sz h = Inr \<lparr>free_list = \<lparr>start_addr = a, n_size = s + sz - a\<rparr> # free_list h,
      heap_end = s + sz\<rparr>"
    using a by (simp add: allocator_init_def SIZE_OF_NODE_def s1 s2 e add)
  then show thesis using b by (intro that) auto
qed

lemma init_heap_run:
  assumes wf: "wf_space m root L" and root: "current_root_table m = Inr root"
    and top: "unat s + 37748736 + 16 < 2 ^ 64"
  obtains (fail) m' where "init_heap s h m = Inr (Inl FrameAllocationFailed, h, m')"
      and "range_mapped m root L (unat s div 4096) ((unat s + 37748736) div 4096 + 1 - unat s div 4096) False m'"
  | (ok) m' a where "init_heap s h m = Inr (Inr (), \<lparr>free_list = \<lparr>start_addr = a, n_size = s + INIT_HEAP_SIZE - a\<rparr> # free_list h,
         heap_end = s + INIT_HEAP_SIZE\<rparr>, m')"
      and "2 ^ 4 dvd unat a" and "unat s \<le> unat a" and "unat a < unat s + 16"
      and "range_mapped m root L (unat s div 4096) ((unat s + 37748736) div 4096 + 1 - unat s div 4096) True m'"
      and "allocator_init s INIT_HEAP_SIZE h = Inr \<lparr>free_list = \<lparr>start_addr = a, n_size = s + INIT_HEAP_SIZE - a\<rparr> # free_list h,
         heap_end = s + INIT_HEAP_SIZE\<rparr>"
proof -
  let ?f = "unat s div 4096" and ?b = "(unat s + 37748736) div 4096"
  let ?e = "s + INIT_HEAP_SIZE"
  have ue: "unat ?e = unat s + 37748736" using top by (simp add: unat_add_small)
  have us: "unat (s AND NOT (mask 12)) = ?f * 4096" and ub: "unat (?e AND NOT (mask 12)) = ?b * 4096"
    by (simp_all only: unat_page_floor ue)
  have fb: "?f \<le> ?b" "?b \<le> ?f + 9217" by simp_all
  then have n: "Suc ?b = ?f + (?b + 1 - ?f)" "?b + 1 - ?f \<le> 2 ^ 36" by simp_all
  obtain a where a: "2 ^ 4 dvd unat a" "unat s \<le> unat a" "unat a < unat s + 16"
    and init: "allocator_init s INIT_HEAP_SIZE h = Inr \<lparr>free_list = \<lparr>start_addr = a, n_size = ?e - a\<rparr> # free_list h,
           heap_end = ?e\<rparr>"
    by (rule allocator_init_run [of s INIT_HEAP_SIZE h]) (use top in simp_all)
  have add: "add_w s INIT_HEAP_SIZE = Inr ?e" using top by (simp add: add_w_def)
  from wf root us ub n show thesis
  proof (cases rule: for_range_map)
    case (fail m')
    then show thesis by (intro that(1)) (simp_all add: init_heap_def add page_containing_eq)
  next
    case (ok m')
    then show thesis using a by (intro that(2)) (simp_all add: init_heap_def add page_containing_eq init)
  qed
qed

text \<open>
  \<open>init_heap\<close> either runs out of frames and leaves the allocator untouched, or maps every page from the one
  that contains \<open>heap_start\<close> to the one that contains \<open>heap_start + INIT_HEAP_SIZE\<close> to a frame of its own
  and hands the allocator one free node that starts at the next multiple of sixteen and ends
  at \<open>heap_start + INIT_HEAP_SIZE\<close>.
\<close>
lemma init_heap_correct:
  assumes wf: "wf_space m root L" and root: "current_root_table m = Inr root"
    and top: "unat s + 37748736 + 16 < 2 ^ 64"
  shows "let first = unat s div 4096; n = (unat s + 37748736) div 4096 + 1 - first in
    (\<exists>m'. init_heap s h m = Inr (Inl FrameAllocationFailed, h, m') \<and> card (free_frames (frames m)) < 4 * n) \<or>
    (\<exists>m' a fs. init_heap s h m = Inr (Inr (), \<lparr>free_list = \<lparr>start_addr = a, n_size = s + INIT_HEAP_SIZE - a\<rparr> # free_list h,
         heap_end = s + INIT_HEAP_SIZE\<rparr>, m') \<and>
       2 ^ 4 dvd unat a \<and> unat s \<le> unat a \<and> unat a < unat s + 16 \<and>
       backed m m' root (map page_no [first..<first + n]) fs \<and>
       unmoved m m' root (map page_no [first..<first + n]))"
  using assms
proof (cases rule: init_heap_run [where h = h])
  case (fail m')
  then show ?thesis by (simp add: range_mapped_def Let_def)
next
  case (ok m' a)
  then show ?thesis unfolding Let_def range_mapped_def by auto
qed

lemma init_heap_correct_example:
  "(\<exists>m'. init_heap 0x10000 linked_list_allocator_new example_machine =
      Inr (Inl FrameAllocationFailed, linked_list_allocator_new, m')) \<or>
   (\<exists>m' a. init_heap 0x10000 linked_list_allocator_new example_machine =
      Inr (Inr (), \<lparr>free_list = \<lparr>start_addr = a, n_size = 0x10000 + INIT_HEAP_SIZE - a\<rparr> #
          free_list linked_list_allocator_new, heap_end = 0x10000 + INIT_HEAP_SIZE\<rparr>, m') \<and>
      unat a < unat (0x10000 :: usize) + 16)"
proof -
  have "unat (0x10000 :: usize) + 37748736 + 16 < 2 ^ 64" by simp
  from init_heap_correct [OF example_machine_wf example_machine_root this, of linked_list_allocator_new]
  show ?thesis unfolding Let_def by blast
qed

end
