(* ===== verification/Cpu_Context.thy ===== *)
theory Cpu_Context
  imports Prelude
begin

text \<open>
  \<open>kernel/src/arch/x86_64/threading/mod.rs\<close>: saving and restoring the state of the
  processor around a context switch. The two assembly routines are modelled on the
  words they push and on the byte offsets they load from; the stack is a list of
  quadwords, lowest address first.
\<close>

section \<open>The interface of a context store\<close>

text \<open>
  What preemption needs of the code that saves and restores a context: nothing of the context \<open>x\<close> is lost, whatever else, \<open>r\<close>, the processor holds when it is saved.
\<close>

locale context_store =
  fixes save :: "'r \<Rightarrow> 'x \<Rightarrow> 'c"
    and restore :: "'c \<Rightarrow> 'x"
  assumes restore_save: "restore (save r x) = x"
    and save_restore: "save r (restore c) = c"
begin

lemma save_inj: "save r x = save r' y \<longleftrightarrow> x = y"
  by (metis restore_save save_restore)

text \<open>In a table of saved contexts, saving one gives that one back and leaves the others alone.\<close>

lemma restore_update:
  "i < length cs \<Longrightarrow> restore (cs[i := save r x] ! j) = (if j = i then x else restore (cs ! j))"
  by (simp add: nth_list_update restore_save)

end

section \<open>Registers\<close>

record cpu_status =
  rsp :: u64
  rflags :: u64
  ss :: u64
  cs :: u64
  rip :: u64
  r15 :: u64
  r14 :: u64
  r13 :: u64
  r12 :: u64
  r11 :: u64
  r10 :: u64
  r9 :: u64
  r8 :: u64
  rbp :: u64
  rdi :: u64
  rsi :: u64
  rdx :: u64
  rcx :: u64
  rbx :: u64
  ctx_cr3 :: u64
  rax :: u64

definition cpu_status_default :: cpu_status where
  "cpu_status_default = \<lparr>rsp = 0, rflags = 0, ss = 0, cs = 0, rip = 0, r15 = 0, r14 = 0, r13 = 0,
     r12 = 0, r11 = 0, r10 = 0, r9 = 0, r8 = 0, rbp = 0, rdi = 0, rsi = 0, rdx = 0, rcx = 0,
     rbx = 0, ctx_cr3 = 0, rax = 0\<rparr>"

record interrupt_frame =
  insturaction :: u64
  code_segment :: u64
  flags :: u64
  stack_pointer :: u64
  stack_segment :: u64

text \<open>The registers an interrupt leaves in place, and the ones \<open>iretq\<close> reloads from its frame.\<close>

record registers =
  g_rax :: u64
  g_rbx :: u64
  g_rcx :: u64
  g_rdx :: u64
  g_rsi :: u64
  g_rdi :: u64
  g_rbp :: u64
  g_r8 :: u64
  g_r9 :: u64
  g_r10 :: u64
  g_r11 :: u64
  g_r12 :: u64
  g_r13 :: u64
  g_r14 :: u64
  g_r15 :: u64
  g_cr3 :: u64

text \<open>\<open>#[repr(C)]\<close>: the fields in order, eight bytes each.\<close>

definition status_words :: "cpu_status \<Rightarrow> u64 list" where
  "status_words c = [rsp c, rflags c, ss c, cs c, rip c, r15 c, r14 c, r13 c, r12 c, r11 c, r10 c,
     r9 c, r8 c, rbp c, rdi c, rsi c, rdx c, rcx c, rbx c, ctx_cr3 c, rax c]"

definition load_status :: "u64 list \<Rightarrow> cpu_status" where
  "load_status w = \<lparr>rsp = w ! 0, rflags = w ! 1, ss = w ! 2, cs = w ! 3, rip = w ! 4, r15 = w ! 5,
     r14 = w ! 6, r13 = w ! 7, r12 = w ! 8, r11 = w ! 9, r10 = w ! 10, r9 = w ! 11, r8 = w ! 12,
     rbp = w ! 13, rdi = w ! 14, rsi = w ! 15, rdx = w ! 16, rcx = w ! 17, rbx = w ! 18,
     ctx_cr3 = w ! 19, rax = w ! 20\<rparr>"

text \<open>
  \<open>context_switch_stub\<close> pushes onto a stack that already holds the interrupt frame;
  \<open>rf\<close> is the flags register at \<open>pushfq\<close>. A push puts the word in front.
\<close>

definition frame_words :: "interrupt_frame \<Rightarrow> u64 list" where
  "frame_words f = [insturaction f, code_segment f, flags f, stack_pointer f, stack_segment f]"

definition context_switch_stub :: "registers \<Rightarrow> u64 \<Rightarrow> u64 list \<Rightarrow> u64 list" where
  "context_switch_stub g rf stack = fold (#)
     [g_rax g, g_cr3 g, g_rbx g, g_rcx g, g_rdx g, g_rsi g, g_rdi g, g_rbp g, g_r8 g, g_r9 g,
      g_r10 g, g_r11 g, g_r12 g, g_r13 g, g_r14 g, g_r15 g, 0, 0x8, 0x10, rf, 0] stack"

text \<open>\<open>context_switch\<close> receives the captured words and, behind them, the interrupt frame.\<close>

definition context_capture :: "u64 list \<Rightarrow> cpu_status" where
  "context_capture stack =
     (let capture = load_status (take 21 stack); f = drop 21 stack in
      capture\<lparr>rsp := f ! 3, rip := f ! 0, cs := f ! 1, ss := f ! 4, rflags := f ! 2\<rparr>)"

text \<open>
  \<open>restore_cpu_status\<close>: \<open>at n\<close> is \<open>[rdi + n]\<close>. The pushes build the frame that
  \<open>iretq\<close> pops; \<open>rax\<close> and \<open>rdi\<close> are pushed and popped around the write to \<open>cr3\<close>.
\<close>

definition restore_cpu_status :: "cpu_status \<Rightarrow> registers \<times> interrupt_frame" where
  "restore_cpu_status c =
     (let at = (\<lambda>n. status_words c ! (n div 8));
          s1 = fold (#) [at 16, at 0, at 8, at 24, at 32] [];
          s2 = fold (#) [at 0x70, at 0xA0] s1 in
      (\<lparr>g_rax = s2 ! 0, g_rbx = at 144, g_rcx = at 136, g_rdx = at 128, g_rsi = at 120,
        g_rdi = s2 ! 1, g_rbp = at 104, g_r8 = at 96, g_r9 = at 88, g_r10 = at 80, g_r11 = at 72,
        g_r12 = at 64, g_r13 = at 56, g_r14 = at 48, g_r15 = at 40, g_cr3 = at 0x98\<rparr>,
       \<lparr>insturaction = s2 ! 2, code_segment = s2 ! 3, flags = s2 ! 4, stack_pointer = s2 ! 5,
        stack_segment = s2 ! 6\<rparr>))"

lemmas context_defs = context_switch_stub_def context_capture_def restore_cpu_status_def
  status_words_def load_status_def frame_words_def

lemma status_words_load: "load_status (status_words c) = c"
  by (simp add: context_defs)

text \<open>
  A timer interrupt that does not switch process is invisible to the interrupted code:
  the words \<open>context_switch_stub\<close> pushes, read back as a \<open>CPUStatus\<close> and completed from
  the interrupt frame, restore every general register, \<open>cr3\<close> and the frame itself.
\<close>
lemma context_switch_roundtrip:
  "restore_cpu_status (context_capture (context_switch_stub g rf (frame_words f))) = (g, f)"
  by (simp add: context_defs Let_def)

text \<open>
  \<open>restore_cpu_status\<close> loses nothing of a \<open>CPUStatus\<close>: interrupting right after it
  captures the same status again, whatever status the scheduler chose.
\<close>
lemma restore_capture_roundtrip:
  "(case restore_cpu_status c of (g, f) \<Rightarrow>
     context_capture (context_switch_stub g rf (frame_words f))) = c"
  by (simp add: context_defs Let_def)

interpretation cpu: context_store "\<lambda>rf (g, f). context_capture (context_switch_stub g rf (frame_words f))" restore_cpu_status
  by unfold_locales (use context_switch_roundtrip restore_capture_roundtrip in \<open>auto split: prod.splits\<close>)

end
