(* ===== verification/Scheduler.thy ===== *)
theory Scheduler
  imports Heap_Growth Cpu_Context "HOL-Library.Sublist"
begin

text \<open>
  \<open>kernel/src/threading/mod.rs\<close>: processes and the round-robin scheduler.

  The chain of boxed processes that starts at \<open>head\<close> is the list \<open>processes\<close>, head
  first, and the raw pointer \<open>current_process\<close> is an index into it: only the process
  behind the current one is ever removed, so the pointer never dangles. The heap blocks
  behind the boxes are not tracked. \<open>switch\<close> may loop forever (when no process can run), which is
  the value \<open>None\<close>.
\<close>

section \<open>Processes\<close>

record kernel =
  heap :: linked_list_allocator
  mach :: machine

datatype process_status = Waiting | Running | WaitingForBurying

record process =
  pid :: u64
  pname :: "u8 list"
  status :: process_status
  pcontext :: cpu_status
  root_page_table :: virt_addr
  stack_end :: usize

definition STACK_SIZE :: usize where "STACK_SIZE = 4096 * 4"

definition STACK_LAYOUT :: layout where
  "STACK_LAYOUT = \<lparr>l_size = STACK_SIZE, l_align = 1\<rparr>"

text \<open>\<open>rposition\<close> of a non-zero byte, then the slice up to and including it.\<close>

fun rposition :: "('a \<Rightarrow> bool) \<Rightarrow> 'a list \<Rightarrow> nat option" where
  "rposition P [] = None"
| "rposition P (x # xs) =
     (case rposition P xs of
        Some i \<Rightarrow> Some (Suc i)
      | None \<Rightarrow> if P x then Some 0 else None)"

definition trim_trailing_zeros :: "u8 list \<Rightarrow> u8 list" where
  "trim_trailing_zeros sl =
     (case rposition (\<lambda>x. x \<noteq> 0) sl of
        Some last_non_zero \<Rightarrow> take (Suc last_non_zero) sl
      | None \<Rightarrow> [])"

text \<open>The pointer that \<open>alloc_mut\<close> returns is not compared with null.\<close>

definition alloc_stack :: "kernel \<Rightarrow> (virt_addr \<times> kernel) rust option" where
  "alloc_stack k =
     map_option (\<lambda>r. rbind r (\<lambda>(p, h, m). Inr (p + STACK_SIZE, \<lparr>heap = h, mach = m\<rparr>)))
       (alloc_mut STACK_LAYOUT (heap k) (mach k))"

definition name_field :: "u8 list \<Rightarrow> u8 list rust" where
  "name_field name_bytes =
     (let len = min (length name_bytes) 64 in
      rbind (slice name_bytes 0 len) (copy_into (replicate 64 0) 0 len))"

definition process_create :: "usize \<Rightarrow> u64 \<Rightarrow> u8 list \<Rightarrow> kernel \<Rightarrow> (process \<times> kernel) rust option" where
  "process_create function i name k =
     (case name_field name of
        Inl p \<Rightarrow> Some (Inl p)
      | Inr name' \<Rightarrow>
          map_option (\<lambda>r.
            rbind r (\<lambda>(stk, k1).
            rbind (allocate_pml4 (mach k1)) (\<lambda>(root, m2).
            case root of
              Inl _ \<Rightarrow> Inl UnwrapFailed
            | Inr root \<Rightarrow>
                let ctx = cpu_status_default\<lparr>rsp := stk, rip := function, rflags := 0x202,
                      ss := 0x10, cs := 0x8, ctx_cr3 := root\<rparr> in
                rbind (add_w root (phy_offset m2)) (\<lambda>rpt.
                Inr (\<lparr>pid = i, pname = name', status = Waiting, pcontext = ctx,
                      root_page_table = rpt, stack_end = stk\<rparr>,
                     k1\<lparr>mach := m2\<rparr>)))))
            (alloc_stack k))"

definition process_free :: "process \<Rightarrow> kernel \<Rightarrow> kernel rust" where
  "process_free p k =
     rbind (dealloc_mut (stack_end p - STACK_SIZE) STACK_LAYOUT (heap k)) (\<lambda>h.
     rbind (pt_free 4 (root_page_table p) (mach k)) (\<lambda>m.
     Inr \<lparr>heap = h, mach = m\<rparr>))"

section \<open>The scheduler\<close>

record scheduler =
  processes :: "process list"
  current_process :: nat
  next_pid :: u64

definition scheduler_init :: "usize \<Rightarrow> u8 list \<Rightarrow> kernel \<Rightarrow> (scheduler \<times> kernel) rust option" where
  "scheduler_init function name k =
     map_option (\<lambda>r. rbind r (\<lambda>(p, k'). Inr (\<lparr>processes = [p], current_process = 0, next_pid = 1\<rparr>, k')))
       (process_create function 0 name k)"

text \<open>One pass of the loop of \<open>switch\<close>: bury the process behind the current one, if it waits for it.\<close>

definition bury_next :: "process list \<Rightarrow> nat \<Rightarrow> kernel \<Rightarrow> (process list \<times> kernel) rust" where
  "bury_next ps cur k =
     (if Suc cur < length ps \<and> status (ps ! Suc cur) = WaitingForBurying
      then rbind (process_free (ps ! Suc cur) k) (\<lambda>k'. Inr (take (Suc cur) ps @ drop (Suc (Suc cur)) ps, k'))
      else Inr (ps, k))"

definition next_index :: "process list \<Rightarrow> nat \<Rightarrow> nat" where
  "next_index ps cur = (if Suc cur < length ps then Suc cur else 0)"

partial_function (option) switch_loop :: "process list \<Rightarrow> nat \<Rightarrow> kernel \<Rightarrow>
    (process list \<times> nat \<times> kernel) rust option" where
  "switch_loop ps cur k =
     (case bury_next ps cur k of
        Inl p \<Rightarrow> Some (Inl p)
      | Inr (ps', k') \<Rightarrow>
          if status (ps' ! next_index ps' cur) = Waiting
          then Some (Inr (ps'[next_index ps' cur := (ps' ! next_index ps' cur)\<lparr>status := Running\<rparr>],
                 next_index ps' cur, k'))
          else switch_loop ps' (next_index ps' cur) k')"

definition save_current :: "cpu_status \<Rightarrow> process \<Rightarrow> process" where
  "save_current ctx p =
     (let p' = p\<lparr>pcontext := ctx\<rparr> in
      if status p' \<noteq> WaitingForBurying then p'\<lparr>status := Waiting\<rparr> else p')"

definition switch :: "cpu_status \<Rightarrow> scheduler \<Rightarrow> kernel \<Rightarrow> (cpu_status \<times> scheduler \<times> kernel) rust option" where
  "switch ctx s k =
     (let cur = current_process s;
          ps = (processes s)[cur := save_current ctx (processes s ! cur)] in
      map_option (\<lambda>r. rbind r (\<lambda>(ps', cur', k').
          Inr (pcontext (ps' ! cur'), s\<lparr>processes := ps', current_process := cur'\<rparr>, k')))
        (switch_loop ps cur k))"

definition add_process :: "process \<Rightarrow> scheduler \<Rightarrow> scheduler" where
  "add_process p s = s\<lparr>processes := processes s @ [p]\<rparr>"

text \<open>
  The loops of \<open>pkill\<close> and \<open>pkillall\<close>: \<open>current\<close> starts at the head, and the body runs
  only while \<open>current\<close> has a successor.
\<close>

fun find_process :: "(process \<Rightarrow> bool) \<Rightarrow> process list \<Rightarrow> nat option" where
  "find_process P (p # q # ps) =
     (if P p then Some 0
      else if P q then Some 1
      else map_option Suc (find_process P (q # ps)))"
| "find_process P ps = None"

definition pkill :: "u64 \<Rightarrow> scheduler \<Rightarrow> (unit + unit) \<times> scheduler" where
  "pkill i s =
     (case find_process (\<lambda>p. pid p = i) (processes s) of
        None \<Rightarrow> (Inl (), s)
      | Some j \<Rightarrow> (Inr (), s\<lparr>processes :=
          (processes s)[j := (processes s ! j)\<lparr>status := WaitingForBurying\<rparr>]\<rparr>))"

fun pkill_list :: "u64 list \<Rightarrow> scheduler \<Rightarrow> (unit + unit) \<times> scheduler" where
  "pkill_list [] s = (Inr (), s)"
| "pkill_list (i # is) s =
     (case pkill i s of (Inl e, s') \<Rightarrow> (Inl e, s') | (Inr _, s') \<Rightarrow> pkill_list is s')"

definition pkillall :: "u8 list \<Rightarrow> scheduler \<Rightarrow> (unit + unit) \<times> scheduler" where
  "pkillall name s =
     (let plist = (case find_process (\<lambda>p. trim_trailing_zeros (pname p) = name) (processes s) of
          None \<Rightarrow> [] | Some j \<Rightarrow> [pid (processes s ! j)]) in
      if plist = [] then (Inl (), s) else pkill_list plist s)"

definition create_process :: "usize \<Rightarrow> u8 list \<Rightarrow> scheduler \<Rightarrow> kernel \<Rightarrow> (scheduler \<times> kernel) rust option" where
  "create_process function name s k =
     map_option (\<lambda>r.
       rbind r (\<lambda>(p, k').
       let s1 = add_process p s in
       rbind (add_w (next_pid s1) 1) (\<lambda>n. Inr (s1\<lparr>next_pid := n\<rparr>, k'))))
       (process_create function (next_pid s) name k)"

definition context_switch :: "cpu_status \<Rightarrow> scheduler option \<Rightarrow> kernel \<Rightarrow>
    (cpu_status \<times> scheduler option \<times> kernel) rust option" where
  "context_switch capture sched k =
     (case sched of
        None \<Rightarrow> Some (Inr (capture, None, k))
      | Some s \<Rightarrow> map_option (\<lambda>r. rbind r (\<lambda>(c, s', k'). Inr (c, Some s', k'))) (switch capture s k))"

end
