(* ===== verification/Scheduling.thy ===== *)
theory Scheduling
  imports Scheduler
begin

text \<open>
  What the scheduler promises: round-robin choice of the next process, the invariant of its
  process list, and what killing a process does.
\<close>

section \<open>Round robin\<close>

text \<open>The processes in the order in which they get their turn; the current one is last.\<close>

definition turn_order :: "process list \<Rightarrow> nat \<Rightarrow> process list" where
  "turn_order ps cur = drop (Suc cur) ps @ take (Suc cur) ps"

text \<open>\<open>ps'\<close> is \<open>ps\<close> with some of the processes that wait for burying removed.\<close>

definition buried :: "process list \<Rightarrow> process list \<Rightarrow> bool" where
  "buried ps ps' \<longleftrightarrow> subseq ps' ps \<and> (\<forall>p \<in> set ps. status p \<noteq> WaitingForBurying \<longrightarrow> p \<in> set ps')"

lemma buried_refl: "buried ps ps" by (simp add: buried_def)

lemma buried_trans: "buried ps ps' \<Longrightarrow> buried ps' ps'' \<Longrightarrow> buried ps ps''"
  unfolding buried_def by (meson subseq_order.order_trans)

lemma turn_order_step:
  assumes "cur < length ps"
  shows "\<exists>R. turn_order ps cur = ps ! next_index ps cur # R \<and>
    turn_order ps (next_index ps cur) = R @ [ps ! next_index ps cur]"
proof (cases "Suc cur < length ps")
  case True
  then show ?thesis
    by (simp add: turn_order_def next_index_def Cons_nth_drop_Suc [symmetric] take_Suc_conv_app_nth)
next
  case False
  then obtain p ps' where ps: "ps = p # ps'" using assms by (cases ps) auto
  have "Suc cur = length ps" using False assms by simp
  then show ?thesis by (simp add: turn_order_def next_index_def ps)
qed

lemma bury_step:
  assumes cur: "cur < length ps" and b: "bury_next ps cur k = Inr (ps', k')"
  shows "buried ps ps'" and "cur < length ps'"
    and "turn_order ps cur = turn_order ps' cur \<or>
      (\<exists>p. status p = WaitingForBurying \<and> turn_order ps cur = p # turn_order ps' cur)"
proof -
  have "buried ps ps' \<and> cur < length ps' \<and> (turn_order ps cur = turn_order ps' cur \<or>
      (\<exists>p. status p = WaitingForBurying \<and> turn_order ps cur = p # turn_order ps' cur))"
  proof (cases "Suc cur < length ps \<and> status (ps ! Suc cur) = WaitingForBurying")
    case True
    then have split: "ps = take (Suc cur) ps @ ps ! Suc cur # drop (Suc (Suc cur)) ps"
      by (simp add: id_take_nth_drop)
    have ps': "ps' = take (Suc cur) ps @ drop (Suc (Suc cur)) ps"
      using b True by (auto simp: bury_next_def rust_simps)
    have len: "length (take (Suc cur) ps) = Suc cur" using True by simp
    have "turn_order ps cur = ps ! Suc cur # turn_order ps' cur"
      using True len by (simp add: turn_order_def ps' Cons_nth_drop_Suc)
    moreover have "subseq (take (Suc cur) ps @ drop (Suc (Suc cur)) ps)
        (take (Suc cur) ps @ ps ! Suc cur # drop (Suc (Suc cur)) ps)"
      by (intro list_emb_append_mono subseq_order.order_refl list_emb_Cons)
    then have "subseq ps' ps" using split ps' by simp
    moreover have "p \<in> set ps'" if "p \<in> set ps" "status p \<noteq> WaitingForBurying" for p
    proof -
      have "p \<in> insert (ps ! Suc cur) (set ps')"
        using that(1) by (subst (asm) split) (auto simp: ps')
      then show ?thesis using that(2) True by auto
    qed
    ultimately show ?thesis using True len by (auto simp: buried_def ps')
  next
    case False
    then have "ps' = ps" using b by (auto simp: bury_next_def)
    then show ?thesis using cur buried_refl by simp
  qed
  then show "buried ps ps'" "cur < length ps'"
    "turn_order ps cur = turn_order ps' cur \<or>
      (\<exists>p. status p = WaitingForBurying \<and> turn_order ps cur = p # turn_order ps' cur)" by blast+
qed

text \<open>A turn order in which \<open>w\<close> is the first process that can run.\<close>

definition runs_next :: "process list \<Rightarrow> process \<Rightarrow> bool" where
  "runs_next order w \<longleftrightarrow> find (\<lambda>p. status p = Waiting) order = Some w"

lemma runs_next_Cons:
  "runs_next (p # order) w \<longleftrightarrow> (if status p = Waiting then p = w else runs_next order w)"
  by (simp add: runs_next_def)

lemma runs_next_append: "runs_next order w \<Longrightarrow> runs_next (order @ rest) w"
  by (induction order) (auto simp: runs_next_def split: if_splits)

fun turns_until :: "process list \<Rightarrow> nat" where
  "turns_until [] = 0"
| "turns_until (p # ps) = (if status p = Waiting then 0 else Suc (turns_until ps))"

lemma turns_until_append: "runs_next order w \<Longrightarrow> turns_until (order @ rest) = turns_until order"
  by (induction order) (auto simp: runs_next_def split: if_splits)

lemma switch_loop_spec:
  assumes "cur < length ps" and "runs_next (turn_order ps cur) w"
  shows "\<exists>r. switch_loop ps cur k = Some r \<and>
    (\<forall>ps2 cur2 k2. r = Inr (ps2, cur2, k2) \<longrightarrow>
      (\<exists>ps1. buried ps ps1 \<and> cur2 < length ps1 \<and> ps1 ! cur2 = w \<and>
         ps2 = ps1[cur2 := w\<lparr>status := Running\<rparr>])) \<and>
    ((\<forall>p \<in> set ps. status p \<noteq> WaitingForBurying) \<longrightarrow> (\<exists>v. r = Inr v \<and> snd (snd v) = k))"
  using assms
proof (induction "turns_until (turn_order ps cur)" arbitrary: ps cur k rule: less_induct)
  case less
  show ?case
  proof (cases "bury_next ps cur k")
    case (Inl p)
    moreover have "\<exists>p \<in> set ps. status p = WaitingForBurying"
      using Inl by (auto simp: bury_next_def split: if_splits)
    ultimately show ?thesis by (subst switch_loop.simps) auto
  next
    case (Inr x)
    obtain ps' k' where b: "bury_next ps cur k = Inr (ps', k')" using Inr by (cases x) auto
    let ?n = "next_index ps' cur"
    note bs = bury_step [OF less.prems(1) b]
    obtain R where R: "turn_order ps' cur = ps' ! ?n # R" "turn_order ps' ?n = R @ [ps' ! ?n]"
      using turn_order_step [OF bs(2)] by blast
    have run': "runs_next (turn_order ps' cur) w"
      using bs(3) less.prems(2) by (auto simp: runs_next_Cons)
    have turns: "turns_until (turn_order ps' cur) \<le> turns_until (turn_order ps cur)"
      using bs(3) by auto
    have n: "?n < length ps'" using bs(2) by (auto simp: next_index_def)
    have keep: "ps' = ps \<and> k' = k" if "\<forall>p \<in> set ps. status p \<noteq> WaitingForBurying"
      using b that by (auto simp: bury_next_def split: if_splits)
    show ?thesis
    proof (cases "status (ps' ! ?n) = Waiting")
      case True
      then have "ps' ! ?n = w" using run' R(1) by (simp add: runs_next_Cons)
      then show ?thesis using True b bs(1) n keep by (subst switch_loop.simps) auto
    next
      case False
      then have w: "runs_next R w" using run' R(1) by (simp add: runs_next_Cons)
      then have "runs_next (turn_order ps' ?n) w"
        "turns_until (turn_order ps' ?n) < turns_until (turn_order ps cur)"
        using R turns False runs_next_append turns_until_append by auto
      from less.hyps [OF this(2) n this(1), of k'] obtain r where
        r: "switch_loop ps' ?n k' = Some r"
        and res: "\<And>ps2 cur2 k2. r = Inr (ps2, cur2, k2) \<Longrightarrow>
          \<exists>ps1. buried ps' ps1 \<and> cur2 < length ps1 \<and> ps1 ! cur2 = w \<and> ps2 = ps1[cur2 := w\<lparr>status := Running\<rparr>]"
        and ok: "(\<forall>p \<in> set ps'. status p \<noteq> WaitingForBurying) \<longrightarrow> (\<exists>v. r = Inr v \<and> snd (snd v) = k')"
        by blast
      have "switch_loop ps cur k = Some r" using r b False by (subst switch_loop.simps) simp
      then show ?thesis using res ok keep buried_trans [OF bs(1)] by fastforce
    qed
  qed
qed

text \<open>The process list as \<open>switch\<close> leaves it before it looks for the next process.\<close>

definition saved :: "cpu_status \<Rightarrow> scheduler \<Rightarrow> process list" where
  "saved ctx s = (processes s)[current_process s := save_current ctx (processes s ! current_process s)]"

text \<open>
  C5: when some process can run, \<open>switch\<close> does not loop forever: it returns the context of the first process that is
  \<open>Waiting\<close>, counting from the one behind the current process, around the end of the list and back to
  the current process itself. That process is now the current one and \<open>Running\<close>; the others are as they were, except that
  some that waited for burying are gone. It can only panic while burying a process, so
  without such a process it always succeeds and leaves memory alone.
\<close>
theorem switch_round_robin:
  assumes cur: "current_process s < length (processes s)"
    and w: "runs_next (turn_order (saved ctx s) (current_process s)) w"
  shows "\<exists>r. switch ctx s k = Some r \<and>
    (\<forall>c s' k'. r = Inr (c, s', k') \<longrightarrow>
       c = pcontext w \<and> next_pid s' = next_pid s \<and> current_process s' < length (processes s') \<and>
       processes s' ! current_process s' = w\<lparr>status := Running\<rparr> \<and>
       buried (saved ctx s) ((processes s')[current_process s' := w])) \<and>
    ((\<forall>p \<in> set (saved ctx s). status p \<noteq> WaitingForBurying) \<longrightarrow> (\<exists>c s'. r = Inr (c, s', k)))"
proof -
  have len: "current_process s < length (saved ctx s)" using cur by (simp add: saved_def)
  from switch_loop_spec [OF len w, of k] obtain r where
    r: "switch_loop (saved ctx s) (current_process s) k = Some r"
    and res: "\<And>ps2 cur2 k2. r = Inr (ps2, cur2, k2) \<Longrightarrow>
      \<exists>ps1. buried (saved ctx s) ps1 \<and> cur2 < length ps1 \<and> ps1 ! cur2 = w \<and> ps2 = ps1[cur2 := w\<lparr>status := Running\<rparr>]"
    and ok: "(\<forall>p \<in> set (saved ctx s). status p \<noteq> WaitingForBurying) \<longrightarrow> (\<exists>v. r = Inr v \<and> snd (snd v) = k)"
    by blast
  have run: "switch ctx s k = Some (rbind r (\<lambda>(ps', cur', k').
      Inr (pcontext (ps' ! cur'), s\<lparr>processes := ps', current_process := cur'\<rparr>, k')))"
    using r by (simp add: switch_def saved_def Let_def)
  show ?thesis
  proof (cases r)
    case (Inl p)
    then show ?thesis using run ok by auto
  next
    case (Inr v)
    obtain ps2 cur2 k2 where v: "v = (ps2, cur2, k2)" by (cases v)
    from res [of ps2 cur2 k2] Inr v obtain ps1 where
      p1: "buried (saved ctx s) ps1" "cur2 < length ps1" "ps1 ! cur2 = w" "ps2 = ps1[cur2 := w\<lparr>status := Running\<rparr>]"
      by blast
    have "ps2[cur2 := w] = ps1" using p1 by (simp add: list_update_id [of ps1 cur2, unfolded p1(3)])
    then show ?thesis using run Inr v p1 ok by auto
  qed
qed

definition example_process :: "u64 \<Rightarrow> process_status \<Rightarrow> process" where
  "example_process i st = \<lparr>pid = i, pname = replicate 64 0, status = st,
     pcontext = cpu_status_default\<lparr>rip := i\<rparr>, root_page_table = 0, stack_end = 0\<rparr>"

definition example_scheduler :: scheduler where
  "example_scheduler = \<lparr>processes = [example_process 0 Running, example_process 1 Waiting],
     current_process = 0, next_pid = 2\<rparr>"

definition example_kernel :: kernel where
  "example_kernel = \<lparr>heap = linked_list_allocator_new, mach = example_machine\<rparr>"

theorem switch_round_robin_witness:
  "\<exists>c s'. switch cpu_status_default example_scheduler example_kernel = Some (Inr (c, s', example_kernel)) \<and> rip c = 1 \<and>
     pid (processes s' ! current_process s') = 1"
proof -
  let ?w = "example_process 1 Waiting"
  have cur: "current_process example_scheduler < length (processes example_scheduler)"
    by (simp add: example_scheduler_def)
  have w: "runs_next (turn_order (saved cpu_status_default example_scheduler) (current_process example_scheduler)) ?w"
    by (simp add: runs_next_def turn_order_def saved_def example_scheduler_def example_process_def)
  have "\<forall>p \<in> set (saved cpu_status_default example_scheduler). status p \<noteq> WaitingForBurying"
    by (simp add: saved_def save_current_def example_scheduler_def example_process_def)
  with switch_round_robin [OF cur w, of example_kernel] obtain c s' where
    "switch cpu_status_default example_scheduler example_kernel = Some (Inr (c, s', example_kernel))" "c = pcontext ?w"
    "processes s' ! current_process s' = ?w\<lparr>status := Running\<rparr>" by auto
  then show ?thesis by (simp add: example_process_def)
qed

lemma runs_next_exists: "\<exists>p \<in> set order. status p = Waiting \<Longrightarrow> \<exists>w. runs_next order w"
  by (cases "find (\<lambda>p. status p = Waiting) order") (auto simp: runs_next_def find_None_iff)

lemma set_turn_order: "set (turn_order ps cur) = set ps"
  unfolding turn_order_def by (metis Un_commute append_take_drop_id set_append)

text \<open>
  \<open>switch\<close> always returns when the interrupted process has not been killed: that process becomes \<open>Waiting\<close>
  again and is chosen when nobody else can run.
\<close>
lemma switch_returns:
  assumes cur: "current_process s < length (processes s)"
    and alive: "status (processes s ! current_process s) \<noteq> WaitingForBurying"
  shows "\<exists>r. switch ctx s k = Some r"
proof -
  have "status (saved ctx s ! current_process s) = Waiting"
    using cur alive by (simp add: saved_def save_current_def Let_def)
  moreover have "saved ctx s ! current_process s \<in> set (saved ctx s)"
    using cur by (intro nth_mem) (simp add: saved_def)
  ultimately obtain w where "runs_next (turn_order (saved ctx s) (current_process s)) w"
    using runs_next_exists [of "turn_order (saved ctx s) (current_process s)"] by (auto simp: set_turn_order)
  then have "\<exists>r. switch_loop (saved ctx s) (current_process s) k = Some r"
    using switch_loop_spec [of "current_process s" "saved ctx s" w k] cur by (auto simp: saved_def)
  then show ?thesis by (auto simp: switch_def saved_def Let_def)
qed

lemma switch_returns_example: "\<exists>r. switch cpu_status_default example_scheduler example_kernel = Some r"
  by (rule switch_returns) (simp_all add: example_scheduler_def example_process_def)

text \<open>A list in which no process can run: the loop never finds one.\<close>

lemma switch_loop_stuck:
  "switch_loop ps cur k = Some r \<Longrightarrow> cur < length ps \<longrightarrow> (\<forall>p \<in> set ps. status p \<noteq> Waiting) \<longrightarrow> (\<exists>p. r = Inl p)"
proof (rule switch_loop.raw_induct [where P = "\<lambda>ps cur k r. cur < length ps \<longrightarrow>
    (\<forall>p \<in> set ps. status p \<noteq> Waiting) \<longrightarrow> (\<exists>p. r = Inl p)"])
  fix loop :: "process list \<Rightarrow> nat \<Rightarrow> kernel \<Rightarrow> (process list \<times> nat \<times> kernel) rust option" and ps cur k r
  assume IH: "\<And>ps cur k r. loop ps cur k = Some r \<Longrightarrow> cur < length ps \<longrightarrow>
      (\<forall>p \<in> set ps. status p \<noteq> Waiting) \<longrightarrow> (\<exists>p. r = Inl p)"
    and step: "(case bury_next ps cur k of
        Inl p \<Rightarrow> Some (Inl p)
      | Inr (ps', k') \<Rightarrow>
          if status (ps' ! next_index ps' cur) = Waiting
          then Some (Inr (ps'[next_index ps' cur := (ps' ! next_index ps' cur)\<lparr>status := Running\<rparr>],
                 next_index ps' cur, k'))
          else loop ps' (next_index ps' cur) k') = Some r"
  show "cur < length ps \<longrightarrow> (\<forall>p \<in> set ps. status p \<noteq> Waiting) \<longrightarrow> (\<exists>p. r = Inl p)"
  proof (intro impI)
    assume cur: "cur < length ps" and none: "\<forall>p \<in> set ps. status p \<noteq> Waiting"
    show "\<exists>p. r = Inl p"
    proof (cases "bury_next ps cur k")
      case (Inl p)
      then show ?thesis using step by auto
    next
      case (Inr x)
      obtain ps' k' where b: "bury_next ps cur k = Inr (ps', k')" using Inr by (cases x) auto
      note bs = bury_step [OF cur b]
      have n: "next_index ps' cur < length ps'" using bs(2) by (auto simp: next_index_def)
      have "set ps' \<subseteq> set ps" using bs(1) by (auto simp: buried_def dest: list_emb_set)
      then have none': "\<forall>p \<in> set ps'. status p \<noteq> Waiting" using none by auto
      then have "status (ps' ! next_index ps' cur) \<noteq> Waiting" using n by simp
      then have "loop ps' (next_index ps' cur) k' = Some r" using step b by simp
      then show ?thesis using IH n none' by blast
    qed
  qed
qed

text \<open>
  Once every process has been killed, \<open>switch\<close> never hands over to a process again: it loops forever, or
  panics while burying. (The head of the list is never buried, so the list does not become empty.)
\<close>
lemma switch_stuck:
  assumes cur: "current_process s < length (processes s)"
    and dead: "\<forall>p \<in> set (processes s). status p = WaitingForBurying"
  shows "switch ctx s k = None \<or> (\<exists>p. switch ctx s k = Some (Inl p))"
proof (cases "switch_loop (saved ctx s) (current_process s) k")
  case None
  then show ?thesis by (simp add: switch_def saved_def Let_def)
next
  case (Some r)
  have "status (save_current ctx (processes s ! current_process s)) = WaitingForBurying"
    using dead cur by (simp add: save_current_def Let_def)
  then have "status p \<noteq> Waiting" if "p \<in> set (saved ctx s)" for p
    using that dead set_update_subset_insert [of "processes s" "current_process s"]
    by (fastforce simp: saved_def)
  then have "\<exists>p. r = Inl p"
    using switch_loop_stuck [OF Some] cur by (simp add: saved_def)
  then show ?thesis using Some by (auto simp: switch_def saved_def Let_def)
qed

lemma switch_stuck_example:
  "switch cpu_status_default \<lparr>processes = [example_process 0 WaitingForBurying], current_process = 0, next_pid = 1\<rparr> example_kernel = None \<or>
   (\<exists>p. switch cpu_status_default \<lparr>processes = [example_process 0 WaitingForBurying], current_process = 0, next_pid = 1\<rparr> example_kernel = Some (Inl p))"
  by (rule switch_stuck) (simp_all add: example_process_def)

section \<open>Killing processes\<close>

text \<open>\<open>find_process\<close> finds the first match, but looks at nothing when the head is alone.\<close>

lemma find_process_Some:
  "find_process P ps = Some j \<Longrightarrow> j < length ps \<and> P (ps ! j) \<and> (\<forall>i < j. \<not> P (ps ! i))"
proof (induction P ps arbitrary: j rule: find_process.induct)
  case (1 P p q ps)
  show ?case
  proof (cases "P p \<or> P q")
    case True
    then show ?thesis using 1(2) by (auto split: if_splits)
  next
    case False
    then obtain i where i: "find_process P (q # ps) = Some i" "j = Suc i" using 1(2) by auto
    then have IH: "i < length (q # ps) \<and> P ((q # ps) ! i) \<and> (\<forall>n < i. \<not> P ((q # ps) ! n))"
      using 1(1) False by blast
    have "\<not> P ((p # q # ps) ! n)" if "n < j" for n
      using that IH i(2) False by (cases n) auto
    then show ?thesis using IH i(2) by simp
  qed
qed auto

lemma find_process_None:
  "find_process P ps = None \<longleftrightarrow> length ps < 2 \<or> (\<forall>p \<in> set ps. \<not> P p)"
proof (induction P ps rule: find_process.induct)
  case (1 P p q ps)
  then show ?case by (cases ps) auto
qed auto

text \<open>
  With at least two processes, \<open>pkill\<close> marks the process with the given pid, and no other, for burying, and returns an
  error and changes nothing when there is none. With the head alone it returns the error even for the pid of the head.
\<close>
lemma pkill_correct:
  assumes d: "distinct (map pid (processes s))"
  shows "pkill i s =
    (if 2 \<le> length (processes s) \<and> i \<in> pid ` set (processes s)
     then (Inr (), s\<lparr>processes := map (\<lambda>p. if pid p = i then p\<lparr>status := WaitingForBurying\<rparr> else p) (processes s)\<rparr>)
     else (Inl (), s))"
proof (cases "find_process (\<lambda>p. pid p = i) (processes s)")
  case None
  then have "length (processes s) < 2 \<or> i \<notin> pid ` set (processes s)" by (auto simp: find_process_None)
  then show ?thesis using None by (auto simp: pkill_def)
next
  case (Some j)
  let ?ps = "processes s" and ?f = "\<lambda>p. if pid p = i then p\<lparr>status := WaitingForBurying\<rparr> else p"
  note j = find_process_Some [OF Some]
  have two: "2 \<le> length ?ps" using Some find_process_None [of "\<lambda>p. pid p = i" ?ps] by auto
  have "?ps[j := (?ps ! j)\<lparr>status := WaitingForBurying\<rparr>] = map ?f ?ps"
  proof (rule nth_equalityI)
    fix n assume "n < length (?ps[j := (?ps ! j)\<lparr>status := WaitingForBurying\<rparr>])"
    then have n: "n < length ?ps" by simp
    have "pid (?ps ! n) = i \<longleftrightarrow> n = j"
      using nth_eq_iff_index_eq [OF d, of n j] j n by auto
    then show "?ps[j := (?ps ! j)\<lparr>status := WaitingForBurying\<rparr>] ! n = map ?f ?ps ! n"
      using n by (auto simp: nth_list_update)
  qed simp
  moreover have "i \<in> pid ` set ?ps" using j by force
  ultimately show ?thesis using Some two by (simp add: pkill_def)
qed

lemma pkill_correct_example:
  "pkill 1 example_scheduler = (Inr (), example_scheduler\<lparr>processes :=
     [example_process 0 Running, example_process 1 WaitingForBurying]\<rparr>)"
proof -
  have "distinct (map pid (processes example_scheduler))"
    by (simp add: example_scheduler_def example_process_def)
  from pkill_correct [OF this, of 1] show ?thesis
    by (simp add: example_scheduler_def example_process_def)
qed

text \<open>
  \<open>pkillall\<close> does not kill every process of the given name: it marks the first one in the list and leaves
  all others as they are.
\<close>
lemma pkillall_kills_first_only:
  assumes d: "distinct (map pid (processes s))" and k: "pkillall name s = (Inr (), s')"
  shows "\<exists>j < length (processes s). trim_trailing_zeros (pname (processes s ! j)) = name \<and>
    (\<forall>i < j. trim_trailing_zeros (pname (processes s ! i)) \<noteq> name) \<and>
    s' = s\<lparr>processes := (processes s)[j := (processes s ! j)\<lparr>status := WaitingForBurying\<rparr>]\<rparr>"
proof -
  let ?P = "\<lambda>p. trim_trailing_zeros (pname p) = name" and ?ps = "processes s"
  obtain j where f: "find_process ?P ?ps = Some j"
    using k by (auto simp: pkillall_def Let_def split: option.splits)
  note j = find_process_Some [OF f]
  let ?i = "pid (?ps ! j)"
  have "pkill_list [?i] s = (Inr (), s')" using k f by (simp add: pkillall_def)
  then have "pkill ?i s = (Inr (), s')" by (auto split: prod.splits sum.splits)
  then obtain n where n: "find_process (\<lambda>p. pid p = ?i) ?ps = Some n"
    and s': "s' = s\<lparr>processes := ?ps[n := (?ps ! n)\<lparr>status := WaitingForBurying\<rparr>]\<rparr>"
    by (auto simp: pkill_def split: option.splits)
  have "n = j" using find_process_Some [OF n] j nth_eq_iff_index_eq [OF d, of n j] by simp
  then show ?thesis using j s' by blast
qed

lemma rposition_append_zeros:
  "rposition (\<lambda>x. x \<noteq> 0) (xs @ replicate n 0) = rposition (\<lambda>x. x \<noteq> 0) xs" for xs :: "u8 list"
proof (induction xs)
  case Nil
  show ?case by (induction n) auto
qed simp

definition twin_scheduler :: scheduler where
  "twin_scheduler = \<lparr>processes = [example_process 0 Running, (example_process 1 Waiting)\<lparr>pname := [104]\<rparr>,
     (example_process 2 Waiting)\<lparr>pname := [104]\<rparr>], current_process = 0, next_pid = 3\<rparr>"

lemma pkillall_kills_first_only_example:
  "\<exists>s'. pkillall [104] twin_scheduler = (Inr (), s') \<and> status (processes s' ! 1) = WaitingForBurying \<and>
     status (processes s' ! 2) = Waiting \<and> pname (processes s' ! 2) = [104]"
proof -
  have trim: "trim_trailing_zeros (replicate 64 0) = []"
    using rposition_append_zeros [of "[]" 64] by (simp add: trim_trailing_zeros_def)
  have d: "distinct (map pid (processes twin_scheduler))"
    by (simp add: twin_scheduler_def example_process_def)
  have names: "trim_trailing_zeros (pname (processes twin_scheduler ! 0)) = []"
      "trim_trailing_zeros (pname (processes twin_scheduler ! 1)) = [104]"
    using trim by (simp_all add: twin_scheduler_def example_process_def) (simp add: trim_trailing_zeros_def)
  have "find_process (\<lambda>p. trim_trailing_zeros (pname p) = [104]) (processes twin_scheduler) = Some 1"
    using names by (simp add: twin_scheduler_def)
  then obtain s' where k: "pkillall [104] twin_scheduler = (Inr (), s')"
    using pkill_correct [OF d, of 1] by (auto simp: pkillall_def twin_scheduler_def example_process_def)
  from pkillall_kills_first_only [OF d k] obtain j where
    "trim_trailing_zeros (pname (processes twin_scheduler ! j)) = [104]"
    "\<forall>i < j. trim_trailing_zeros (pname (processes twin_scheduler ! i)) \<noteq> [104]"
    and s': "s' = twin_scheduler\<lparr>processes := (processes twin_scheduler)[j := (processes twin_scheduler ! j)\<lparr>status := WaitingForBurying\<rparr>]\<rparr>"
    by blast
  then have "j = 1" using names by (metis less_one linorder_neqE_nat list.distinct(1))
  then show ?thesis using k s' by (simp add: twin_scheduler_def example_process_def)
qed

section \<open>Names\<close>

lemma rposition_last: "xs \<noteq> [] \<Longrightarrow> P (last xs) \<Longrightarrow> rposition P xs = Some (length xs - 1)"
proof (induction xs)
  case (Cons x xs)
  then show ?case by (cases xs) auto
qed simp

lemma name_field_eq: "name_field n = Inr (take 64 n @ replicate (64 - length n) 0)"
  by (simp add: name_field_def slice_def copy_into_def min_def Let_def)

text \<open>
  The name of a process survives the 64-byte field it is stored in: any name of at most 64 bytes that does not end in a zero
  byte is what \<open>trim_trailing_zeros\<close> gives back, and a longer one is cut to 64 bytes.
\<close>
lemma process_name_roundtrip:
  assumes "take 64 n = [] \<or> last (take 64 n) \<noteq> 0"
  shows "\<exists>f. name_field n = Inr f \<and> length f = 64 \<and> trim_trailing_zeros f = take 64 n"
proof -
  let ?n = "take 64 n" and ?f = "take 64 n @ replicate (64 - length n) 0"
  have "rposition (\<lambda>x. x \<noteq> 0) ?f = rposition (\<lambda>x. x \<noteq> 0) ?n" by (rule rposition_append_zeros)
  also have "\<dots> = (if ?n = [] then None else Some (length ?n - 1))"
    using assms rposition_last [of ?n "\<lambda>x. x \<noteq> 0"] by auto
  finally have "trim_trailing_zeros ?f = ?n"
    by (simp add: trim_trailing_zeros_def min_def)
  then show ?thesis by (simp add: name_field_eq)
qed

lemma process_name_roundtrip_example:
  "\<exists>f. name_field [115, 104] = Inr f \<and> trim_trailing_zeros f = [115, 104]"
  using process_name_roundtrip [of "[115, 104]"] by auto

section \<open>The invariant of the scheduler\<close>

definition sched_inv :: "scheduler \<Rightarrow> bool" where
  "sched_inv s \<longleftrightarrow> current_process s < length (processes s) \<and> distinct (map pid (processes s)) \<and>
     (\<forall>p \<in> set (processes s). pid p < next_pid s \<and> length (pname p) = 64) \<and>
     (\<forall>i < length (processes s). status (processes s ! i) = Running \<longrightarrow> i = current_process s)"

text \<open>Every operation of the scheduler; the rest of the kernel may change memory in between.\<close>

inductive sched_run :: "scheduler \<Rightarrow> bool" where
  init: "scheduler_init function name k = Some (Inr (s, k')) \<Longrightarrow> sched_run s"
| create: "sched_run s \<Longrightarrow> create_process function name s k = Some (Inr (s', k')) \<Longrightarrow> sched_run s'"
| switch: "sched_run s \<Longrightarrow> switch ctx s k = Some (Inr (c, s', k')) \<Longrightarrow> sched_run s'"
| pkill: "sched_run s \<Longrightarrow> pkill i s = (r, s') \<Longrightarrow> sched_run s'"
| pkillall: "sched_run s \<Longrightarrow> pkillall name s = (r, s') \<Longrightarrow> sched_run s'"

lemma process_create_fields:
  assumes "process_create function i name k = Some (Inr (p, k'))"
  shows "pid p = i" and "length (pname p) = 64" and "status p = Waiting"
    and "rip (pcontext p) = function" and "rsp (pcontext p) = stack_end p"
proof -
  have "pid p = i \<and> length (pname p) = 64 \<and> status p = Waiting \<and> rip (pcontext p) = function \<and>
      rsp (pcontext p) = stack_end p"
    using assms by (auto simp: process_create_def name_field_eq rust_simps Let_def case_sum_eq)
  then show "pid p = i" "length (pname p) = 64" "status p = Waiting" "rip (pcontext p) = function"
    "rsp (pcontext p) = stack_end p" by auto
qed

lemma init_inv:
  assumes "scheduler_init function name k = Some (Inr (s, k'))"
  shows "sched_inv s"
proof -
  from assms obtain p where p: "process_create function 0 name k = Some (Inr (p, k'))"
    and s: "s = \<lparr>processes = [p], current_process = 0, next_pid = 1\<rparr>"
    by (auto simp: scheduler_init_def rust_simps)
  show ?thesis using process_create_fields [OF p] by (simp add: sched_inv_def s)
qed

lemma create_inv:
  assumes inv: "sched_inv s" and c: "create_process function name s k = Some (Inr (s', k'))"
  shows "sched_inv s'"
proof -
  from c obtain p where p: "process_create function (next_pid s) name k = Some (Inr (p, k'))"
    and n: "unat (next_pid s) + 1 < 2 ^ 64"
    and s': "s' = s\<lparr>processes := processes s @ [p], next_pid := next_pid s + 1\<rparr>"
    by (auto simp: create_process_def add_process_def rust_simps Let_def)
  note f = process_create_fields [OF p]
  have lt: "i < next_pid s + 1" if "i \<le> next_pid s" for i
    using that n by (simp add: word_less_nat_alt word_le_nat_alt unat_add_small)
  have "pid q \<noteq> next_pid s" if "q \<in> set (processes s)" for q
    using that inv by (auto simp: sched_inv_def)
  then have "distinct (map pid (processes s'))" using inv f by (auto simp: sched_inv_def s')
  moreover have "status (processes s' ! i) = Running \<longrightarrow> i = current_process s'" if "i < length (processes s')" for i
    using that inv f by (auto simp: sched_inv_def s' nth_append less_Suc_eq)
  ultimately show ?thesis
    using inv f lt by (auto simp: sched_inv_def s' dest: less_imp_le)
qed

lemma distinct_subseq: "subseq xs ys \<Longrightarrow> distinct ys \<Longrightarrow> distinct xs"
  by (induction rule: list_emb.induct) (auto dest: list_emb_set)

lemma saved_inv:
  assumes "sched_inv s"
  shows "distinct (map pid (saved ctx s))"
    and "\<forall>p \<in> set (saved ctx s). pid p < next_pid s \<and> length (pname p) = 64 \<and> status p \<noteq> Running"
proof -
  let ?c = "current_process s" and ?ps = "processes s"
  have c: "?c < length ?ps" using assms by (simp add: sched_inv_def)
  have f: "pid (save_current ctx p) = pid p" "pname (save_current ctx p) = pname p"
    "status (save_current ctx p) \<noteq> Running" for p
    by (auto simp: save_current_def Let_def)
  have "map pid (saved ctx s) = map pid ?ps"
    by (simp add: saved_def map_update f) (simp flip: map_update)
  then show "distinct (map pid (saved ctx s))" using assms by (simp add: sched_inv_def)
  show "\<forall>p \<in> set (saved ctx s). pid p < next_pid s \<and> length (pname p) = 64 \<and> status p \<noteq> Running"
  proof
    fix p assume "p \<in> set (saved ctx s)"
    then obtain i where i: "i < length ?ps" "p = saved ctx s ! i"
      by (auto simp: in_set_conv_nth saved_def)
    show "pid p < next_pid s \<and> length (pname p) = 64 \<and> status p \<noteq> Running"
    proof (cases "i = ?c")
      case True
      then show ?thesis using i c assms f by (auto simp: saved_def sched_inv_def)
    next
      case False
      then show ?thesis using i assms by (auto simp: saved_def sched_inv_def)
    qed
  qed
qed

lemma switch_loop_inv:
  assumes "switch_loop ps cur k = Some (Inr (ps2, cur2, k2))" and "cur < length ps"
  shows "\<exists>ps1. buried ps ps1 \<and> cur2 < length ps1 \<and> ps2 = ps1[cur2 := (ps1 ! cur2)\<lparr>status := Running\<rparr>]"
proof -
  have "\<exists>p \<in> set (turn_order ps cur). status p = Waiting"
    using switch_loop_stuck [OF assms(1)] assms(2) by (auto simp: set_turn_order)
  then obtain w where "runs_next (turn_order ps cur) w" using runs_next_exists by blast
  from switch_loop_spec [OF assms(2) this, of k] assms(1) show ?thesis by fastforce
qed

lemma switch_inv:
  assumes inv: "sched_inv s" and sw: "switch ctx s k = Some (Inr (c, s', k'))"
  shows "sched_inv s'"
proof -
  obtain ps2 cur2 where l: "switch_loop (saved ctx s) (current_process s) k = Some (Inr (ps2, cur2, k'))"
    and s': "s' = s\<lparr>processes := ps2, current_process := cur2\<rparr>"
    using sw by (auto simp: switch_def saved_def Let_def rust_simps)
  have "current_process s < length (saved ctx s)" using inv by (simp add: sched_inv_def saved_def)
  from switch_loop_inv [OF l this] obtain ps1 where b: "buried (saved ctx s) ps1" "cur2 < length ps1"
    and ps2: "ps2 = ps1[cur2 := (ps1 ! cur2)\<lparr>status := Running\<rparr>]" by blast
  have sub: "subseq ps1 (saved ctx s)" using b(1) by (simp add: buried_def)
  have pids: "map pid ps2 = map pid ps1" by (simp add: ps2 map_update) (simp flip: map_update)
  have "distinct (map pid ps1)" using distinct_subseq [OF subseq_map [OF sub] saved_inv(1) [OF inv]] .
  moreover have set1: "set ps1 \<subseteq> set (saved ctx s)" using sub by (auto dest: list_emb_set)
  have "pid p < next_pid s \<and> length (pname p) = 64 \<and> status p \<noteq> Running" if "p \<in> set ps1" for p
    using that set1 saved_inv(2) [OF inv] by blast
  moreover have "set ps2 \<subseteq> insert ((ps1 ! cur2)\<lparr>status := Running\<rparr>) (set ps1)"
    by (simp add: ps2 set_update_subset_insert)
  ultimately show ?thesis
    using b(2) pids by (fastforce simp: sched_inv_def s' ps2 nth_list_update)
qed

lemma mark_inv:
  assumes "sched_inv s"
  shows "sched_inv (s\<lparr>processes := (processes s)[j := (processes s ! j)\<lparr>status := WaitingForBurying\<rparr>]\<rparr>)"
proof (cases "j < length (processes s)")
  case True
  have "map pid ((processes s)[j := (processes s ! j)\<lparr>status := WaitingForBurying\<rparr>]) = map pid (processes s)"
    by (simp add: map_update) (simp flip: map_update)
  moreover have "set ((processes s)[j := (processes s ! j)\<lparr>status := WaitingForBurying\<rparr>]) \<subseteq>
      insert ((processes s ! j)\<lparr>status := WaitingForBurying\<rparr>) (set (processes s))"
    by (rule set_update_subset_insert)
  ultimately show ?thesis using assms True by (fastforce simp: sched_inv_def nth_list_update)
qed (use assms in \<open>simp add: list_update_beyond\<close>)

lemma pkill_inv: "sched_inv s \<Longrightarrow> pkill i s = (r, s') \<Longrightarrow> sched_inv s'"
  using mark_inv by (auto simp: pkill_def split: option.splits)

lemma pkill_list_inv: "sched_inv s \<Longrightarrow> pkill_list is s = (r, s') \<Longrightarrow> sched_inv s'"
proof (induction "is" arbitrary: s)
  case (Cons i js)
  obtain r1 s1 where p: "pkill i s = (r1, s1)" by (cases "pkill i s")
  then have "sched_inv s1" using pkill_inv Cons.prems(1) by blast
  then show ?case using Cons p by (cases r1) auto
qed simp

lemma pkillall_inv: "sched_inv s \<Longrightarrow> pkillall name s = (r, s') \<Longrightarrow> sched_inv s'"
  using pkill_list_inv by (auto simp: pkillall_def Let_def split: if_splits)

lemma sched_run_keeps: "sched_run s \<Longrightarrow> sched_inv s"
  by (induction rule: sched_run.induct) (blast intro: init_inv create_inv switch_inv pkill_inv pkillall_inv)+

text \<open>
  C10: in every reachable state of the scheduler the current process is in the list, no two processes share a pid, every pid is below
  the next one to be handed out, every name fills its 64 bytes, and only the current process can be \<open>Running\<close>.
\<close>
theorem sched_run_inv:
  assumes "sched_run s"
  shows "current_process s < length (processes s) \<and> distinct (map pid (processes s)) \<and>
     (\<forall>p \<in> set (processes s). pid p < next_pid s \<and> length (pname p) = 64) \<and>
     (\<forall>i < length (processes s). status (processes s ! i) = Running \<longrightarrow> i = current_process s)"
  using sched_run_keeps [OF assms] by (simp add: sched_inv_def)

definition boot_kernel :: kernel where
  "boot_kernel = \<lparr>heap = \<lparr>free_list = [\<lparr>start_addr = 0x10000, n_size = 0x8000\<rparr>], heap_end = 0x18000\<rparr>,
     mach = example_machine\<rparr>"

lemma boot_stack:
  "alloc_stack boot_kernel = Some (Inr (0x14000, \<lparr>heap = \<lparr>free_list = [\<lparr>start_addr = 0x14000, n_size = 0x4000\<rparr>],
     heap_end = 0x18000\<rparr>, mach = example_machine\<rparr>))"
  by (simp add: alloc_stack_def boot_kernel_def STACK_LAYOUT_def STACK_SIZE_def heap_eval)

lemma boot_pml4: "\<exists>p m'. allocate_pml4 example_machine = Inr (Inr p, m') \<and> unat p + unat (phy_offset m') < 2 ^ 64"
proof -
  have "wf_machine example_machine" "used_table example_machine 0"
    using wf_spaceD(1) [OF example_machine_wf] wf_spaceD(4) [OF example_machine_wf] by simp_all
  moreover have "free_frames (frames example_machine) \<noteq> {}" using example_machine_frames by auto
  ultimately show ?thesis
    using allocate_pml4_spec [of example_machine 0] example_machine_root by metis
qed

lemma boot_sched: "\<exists>s. sched_run s"
proof -
  obtain p m' where "allocate_pml4 example_machine = Inr (Inr p, m')" "unat p + unat (phy_offset m') < 2 ^ 64"
    using boot_pml4 by blast
  then have "\<exists>s k'. scheduler_init 0x400000 [107] boot_kernel = Some (Inr (s, k'))"
    by (simp add: scheduler_init_def process_create_def name_field_eq boot_stack add_w_def Let_def)
  then show ?thesis using sched_run.init by blast
qed

theorem sched_run_inv_witness:
  "\<exists>s. sched_run s \<and> current_process s < length (processes s) \<and> distinct (map pid (processes s))"
  using boot_sched sched_run_inv by blast

end
