(* ===== verification/Btree_Map.thy ===== *)
theory Btree_Map
  imports Prelude "HOL-Library.Char_ord" "HOL-Library.List_Lexorder"
begin

text \<open>
  \<open>alloc::collections::BTreeMap\<close> as the kernel uses it: an association list in
  increasing order of its keys, with \<open>get\<close>, \<open>contains_key\<close>, \<open>insert\<close>, \<open>remove\<close> and
  \<open>values\<close>. Strings and byte vectors are compared lexicographically. What the file
  system relies on is the locale \<open>ordered_map\<close>, interpreted on these definitions.
\<close>

type_synonym ('k, 'v) btree_map = "('k \<times> 'v) list"

definition bt_get :: "('k, 'v) btree_map \<Rightarrow> 'k \<Rightarrow> 'v option" where
  "bt_get m k = map_of m k"

definition bt_contains :: "('k, 'v) btree_map \<Rightarrow> 'k \<Rightarrow> bool" where
  "bt_contains m k \<longleftrightarrow> bt_get m k \<noteq> None"

fun bt_insert :: "'k::linorder \<Rightarrow> 'v \<Rightarrow> ('k, 'v) btree_map \<Rightarrow> ('k, 'v) btree_map" where
  "bt_insert k v [] = [(k, v)]"
| "bt_insert k v ((j, w) # m) =
     (if k < j then (k, v) # (j, w) # m
      else if k = j then (k, v) # m
      else (j, w) # bt_insert k v m)"

definition bt_remove :: "'k \<Rightarrow> ('k, 'v) btree_map \<Rightarrow> ('k, 'v) btree_map" where
  "bt_remove k m = filter (\<lambda>(j, _). j \<noteq> k) m"

definition bt_values :: "('k, 'v) btree_map \<Rightarrow> 'v list" where
  "bt_values m = map snd m"

definition bt_inv :: "('k::linorder, 'v) btree_map \<Rightarrow> bool" where
  "bt_inv m \<longleftrightarrow> sorted_wrt (<) (map fst m)"

section \<open>The interface\<close>

locale ordered_map =
  fixes empty :: 'm
    and get :: "'m \<Rightarrow> 'k::linorder \<Rightarrow> 'v option"
    and insert :: "'k \<Rightarrow> 'v \<Rightarrow> 'm \<Rightarrow> 'm"
    and remove :: "'k \<Rightarrow> 'm \<Rightarrow> 'm"
    and entries :: "'m \<Rightarrow> ('k \<times> 'v) list"
    and inv :: "'m \<Rightarrow> bool"
  assumes inv_empty: "inv empty" and get_empty: "get empty k = None"
    and inv_insert: "inv m \<Longrightarrow> inv (insert k v m)"
    and get_insert: "inv m \<Longrightarrow> get (insert k v m) j = (if j = k then Some v else get m j)"
    and inv_remove: "inv m \<Longrightarrow> inv (remove k m)"
    and get_remove: "inv m \<Longrightarrow> get (remove k m) j = (if j = k then None else get m j)"
    and entries_get: "inv m \<Longrightarrow> (k, v) \<in> set (entries m) \<longleftrightarrow> get m k = Some v"
    and entries_sorted: "inv m \<Longrightarrow> sorted_wrt (<) (map fst (entries m))"
begin

lemma insert_same_value: "inv m \<Longrightarrow> get m k = Some v \<Longrightarrow> get (insert k v m) = get m"
  by (auto simp: get_insert)

lemma insert_insert: "inv m \<Longrightarrow> get (insert k v (insert k w m)) = get (insert k v m)"
  by (auto simp: get_insert inv_insert)

lemma remove_insert: "inv m \<Longrightarrow> get m k = None \<Longrightarrow> get (remove k (insert k v m)) = get m"
  by (auto simp: get_insert get_remove inv_insert)

lemma entries_eqI:
  assumes "inv m" and "inv n" and "get m = get n"
  shows "entries m = entries n"
proof (rule map_sorted_distinct_set_unique [where f = fst])
  have eq: "set (entries m) = set (entries n)" using assms entries_get by auto
  then show "set (entries m) = set (entries n)" .
  show "inj_on fst (set (entries m) \<union> set (entries n))"
    using entries_sorted [OF assms(1)] eq by (simp add: strict_sorted_iff distinct_map)
qed (use entries_sorted assms(1,2) in \<open>auto simp: strict_sorted_iff\<close>)

end

lemma bt_insert_keys: "set (map fst (bt_insert k v m)) = insert k (set (map fst m))"
  by (induction k v m rule: bt_insert.induct) auto

lemma bt_inv_insert: "bt_inv m \<Longrightarrow> bt_inv (bt_insert k v m)"
proof (induction k v m rule: bt_insert.induct)
  case (2 k v j w m)
  then show ?case using bt_insert_keys [of k v m] by (auto simp: bt_inv_def)
qed (simp add: bt_inv_def)

lemma bt_get_insert: "bt_get (bt_insert k v m) j = (if j = k then Some v else bt_get m j)"
  by (induction k v m rule: bt_insert.induct) (auto simp: bt_get_def)

lemma bt_get_remove: "bt_get (bt_remove k m) j = (if j = k then None else bt_get m j)"
  by (induction m) (auto simp: bt_get_def bt_remove_def)

lemma bt_inv_remove: "bt_inv m \<Longrightarrow> bt_inv (bt_remove k m)"
  by (induction m) (auto simp: bt_inv_def bt_remove_def)

interpretation bt: ordered_map "[]" bt_get bt_insert bt_remove "\<lambda>m. m" bt_inv
proof unfold_locales
  show "(k, v) \<in> set m \<longleftrightarrow> bt_get m k = Some v" if "bt_inv m" for m :: "('a, 'b) btree_map" and k v
    using that by (auto simp: bt_get_def bt_inv_def strict_sorted_iff distinct_map
        intro: map_of_is_SomeI dest: map_of_SomeD)
qed (auto simp: bt_inv_insert bt_get_insert bt_get_remove bt_inv_remove, auto simp: bt_inv_def bt_get_def)

end
