(* ===== verification/Vfs.thy ===== *)
theory Vfs
  imports Btree_Map
begin

text \<open>
  \<open>kernel/src/drivers/vfs/mod.rs\<close> and \<open>ramfs.rs\<close>: inodes, the in-memory file system and the
  table of mounted drives.

  A \<open>str\<close> is the list of its UTF-8 bytes (\<open>string\<close>). The raw pointer to an inode that a file
  descriptor holds is the list of keys that leads from the root of its drive to that inode,
  and the raw pointer to the drive is the name it is mounted under; following a pointer whose target is
  gone is \<open>DanglingPointer\<close>. \<open>RamFS\<close> is the only implementation of the trait \<open>FS\<close> besides \<open>VFS\<close>
  itself, and \<open>RamInode\<close> the only one of \<open>InodeOps\<close>, so the trait objects are those types.
\<close>

section \<open>Inodes\<close>

datatype fs_error =
    OperationNotSupported
  | NotAFile
  | NotADirectory
  | NoSuchAFileOrDirectory
  | InvaildDrive
  | InvaildPath

datatype inode_type = File | Directory | Symlink

datatype inode = Inode (iname: string) (itype: inode_type) (iops: ram_inode)
  and ram_inode =
    Data "u8 list"
  | Children "(string \<times> inode) list"
  | Link ram_inode

definition new_file :: "string \<Rightarrow> u8 list \<Rightarrow> inode" where
  "new_file name data = Inode name File (Data data)"

definition new_dir :: "string \<Rightarrow> inode" where
  "new_dir name = Inode name Directory (Children [])"

definition new_root :: inode where
  "new_root = Inode [] Directory (Children [])"

definition is_dir :: "inode \<Rightarrow> bool" where "is_dir n \<longleftrightarrow> itype n = Directory"
definition is_file :: "inode \<Rightarrow> bool" where "is_file n \<longleftrightarrow> itype n = File"

fun ops_get :: "ram_inode \<Rightarrow> string \<Rightarrow> fs_error + inode option" where
  "ops_get (Children tree) name = Inr (bt_get tree name)"
| "ops_get _ name = Inl NotADirectory"

fun ops_contains :: "ram_inode \<Rightarrow> string \<Rightarrow> bool" where
  "ops_contains (Children tree) name = bt_contains tree name"
| "ops_contains _ name = False"

text \<open>The size of a directory is the sum over its children, added up as a \<open>usize\<close>.\<close>

fun ops_size :: "ram_inode \<Rightarrow> usize rust" and sum_sizes :: "(string \<times> inode) list \<Rightarrow> usize \<Rightarrow> usize rust"
  and inode_size :: "inode \<Rightarrow> usize rust" where
  "ops_size (Data data) = Inr (of_nat (length data))"
| "ops_size (Children children) = sum_sizes children 0"
| "ops_size (Link _) = Inl NotImplemented"
| "sum_sizes [] acc = Inr acc"
| "sum_sizes ((_, child) # cs) acc =
     rbind (inode_size child) (\<lambda>s. rbind (add_w acc s) (\<lambda>t. sum_sizes cs t))"
| "inode_size (Inode _ _ ops) = ops_size ops"

text \<open>\<open>buffer[..count].copy_from_slice(&data[offset..count])\<close>; the new contents of the buffer are returned.\<close>

fun ops_read :: "ram_inode \<Rightarrow> u8 list \<Rightarrow> usize \<Rightarrow> usize \<Rightarrow> (fs_error + u8 list) rust" where
  "ops_read (Data data) buffer offset count =
     rbind (slice buffer 0 (unat count)) (\<lambda>_.
     rbind (slice data (unat offset) (unat count)) (\<lambda>src.
     rbind (copy_into buffer 0 (unat count) src) (\<lambda>b. Inr (Inr b))))"
| "ops_read _ buffer offset count = Inr (Inl NotAFile)"

fun ops_readdir :: "ram_inode \<Rightarrow> fs_error + (string \<times> inode) list" where
  "ops_readdir (Children tree) = Inr tree"
| "ops_readdir _ = Inl NotADirectory"

text \<open>\<open>Vec::resize\<close> with zeros, only ever called to grow.\<close>

definition resize :: "u8 list \<Rightarrow> nat \<Rightarrow> u8 list" where
  "resize data n = take n data @ replicate (n - length data) 0"

fun ops_write :: "ram_inode \<Rightarrow> u8 list \<Rightarrow> usize \<Rightarrow> (fs_error + ram_inode) rust" where
  "ops_write (Data data) buffer offset =
     rbind (add_w (of_nat (length buffer)) offset) (\<lambda>end.
     let data' = (if (of_nat (length data) :: usize) < end then resize data (unat end) else data) in
     rbind (copy_into data' (unat offset) (length buffer) buffer) (\<lambda>d. Inr (Inr (Data d))))"
| "ops_write _ buffer offset = Inr (Inl NotAFile)"

fun ops_insert :: "ram_inode \<Rightarrow> string \<Rightarrow> inode \<Rightarrow> fs_error + ram_inode" where
  "ops_insert (Children tree) name node = Inr (Children (bt_insert name node tree))"
| "ops_insert _ name node = Inl NotADirectory"

section \<open>Pointers into the tree\<close>

type_synonym node_ptr = "string list"

fun node_at :: "inode \<Rightarrow> node_ptr \<Rightarrow> inode option" where
  "node_at n [] = Some n"
| "node_at (Inode _ _ (Children tree)) (k # ks) =
     (case bt_get tree k of None \<Rightarrow> None | Some c \<Rightarrow> node_at c ks)"
| "node_at _ (k # ks) = None"

fun set_ops :: "inode \<Rightarrow> node_ptr \<Rightarrow> ram_inode \<Rightarrow> inode" where
  "set_ops (Inode name t _) [] ops = Inode name t ops"
| "set_ops (Inode name t (Children tree)) (k # ks) ops =
     (case bt_get tree k of
        None \<Rightarrow> Inode name t (Children tree)
      | Some c \<Rightarrow> Inode name t (Children (bt_insert k (set_ops c ks ops) tree)))"
| "set_ops n (k # ks) ops = n"

definition deref :: "inode \<Rightarrow> node_ptr \<Rightarrow> inode rust" where
  "deref root p = (case node_at root p of None \<Rightarrow> Inl DanglingPointer | Some n \<Rightarrow> Inr n)"

section \<open>Path resolution\<close>

text \<open>\<open>path.split(&['/', '\\'])\<close>: the pieces between separators, at least one.\<close>

definition is_sep :: "char \<Rightarrow> bool" where
  "is_sep c \<longleftrightarrow> c = CHR ''/'' \<or> c = CHR 0x5C"

fun split_path :: "string \<Rightarrow> string list" where
  "split_path [] = [[]]"
| "split_path (c # cs) =
     (if is_sep c then [] # split_path cs
      else case split_path cs of p # ps \<Rightarrow> (c # p) # ps | [] \<Rightarrow> [[c]])"

fun reslove_loop :: "inode \<Rightarrow> string list \<Rightarrow> node_ptr \<Rightarrow> node_ptr \<Rightarrow> (fs_error + node_ptr) rust" where
  "reslove_loop root [] current prev = Inr (Inr current)"
| "reslove_loop root (depth # path) current prev =
     (if depth = '''' then (if path = [] then Inr (Inr current) else Inr (Inl InvaildPath))
      else if depth = ''.'' then reslove_loop root path current prev
      else if depth = ''..'' then reslove_loop root path prev prev
      else rbind (deref root current) (\<lambda>n.
        if \<not> is_dir n then Inr (Inl NoSuchAFileOrDirectory)
        else if \<not> ops_contains (iops n) depth then Inr (Inl NoSuchAFileOrDirectory)
        else (case ops_get (iops n) depth of
            Inl e \<Rightarrow> Inr (Inl e)
          | Inr c \<Rightarrow> rbind (unwrap c) (\<lambda>_. reslove_loop root path (current @ [depth]) current))))"

definition reslove_path :: "inode \<Rightarrow> string \<Rightarrow> (fs_error + node_ptr) rust" where
  "reslove_path root path = reslove_loop root (tl (split_path path)) [] []"

section \<open>The in-memory file system\<close>

record file_descriptor =
  fd_mountpoint :: string
  fd_node :: node_ptr
  read_pos :: usize
  write_pos :: usize

definition fd_size :: "inode \<Rightarrow> file_descriptor \<Rightarrow> usize rust" where
  "fd_size root fd = rbind (deref root (fd_node fd)) inode_size"

definition fd_name :: "inode \<Rightarrow> file_descriptor \<Rightarrow> string rust" where
  "fd_name root fd = rbind (deref root (fd_node fd)) (\<lambda>n. Inr (iname n))"

definition ramfs_new :: inode where "ramfs_new = new_root"

definition ramfs_open :: "string \<Rightarrow> inode \<Rightarrow> string \<Rightarrow> (fs_error + file_descriptor) rust" where
  "ramfs_open self root path =
     qbind (reslove_path root path) (\<lambda>node.
     Inr (Inr \<lparr>fd_mountpoint = self, fd_node = node, read_pos = 0, write_pos = 0\<rparr>))"

definition ramfs_read :: "inode \<Rightarrow> file_descriptor \<Rightarrow> u8 list \<Rightarrow>
    ((fs_error + usize) \<times> file_descriptor \<times> u8 list) rust" where
  "ramfs_read root fd buffer =
     rbind (deref root (fd_node fd)) (\<lambda>n.
     let len = of_nat (length buffer) in
     rbind (add_w (read_pos fd) len) (\<lambda>end.
     rbind (inode_size n) (\<lambda>sz.
     rbind (if end > sz then rbind (sub_w end sz) (sub_w len) else Inr len) (\<lambda>count.
     rbind (ops_read (iops n) buffer (read_pos fd) count) (\<lambda>r. case r of
       Inl e \<Rightarrow> Inr (Inl e, fd, buffer)
     | Inr b \<Rightarrow>
         rbind (add_w (read_pos fd) count) (\<lambda>p. Inr (Inr count, fd\<lparr>read_pos := p\<rparr>, b)))))))"

definition ramfs_readdir :: "string \<Rightarrow> inode \<Rightarrow> file_descriptor \<Rightarrow> (fs_error + file_descriptor list) rust" where
  "ramfs_readdir self root fd =
     rbind (deref root (fd_node fd)) (\<lambda>n. case ops_readdir (iops n) of
       Inl e \<Rightarrow> Inr (Inl e)
     | Inr tree \<Rightarrow> Inr (Inr (map (\<lambda>(k, _). \<lparr>fd_mountpoint = self, fd_node = fd_node fd @ [k],
         read_pos = 0, write_pos = 0\<rparr>) tree)))"

definition ramfs_write :: "inode \<Rightarrow> file_descriptor \<Rightarrow> u8 list \<Rightarrow>
    ((fs_error + unit) \<times> file_descriptor \<times> inode) rust" where
  "ramfs_write root fd buffer =
     rbind (deref root (fd_node fd)) (\<lambda>n.
     rbind (ops_write (iops n) buffer (write_pos fd)) (\<lambda>r. case r of
       Inl e \<Rightarrow> Inr (Inl e, fd, root)
     | Inr ops \<Rightarrow>
         rbind (add_w (write_pos fd) (of_nat (length buffer))) (\<lambda>p.
         Inr (Inr (), fd\<lparr>write_pos := p\<rparr>, set_ops root (fd_node fd) ops))))"

definition insert_node :: "inode \<Rightarrow> string \<Rightarrow> inode \<Rightarrow> ((fs_error + unit) \<times> inode) rust" where
  "insert_node root path node =
     rbind (reslove_path root path) (\<lambda>r. case r of
       Inl e \<Rightarrow> Inr (Inl e, root)
     | Inr p \<Rightarrow>
         rbind (deref root p) (\<lambda>resloved.
         if itype resloved \<noteq> Directory then Inr (Inl NotADirectory, root)
         else (case ops_insert (iops resloved) (iname node) node of
             Inl e \<Rightarrow> Inr (Inl e, root)
           | Inr ops \<Rightarrow> Inr (Inr (), set_ops root p ops))))"

definition ramfs_create :: "inode \<Rightarrow> string \<Rightarrow> string \<Rightarrow> ((fs_error + unit) \<times> inode) rust" where
  "ramfs_create root path name = insert_node root path (new_file name [])"

definition ramfs_createdir :: "inode \<Rightarrow> string \<Rightarrow> string \<Rightarrow> ((fs_error + unit) \<times> inode) rust" where
  "ramfs_createdir root path name = insert_node root path (new_dir name)"

definition ramfs_close :: "file_descriptor \<Rightarrow> fs_error + unit" where
  "ramfs_close fd = Inr ()"

section \<open>Mounted drives\<close>

type_synonym vfs = "(string, inode) btree_map"

definition vfs_new :: vfs where "vfs_new = []"

definition mount :: "string \<Rightarrow> inode \<Rightarrow> vfs \<Rightarrow> (unit + unit) \<times> vfs" where
  "mount name value v =
     (if bt_contains v name then (Inl (), v) else (Inr (), bt_insert name value v))"

definition umount :: "string \<Rightarrow> vfs \<Rightarrow> (unit + unit) \<times> vfs" where
  "umount name v =
     (if bt_contains v name then (Inr (), bt_remove name v) else (Inl (), v))"

definition ends_with_colon :: "string \<Rightarrow> bool" where
  "ends_with_colon s \<longleftrightarrow> s \<noteq> [] \<and> last s = CHR '':''"

definition drive_key :: "string \<Rightarrow> string" where
  "drive_key name = (if ends_with_colon name then butlast name else name)"

definition get_with_name :: "vfs \<Rightarrow> string \<Rightarrow> inode option" where
  "get_with_name v name = bt_get v (drive_key name)"

text \<open>A mutable reference to a drive is the name under which it is mounted, with the drive.\<close>

definition get_with_name_mut :: "vfs \<Rightarrow> string \<Rightarrow> (string \<times> inode) option" where
  "get_with_name_mut v name = map_option (\<lambda>fs. (drive_key name, fs)) (bt_get v (drive_key name))"

definition get_from_path :: "vfs \<Rightarrow> string \<Rightarrow> fs_error + (string \<times> inode) option" where
  "get_from_path v path =
     (let drive = hd (split_path path) in
      if \<not> ends_with_colon drive then Inl InvaildDrive
      else Inr (get_with_name_mut v drive))"

definition mountpoint_path :: "string \<Rightarrow> string rust" where
  "mountpoint_path path =
     (if CHR '':'' \<in> set path then Inr (tl (dropWhile (\<lambda>c. c \<noteq> CHR '':'') path)) else Inl UnwrapFailed)"

text \<open>\<open>self.get_from_path(path)?.ok_or(NoSuchAFileOrDirectory)?\<close>\<close>

definition drive_of :: "vfs \<Rightarrow> string \<Rightarrow> fs_error + (string \<times> inode)" where
  "drive_of v path = (case get_from_path v path of
       Inl e \<Rightarrow> Inl e
     | Inr None \<Rightarrow> Inl NoSuchAFileOrDirectory
     | Inr (Some d) \<Rightarrow> Inr d)"

definition verify_path_dir :: "vfs \<Rightarrow> string \<Rightarrow> (fs_error + unit) rust" where
  "verify_path_dir v path = (case drive_of v path of
       Inl e \<Rightarrow> Inr (Inl e)
     | Inr (_, root) \<Rightarrow>
         qbind (reslove_path root path) (\<lambda>p.
         rbind (deref root p) (\<lambda>res.
         Inr (if \<not> is_dir res then Inl NotADirectory else Inr ()))))"

definition vfs_open :: "vfs \<Rightarrow> string \<Rightarrow> (fs_error + file_descriptor) rust" where
  "vfs_open v path = (case drive_of v path of
       Inl e \<Rightarrow> Inr (Inl e)
     | Inr (d, root) \<Rightarrow> rbind (mountpoint_path path) (ramfs_open d root))"

definition mounted :: "vfs \<Rightarrow> file_descriptor \<Rightarrow> inode rust" where
  "mounted v fd = (case bt_get v (fd_mountpoint fd) of None \<Rightarrow> Inl DanglingPointer | Some root \<Rightarrow> Inr root)"

definition vfs_read :: "vfs \<Rightarrow> file_descriptor \<Rightarrow> u8 list \<Rightarrow>
    ((fs_error + usize) \<times> file_descriptor \<times> u8 list) rust" where
  "vfs_read v fd buffer = rbind (mounted v fd) (\<lambda>root. ramfs_read root fd buffer)"

definition vfs_readdir :: "vfs \<Rightarrow> file_descriptor \<Rightarrow> (fs_error + file_descriptor list) rust" where
  "vfs_readdir v fd = rbind (mounted v fd) (\<lambda>root. ramfs_readdir (fd_mountpoint fd) root fd)"

definition vfs_write :: "vfs \<Rightarrow> file_descriptor \<Rightarrow> u8 list \<Rightarrow>
    ((fs_error + unit) \<times> file_descriptor \<times> vfs) rust" where
  "vfs_write v fd buffer =
     rbind (mounted v fd) (\<lambda>root.
     rbind (ramfs_write root fd buffer) (\<lambda>(r, fd', root').
     Inr (r, fd', bt_insert (fd_mountpoint fd) root' v)))"

definition vfs_create :: "vfs \<Rightarrow> string \<Rightarrow> string \<Rightarrow> ((fs_error + unit) \<times> vfs) rust" where
  "vfs_create v path name = (case drive_of v path of
       Inl e \<Rightarrow> Inr (Inl e, v)
     | Inr (d, root) \<Rightarrow>
         rbind (ramfs_create root path name) (\<lambda>(r, root'). Inr (r, bt_insert d root' v)))"

definition vfs_createdir :: "vfs \<Rightarrow> string \<Rightarrow> string \<Rightarrow> ((fs_error + unit) \<times> vfs) rust" where
  "vfs_createdir v path name = (case drive_of v path of
       Inl e \<Rightarrow> Inr (Inl e, v)
     | Inr (d, root) \<Rightarrow>
         rbind (ramfs_createdir root path name) (\<lambda>(r, root'). Inr (r, bt_insert d root' v)))"

definition vfs_close :: "vfs \<Rightarrow> file_descriptor \<Rightarrow> (fs_error + unit) rust" where
  "vfs_close v fd = rbind (mounted v fd) (\<lambda>_. Inr (ramfs_close fd))"

definition vfs_init :: "vfs \<Rightarrow> vfs rust" where
  "vfs_init v = (case mount ''ram'' ramfs_new v of
       (Inl _, _) \<Rightarrow> Inl UnwrapFailed
     | (Inr _, v') \<Rightarrow> Inr v')"

end
