(* ===== verification/Vfs_Props.thy ===== *)
theory Vfs_Props
  imports Vfs "HOL-Library.Sublist"
begin

text \<open>
  Properties of the file system: paths and what they resolve to, the invariant of the inode tree,
  creating, writing and reading files, and mounting drives.
\<close>

section \<open>Paths\<close>

definition plain_name :: "string \<Rightarrow> bool" where
  "plain_name s \<longleftrightarrow> s \<noteq> '''' \<and> s \<noteq> ''.'' \<and> s \<noteq> ''..'' \<and> (\<forall>c \<in> set s. \<not> is_sep c)"

text \<open>\<open>drive:/a/b\<close> from its parts.\<close>

definition join_path :: "string \<Rightarrow> string list \<Rightarrow> string" where
  "join_path d comps = d @ CHR '':'' # concat (map (\<lambda>c. CHR ''/'' # c) comps)"

lemma split_path_ne: "split_path s \<noteq> []"
  by (cases s) (auto split: list.splits)

lemma split_path_sep:
  "\<forall>c \<in> set s. \<not> is_sep c \<Longrightarrow> split_path (s @ CHR ''/'' # rest) = s # split_path rest"
  by (induction s) (auto simp: is_sep_def)

lemma split_path_plain: "\<forall>c \<in> set s. \<not> is_sep c \<Longrightarrow> split_path s = [s]"
  by (induction s) auto

lemma split_path_comps:
  assumes "\<forall>c \<in> set s. \<not> is_sep c" and "\<forall>p \<in> set comps. plain_name p"
  shows "split_path (s @ concat (map (\<lambda>c. CHR ''/'' # c) comps)) = s # comps"
  using assms
proof (induction comps arbitrary: s)
  case Nil
  then show ?case by (simp add: split_path_plain)
next
  case (Cons c comps)
  then have "split_path (c @ concat (map (\<lambda>c. CHR ''/'' # c) comps)) = c # comps"
    by (intro Cons.IH) (auto simp: plain_name_def)
  then show ?case using Cons.prems(1) split_path_sep by simp
qed

lemma split_join_path:
  assumes "\<forall>c \<in> set d. \<not> is_sep c" and "\<forall>p \<in> set comps. plain_name p"
  shows "split_path (join_path d comps) = (d @ '':'') # comps"
  using split_path_comps [of "d @ '':''" comps] assms by (simp add: join_path_def is_sep_def)

section \<open>Following pointers\<close>

lemma node_at_append:
  "node_at n (p @ q) = (case node_at n p of None \<Rightarrow> None | Some c \<Rightarrow> node_at c q)"
  by (induction n p rule: node_at.induct) (auto split: option.splits)

lemma node_at_single:
  "node_at n [k] = (case iops n of Children tree \<Rightarrow> bt_get tree k | _ \<Rightarrow> None)"
  by (cases n; cases "iops n") (auto split: option.splits)

lemma node_at_snoc:
  "node_at n (p @ [k]) = (case node_at n p of
     Some c \<Rightarrow> (case iops c of Children tree \<Rightarrow> bt_get tree k | _ \<Rightarrow> None) | None \<Rightarrow> None)"
  by (simp add: node_at_append node_at_single split: option.splits)

lemma set_ops_same:
  "node_at root p = Some (Inode n t o1) \<Longrightarrow> node_at (set_ops root p o2) p = Some (Inode n t o2)"
  by (induction root p o2 rule: set_ops.induct) (auto simp: bt_get_insert split: option.splits)

lemma set_ops_below:
  assumes "node_at root p = Some (Inode n t o1)"
  shows "node_at (set_ops root p o2) (p @ q) = node_at (Inode n t o2) q"
  using set_ops_same [OF assms] by (simp add: node_at_append)

lemma set_ops_apart:
  "\<not> prefix p q \<Longrightarrow> \<not> prefix q p \<Longrightarrow> node_at (set_ops root p o2) q = node_at root q"
proof (induction root p o2 arbitrary: q rule: set_ops.induct)
  case (2 name t tree k ks ops)
  then obtain j js where q: "q = j # js" by (cases q) auto
  then show ?case using 2 by (auto simp: bt_get_insert split: option.splits)
qed (auto simp: prefix_def)

section \<open>The invariant of the inode tree\<close>

text \<open>
  The type of an inode agrees with what it holds, the children of a directory are
  ordered by name, and each is filed under its own name.
\<close>

fun wf_inode :: "inode \<Rightarrow> bool" and wf_ops :: "inode_type \<Rightarrow> ram_inode \<Rightarrow> bool"
  and wf_children :: "(string \<times> inode) list \<Rightarrow> bool" where
  "wf_inode (Inode _ t ops) \<longleftrightarrow> wf_ops t ops"
| "wf_ops t (Data d) \<longleftrightarrow> t = File \<and> length d < 2 ^ 64"
| "wf_ops t (Children cs) \<longleftrightarrow> t = Directory \<and> bt_inv cs \<and> wf_children cs"
| "wf_ops t (Link _) \<longleftrightarrow> False"
| "wf_children [] \<longleftrightarrow> True"
| "wf_children ((k, c) # cs) \<longleftrightarrow> iname c = k \<and> wf_inode c \<and> wf_children cs"

lemma wf_children_iff: "wf_children cs \<longleftrightarrow> (\<forall>(k, c) \<in> set cs. iname c = k \<and> wf_inode c)"
  by (induction cs) auto

lemma wf_children_get: "wf_children cs \<Longrightarrow> bt_get cs k = Some c \<Longrightarrow> iname c = k \<and> wf_inode c"
  by (auto simp: wf_children_iff bt_get_def dest: map_of_SomeD)

lemma wf_children_insert:
  "wf_children cs \<Longrightarrow> wf_inode c \<Longrightarrow> iname c = k \<Longrightarrow> wf_children (bt_insert k c cs)"
  by (induction k c cs rule: bt_insert.induct) auto

lemma wf_node_at: "wf_inode root \<Longrightarrow> node_at root p = Some n \<Longrightarrow> wf_inode n"
  by (induction root p rule: node_at.induct) (auto split: option.splits dest: wf_children_get)

lemma iname_set_ops [simp]: "iname (set_ops root p ops) = iname root"
  by (induction root p ops rule: set_ops.induct) (auto split: option.splits)

lemma wf_set_ops:
  "wf_inode root \<Longrightarrow> node_at root p = Some n \<Longrightarrow> wf_ops (itype n) ops \<Longrightarrow> wf_inode (set_ops root p ops)"
proof (induction root p ops rule: set_ops.induct)
  case (2 name t tree k ks ops)
  then show ?case
    by (auto split: option.splits dest: wf_children_get intro!: wf_children_insert bt_inv_insert)
qed auto

lemma wf_directory: "wf_inode n \<Longrightarrow> is_dir n \<Longrightarrow> \<exists>cs. iops n = Children cs"
  by (cases n; cases "iops n") (auto simp: is_dir_def)

lemma wf_parent: "wf_inode n \<Longrightarrow> iops n = Children cs \<Longrightarrow> is_dir n"
  by (cases n) (auto simp: is_dir_def)

section \<open>What a path resolves to\<close>

lemma reslove_plain:
  assumes wf: "wf_inode root"
  shows "\<forall>c \<in> set comps. plain_name c \<Longrightarrow> node_at root cur = Some n \<Longrightarrow>
    reslove_loop root comps cur prev = Inr (case node_at root (cur @ comps) of
      Some _ \<Rightarrow> Inr (cur @ comps) | None \<Rightarrow> Inl NoSuchAFileOrDirectory)"
proof (induction comps arbitrary: cur prev n)
  case (Cons c comps)
  have wfn: "wf_inode n" using wf_node_at [OF wf Cons.prems(2)] .
  have c: "c \<noteq> ''''" "c \<noteq> ''.''" "c \<noteq> ''..''" using Cons.prems(1) by (auto simp: plain_name_def)
  have split: "node_at root (cur @ c # comps) = (case node_at root (cur @ [c]) of None \<Rightarrow> None | Some d \<Rightarrow> node_at d comps)"
    using node_at_append [of root "cur @ [c]" comps] by simp
  show ?case
  proof (cases "node_at root (cur @ [c])")
    case None
    then have "\<not> is_dir n \<or> \<not> ops_contains (iops n) c"
      using Cons.prems(2) wf_directory [OF wfn]
      by (auto simp: node_at_snoc bt_contains_def)
    then show ?thesis using c Cons.prems(2) None split by (auto simp: deref_def)
  next
    case (Some d)
    then obtain cs where cs: "iops n = Children cs" "bt_get cs c = Some d"
      using Cons.prems(2) by (auto simp: node_at_snoc split: ram_inode.splits)
    have "reslove_loop root (c # comps) cur prev = reslove_loop root comps (cur @ [c]) cur"
      using c Cons.prems(2) cs wf_parent [OF wfn cs(1)] by (simp add: deref_def bt_contains_def)
    then show ?thesis using Cons.IH [OF _ Some, of cur] Cons.prems(1) by (simp split: option.splits)
  qed
qed simp

text \<open>A drive that is mounted under a plain name, with a well-formed tree.\<close>

definition on_drive :: "vfs \<Rightarrow> string \<Rightarrow> inode \<Rightarrow> bool" where
  "on_drive v d root \<longleftrightarrow> bt_inv v \<and> bt_get v d = Some root \<and> wf_inode root \<and> (\<forall>c \<in> set d. \<not> is_sep c)"

lemma drive_of_join:
  assumes "on_drive v d root" and "\<forall>p \<in> set comps. plain_name p"
  shows "drive_of v (join_path d comps) = Inr (d, root)"
proof -
  have "hd (split_path (join_path d comps)) = d @ '':''"
    using split_join_path assms by (simp add: on_drive_def)
  then show ?thesis
    using assms(1) by (simp add: drive_of_def get_from_path_def ends_with_colon_def drive_key_def
        get_with_name_mut_def on_drive_def)
qed

text \<open>
  \<open>open\<close> strips the drive from the path, \<open>create\<close>, \<open>createdir\<close> and \<open>verify_path_dir\<close> do not;
  resolution skips the first piece either way.
\<close>

lemma hd_split_path: "hd (split_path s) = takeWhile (\<lambda>c. \<not> is_sep c) s"
proof (induction s)
  case (Cons c s)
  then show ?case using split_path_ne [of s] by (auto split: list.splits)
qed simp

lemma tl_split_dropWhile:
  assumes "x \<in> set (takeWhile (\<lambda>c. \<not> is_sep c) s)"
  shows "tl (split_path (tl (dropWhile (\<lambda>c. c \<noteq> x) s))) = tl (split_path s)"
  using assms
proof (induction s)
  case (Cons c s)
  show ?case
  proof (cases "c = x")
    case True
    have "\<not> is_sep c"
    proof
      assume "is_sep c"
      then show False using Cons.prems by simp
    qed
    then show ?thesis using True split_path_ne [of s] by (auto split: list.splits)
  next
    case False
    have "\<not> is_sep c"
    proof
      assume "is_sep c"
      then show False using Cons.prems by simp
    qed
    moreover from this have "x \<in> set (takeWhile (\<lambda>c. \<not> is_sep c) s)" using Cons.prems False by simp
    ultimately have "\<not> is_sep c" "x \<in> set (takeWhile (\<lambda>c. \<not> is_sep c) s)" by simp_all
    then show ?thesis using Cons.IH False split_path_ne [of s] by (auto split: list.splits)
  qed
qed simp

text \<open>
  Whichever form of the path reaches a drive, it means the same there: for every path
  whose drive part is accepted, resolving the whole path (as \<open>create\<close>, \<open>createdir\<close> and \<open>verify_path_dir\<close> do) and
  resolving what \<open>mountpoint_path\<close> leaves of it (as \<open>open\<close> does) gives the same result.
\<close>
lemma mountpoint_path_resolves_same:
  assumes "get_from_path v path = Inr d"
  shows "\<exists>p. mountpoint_path path = Inr p \<and> reslove_path root p = reslove_path root path"
proof -
  let ?drive = "takeWhile (\<lambda>c. \<not> is_sep c) path"
  have "ends_with_colon ?drive"
    using assms by (auto simp: get_from_path_def Let_def hd_split_path split: if_splits)
  then have c: "CHR '':'' \<in> set ?drive" by (auto simp: ends_with_colon_def dest: last_in_set)
  then have "CHR '':'' \<in> set path" using set_takeWhileD by fast
  then show ?thesis using tl_split_dropWhile [OF c] by (simp add: mountpoint_path_def reslove_path_def)
qed

lemma mountpoint_path_resolves_same_example:
  "get_from_path [(''ram'', new_root)] ''ram:/a'' = Inr (Some (''ram'', new_root)) \<and>
   mountpoint_path ''ram:/a'' = Inr ''/a'' \<and>
   reslove_path new_root ''/a'' = reslove_path new_root ''ram:/a''"
proof -
  have g: "get_from_path [(''ram'', new_root)] ''ram:/a'' = Inr (Some (''ram'', new_root))"
    by (simp add: get_from_path_def is_sep_def ends_with_colon_def drive_key_def get_with_name_mut_def bt_get_def)
  have "mountpoint_path ''ram:/a'' = Inr ''/a''" by (simp add: mountpoint_path_def)
  then show ?thesis using g mountpoint_path_resolves_same [OF g, of new_root] by simp
qed

lemma open_plain:
  assumes "on_drive v d root" and "\<forall>c \<in> set d. c \<noteq> CHR '':''" and "\<forall>p \<in> set comps. plain_name p"
  shows "vfs_open v (join_path d comps) = Inr (case node_at root comps of
      Some _ \<Rightarrow> Inr \<lparr>fd_mountpoint = d, fd_node = comps, read_pos = 0, write_pos = 0\<rparr>
    | None \<Rightarrow> Inl NoSuchAFileOrDirectory)"
proof -
  have m: "mountpoint_path (join_path d comps) = Inr (concat (map (\<lambda>c. CHR ''/'' # c) comps))"
    using assms(2) by (simp add: mountpoint_path_def join_path_def dropWhile_append2)
  have "split_path (concat (map (\<lambda>c. CHR ''/'' # c) comps)) = '''' # comps"
    using split_path_comps [of "''''" comps] assms(3) by simp
  then show ?thesis
    using reslove_plain [of root comps "[]" root "[]"] assms drive_of_join [OF assms(1,3)]
    by (simp add: vfs_open_def m ramfs_open_def reslove_path_def on_drive_def split: option.splits)
qed

text \<open>
  A path of plain names is looked up component by component: \<open>open\<close> succeeds, with a descriptor at position zero, exactly
  when the inode exists, and reports \<open>NoSuchAFileOrDirectory\<close> otherwise; it never panics.
\<close>
lemma open_plain_path:
  assumes "on_drive v d root" and "\<forall>c \<in> set d. c \<noteq> CHR '':''" and "\<forall>p \<in> set comps. plain_name p"
  shows "vfs_open v (join_path d comps) = Inr (case node_at root comps of
      Some _ \<Rightarrow> Inr \<lparr>fd_mountpoint = d, fd_node = comps, read_pos = 0, write_pos = 0\<rparr>
    | None \<Rightarrow> Inl NoSuchAFileOrDirectory)"
  by (rule open_plain [OF assms])

definition example_vfs :: vfs where
  "example_vfs = [(''ram'', Inode '''' Directory (Children [(''f'', Inode ''f'' File (Data [1, 2, 3]))]))]"

abbreviation example_root :: inode where
  "example_root \<equiv> Inode '''' Directory (Children [(''f'', Inode ''f'' File (Data [1, 2, 3]))])"

lemma example_on_drive: "on_drive example_vfs ''ram'' example_root"
  by (simp add: on_drive_def example_vfs_def bt_inv_def bt_get_def is_sep_def)

lemma open_plain_path_example:
  "vfs_open example_vfs ''ram:/f'' =
     Inr (Inr \<lparr>fd_mountpoint = ''ram'', fd_node = [''f''], read_pos = 0, write_pos = 0\<rparr>)"
  using open_plain_path [OF example_on_drive, of "[''f'']"]
  by (simp add: join_path_def plain_name_def is_sep_def bt_get_def)

section \<open>Creating files and directories\<close>

lemma insert_node_plain:
  assumes wf: "wf_inode root" and comps: "\<forall>p \<in> set comps. plain_name p"
    and sp: "tl (split_path path) = comps" and dir: "node_at root comps = Some (Inode n Directory (Children cs))"
    and node: "wf_inode node"
  shows "insert_node root path node =
      Inr (Inr (), set_ops root comps (Children (bt_insert (iname node) node cs)))"
    and "wf_inode (set_ops root comps (Children (bt_insert (iname node) node cs)))"
    and "node_at (set_ops root comps (Children (bt_insert (iname node) node cs))) (comps @ [iname node]) = Some node"
proof -
  have "reslove_path root path = Inr (Inr comps)"
    using reslove_plain [OF wf comps, of "[]" root "[]"] dir by (simp add: reslove_path_def sp)
  then show "insert_node root path node =
      Inr (Inr (), set_ops root comps (Children (bt_insert (iname node) node cs)))"
    by (simp add: insert_node_def deref_def dir)
  have "wf_inode (Inode n Directory (Children cs))" using wf_node_at [OF wf dir] .
  then have "wf_ops Directory (Children (bt_insert (iname node) node cs))"
    using node by (simp add: bt_inv_insert wf_children_insert)
  then show "wf_inode (set_ops root comps (Children (bt_insert (iname node) node cs)))"
    using wf_set_ops [OF wf dir] by simp
  show "node_at (set_ops root comps (Children (bt_insert (iname node) node cs))) (comps @ [iname node]) = Some node"
    using set_ops_below [OF dir] by (simp add: bt_get_insert)
qed

lemma set_ops_insert_apart:
  assumes dir: "node_at root comps = Some (Inode n t (Children cs))"
    and a: "\<not> prefix (comps @ [name]) q" and b: "\<not> prefix q comps"
  shows "node_at (set_ops root comps (Children (bt_insert name node cs))) q = node_at root q"
proof (cases "prefix comps q")
  case True
  then obtain j js where q: "q = comps @ j # js" using b by (metis neq_Nil_conv prefixE prefix_order.refl append_Nil2)
  then have "j \<noteq> name" using a by auto
  then show ?thesis
    using set_ops_below [OF dir, of _ "j # js"] dir by (simp add: q node_at_append bt_get_insert)
next
  case False
  then show ?thesis using set_ops_apart b by blast
qed

text \<open>
  C11: \<open>create\<close> in an existing directory succeeds; the new path then opens, the inode behind it is an empty file, the tree
  stays well formed, and every inode that is neither on the path to the directory nor below the new name is untouched.
  This holds whether or not the name was taken: a file or a whole directory of that name is
  replaced without an error.
\<close>
theorem create_then_open:
  assumes v: "on_drive v d root" "\<forall>c \<in> set d. c \<noteq> CHR '':''"
    and comps: "\<forall>p \<in> set comps. plain_name p" and name: "plain_name name"
    and dir: "node_at root comps = Some (Inode n Directory (Children cs))"
  shows "\<exists>v' root'. vfs_create v (join_path d comps) name = Inr (Inr (), v') \<and> on_drive v' d root' \<and>
    vfs_open v' (join_path d (comps @ [name])) =
      Inr (Inr \<lparr>fd_mountpoint = d, fd_node = comps @ [name], read_pos = 0, write_pos = 0\<rparr>) \<and>
    node_at root' (comps @ [name]) = Some (Inode name File (Data [])) \<and>
    (\<forall>q. \<not> prefix (comps @ [name]) q \<longrightarrow> \<not> prefix q comps \<longrightarrow> node_at root' q = node_at root q)"
proof -
  let ?node = "new_file name []"
  let ?root' = "set_ops root comps (Children (bt_insert name ?node cs))"
  have wf: "wf_inode root" and sep: "\<forall>c \<in> set d. \<not> is_sep c" using v by (auto simp: on_drive_def)
  have sp: "tl (split_path (join_path d comps)) = comps" using split_join_path [OF sep comps] by simp
  have node: "wf_inode ?node" "iname ?node = name" by (simp_all add: new_file_def)
  note i = insert_node_plain [OF wf comps sp dir node(1), unfolded node(2)]
  have "vfs_create v (join_path d comps) name = Inr (Inr (), bt_insert d ?root' v)"
    using i(1) by (simp add: vfs_create_def drive_of_join [OF v(1) comps] ramfs_create_def)
  moreover have od: "on_drive (bt_insert d ?root' v) d ?root'"
    using v i(2) by (simp add: on_drive_def bt_inv_insert bt_get_insert)
  moreover have "vfs_open (bt_insert d ?root' v) (join_path d (comps @ [name])) =
      Inr (Inr \<lparr>fd_mountpoint = d, fd_node = comps @ [name], read_pos = 0, write_pos = 0\<rparr>)"
    using open_plain [OF od v(2), of "comps @ [name]"] comps name i(3) by simp
  moreover have "node_at ?root' (comps @ [name]) = Some (Inode name File (Data []))"
    using i(3) by (simp add: new_file_def)
  ultimately show ?thesis using set_ops_insert_apart [OF dir] by blast
qed

theorem create_then_open_witness:
  "\<exists>v'. vfs_create example_vfs ''ram:'' ''g'' = Inr (Inr (), v') \<and>
     vfs_open v' ''ram:/g'' = Inr (Inr \<lparr>fd_mountpoint = ''ram'', fd_node = [''g''], read_pos = 0, write_pos = 0\<rparr>)"
  using create_then_open [OF example_on_drive, of "[]" "''g''" "''''" "[(''f'', Inode ''f'' File (Data [1, 2, 3]))]"]
  by (auto simp: join_path_def plain_name_def is_sep_def)

section \<open>Writing and reading\<close>

lemma ops_write_start:
  assumes "length buf < 2 ^ 64" and "length old < 2 ^ 64"
  shows "ops_write (Data old) buf 0 = Inr (Inr (Data (buf @ drop (length buf) old)))"
proof -
  have u: "unat (of_nat (length buf) :: usize) = length buf" "unat (of_nat (length old) :: usize) = length old"
    using assms by (simp_all add: unat_of_nat_small)
  show ?thesis
    using assms by (simp add: add_w_def u word_less_nat_alt Let_def copy_into_def resize_def)
qed

lemma read_start:
  assumes n: "deref root (fd_node fd) = Inr (Inode nm File (Data data))" and pos: "read_pos fd = 0"
    and len: "length data < 2 ^ 64" "length buf < 2 ^ 64"
  defines "c \<equiv> min (length buf) (length data)"
  shows "ramfs_read root fd buf =
    Inr (Inr (of_nat c), fd\<lparr>read_pos := of_nat c\<rparr>, take c data @ drop c buf)"
proof -
  have u: "unat (of_nat (length buf) :: usize) = length buf" "unat (of_nat (length data) :: usize) = length data"
    using len by (simp_all add: unat_of_nat_small)
  have cnt: "(if (of_nat (length buf) :: usize) > of_nat (length data)
      then rbind (sub_w (of_nat (length buf)) (of_nat (length data))) (sub_w (of_nat (length buf)))
      else Inr (of_nat (length buf))) = Inr (of_nat c :: usize)"
  proof (cases "length data < length buf")
    case True
    then have gt: "(of_nat (length data) :: usize) < of_nat (length buf)" by (simp add: word_less_nat_alt u)
    then have "unat (of_nat (length buf) - of_nat (length data) :: usize) = length buf - length data"
      by (subst unat_sub_small) (simp_all add: u)
    then have "(of_nat (length buf) - of_nat (length data) :: usize) \<le> of_nat (length buf)"
      by (simp add: word_le_nat_alt u)
    then show ?thesis using gt True by (simp add: sub_w_def c_def)
  next
    case False
    then show ?thesis by (simp add: word_less_nat_alt u c_def)
  qed
  have uc: "unat (of_nat c :: usize) = c" using len by (intro unat_of_nat_small) (simp add: c_def)
  have "c \<le> length buf" "c \<le> length data" by (simp_all add: c_def)
  then have "ops_read (Data data) buf 0 (of_nat c) = Inr (Inr (take c data @ drop c buf))"
    by (simp add: uc slice_def copy_into_def)
  then show ?thesis
    using n pos len cnt by (simp add: ramfs_read_def add_w_def u uc Let_def)
qed

text \<open>
  C7: writing to a file through a descriptor at position zero replaces the first bytes of the file, keeps the rest and moves the write position
  behind them, and reading the file through a fresh descriptor gives those bytes back: the
  count is the smaller of the two lengths, and the rest of the caller's buffer is untouched.
\<close>
theorem write_then_read:
  assumes v: "bt_inv v" "bt_get v (fd_mountpoint fd) = Some root"
    and fl: "node_at root (fd_node fd) = Some (Inode nm File (Data old))"
    and pos: "write_pos fd = 0" and fresh: "fd_mountpoint fd2 = fd_mountpoint fd" "fd_node fd2 = fd_node fd" "read_pos fd2 = 0"
    and len: "length buf < 2 ^ 64" "length old < 2 ^ 64" "length buf2 < 2 ^ 64"
  shows "\<exists>v'. vfs_write v fd buf = Inr (Inr (), fd\<lparr>write_pos := of_nat (length buf)\<rparr>, v') \<and>
    (let data = buf @ drop (length buf) old; c = min (length buf2) (length data) in
     vfs_read v' fd2 buf2 = Inr (Inr (of_nat c), fd2\<lparr>read_pos := of_nat c\<rparr>, take c data @ drop c buf2))"
proof -
  let ?data = "buf @ drop (length buf) old"
  let ?root' = "set_ops root (fd_node fd) (Data ?data)"
  let ?v' = "bt_insert (fd_mountpoint fd) ?root' v"
  have u: "unat (of_nat (length buf) :: usize) = length buf" using len by (simp add: unat_of_nat_small)
  have "ramfs_write root fd buf = Inr (Inr (), fd\<lparr>write_pos := of_nat (length buf)\<rparr>, ?root')"
    using ops_write_start [OF len(1,2)] len u by (simp add: ramfs_write_def deref_def fl pos add_w_def)
  then have w: "vfs_write v fd buf = Inr (Inr (), fd\<lparr>write_pos := of_nat (length buf)\<rparr>, ?v')"
    by (simp add: vfs_write_def mounted_def v(2))
  have "deref ?root' (fd_node fd2) = Inr (Inode nm File (Data ?data))"
    using set_ops_same [OF fl] fresh by (simp add: deref_def)
  moreover have "length ?data < 2 ^ 64" using len by simp
  moreover have "mounted ?v' fd2 = Inr ?root'" using fresh by (simp add: mounted_def bt_get_insert)
  ultimately show ?thesis
    using w read_start [of ?root' fd2 nm ?data buf2] fresh len by (simp add: vfs_read_def Let_def)
qed

theorem write_then_read_witness:
  "\<exists>fd' v'. vfs_write example_vfs \<lparr>fd_mountpoint = ''ram'', fd_node = [''f''], read_pos = 0, write_pos = 0\<rparr> [7, 8] =
      Inr (Inr (), fd', v') \<and>
    (\<exists>fd2'. vfs_read v' \<lparr>fd_mountpoint = ''ram'', fd_node = [''f''], read_pos = 0, write_pos = 0\<rparr> [0, 0, 0, 0] =
      Inr (Inr 3, fd2', [7, 8, 3, 0]))"
proof -
  let ?fd = "\<lparr>fd_mountpoint = ''ram'', fd_node = [''f''], read_pos = 0, write_pos = 0\<rparr>"
  have v: "bt_inv example_vfs" "bt_get example_vfs (fd_mountpoint ?fd) = Some example_root"
    using example_on_drive by (simp_all add: on_drive_def)
  have "node_at example_root (fd_node ?fd) = Some (Inode ''f'' File (Data [1, 2, 3]))"
    by (simp add: bt_get_def)
  from write_then_read [OF v this, of ?fd "[7, 8]" "[0, 0, 0, 0]"]
  show ?thesis by (auto simp: Let_def)
qed

text \<open>
  A descriptor works for one write only: once its write position is not zero, every further write to the file panics, because the
  target range ends at the length of the buffer instead of behind the offset.
\<close>
lemma write_at_offset_panics:
  assumes "bt_get v (fd_mountpoint fd) = Some root"
    and "node_at root (fd_node fd) = Some (Inode nm File (Data old))" and "write_pos fd \<noteq> 0"
  shows "\<exists>p. vfs_write v fd buf = Inl p"
proof -
  have "0 < unat (write_pos fd)" using assms(3) by (simp add: unat_gt_0)
  then have "copy_into d (unat (write_pos fd)) (length buf) buf \<noteq> Inr e" for d e
    by (auto simp: copy_into_def)
  then have "\<exists>p. ops_write (Data old) buf (write_pos fd) = Inl p"
    by (cases "add_w (of_nat (length buf)) (write_pos fd)")
       (auto simp: Let_def rbind_def split: sum.splits)
  then show ?thesis
    using assms by (auto simp: vfs_write_def mounted_def ramfs_write_def deref_def)
qed

text \<open>
  Reading goes wrong the same way: once the read position of a descriptor is not zero, every further read of
  the file panics, at the end of the file included, so a file cannot be read in pieces.
\<close>
lemma read_at_offset_panics:
  assumes "bt_get v (fd_mountpoint fd) = Some root"
    and "node_at root (fd_node fd) = Some (Inode nm File (Data data))" and "read_pos fd \<noteq> 0"
  shows "\<exists>p. vfs_read v fd buf = Inl p"
proof -
  have pos: "0 < unat (read_pos fd)" using assms(3) by (simp add: unat_gt_0)
  have "\<exists>p. ops_read (Data data) buf (read_pos fd) c = Inl p" for c
    using pos by (auto simp: slice_def copy_into_def rbind_def split: sum.splits if_splits)
  then have "rbind (ops_read (Data data) buf (read_pos fd) c) f \<noteq> Inr r" for c r
    and f :: "fs_error + u8 list \<Rightarrow> ((fs_error + usize) \<times> file_descriptor \<times> u8 list) rust"
    by (metis rbind_Inl Inl_Inr_False)
  then have "vfs_read v fd buf \<noteq> Inr r" for r
    using assms by (auto simp: vfs_read_def mounted_def ramfs_read_def deref_def Let_def rust_simps simp del: ops_read.simps)
  then show ?thesis by (metis sum.exhaust)
qed

text \<open>
  A descriptor of a file works for one write and one read: once its write position is not zero every further write panics, and
  once its read position is not zero every further read does, at the end of the file included, because the ranges end
  at the length of the buffer instead of behind the offset.
\<close>
lemma descriptor_works_once:
  assumes "bt_get v (fd_mountpoint fd) = Some root"
    and "node_at root (fd_node fd) = Some (Inode nm File (Data data))"
  shows "(write_pos fd \<noteq> 0 \<longrightarrow> (\<exists>p. vfs_write v fd buf = Inl p)) \<and>
    (read_pos fd \<noteq> 0 \<longrightarrow> (\<exists>p. vfs_read v fd buf = Inl p))"
  using write_at_offset_panics [OF assms] read_at_offset_panics [OF assms] by blast

lemma descriptor_works_once_example:
  "\<exists>p q. vfs_write example_vfs \<lparr>fd_mountpoint = ''ram'', fd_node = [''f''], read_pos = 3, write_pos = 2\<rparr> [9] = Inl p \<and>
    vfs_read example_vfs \<lparr>fd_mountpoint = ''ram'', fd_node = [''f''], read_pos = 3, write_pos = 2\<rparr> [9] = Inl q"
proof -
  let ?fd = "\<lparr>fd_mountpoint = ''ram'', fd_node = [''f''], read_pos = 3, write_pos = 2 :: usize\<rparr>"
  have "bt_get example_vfs (fd_mountpoint ?fd) = Some example_root"
    "node_at example_root (fd_node ?fd) = Some (Inode ''f'' File (Data [1, 2, 3]))"
    by (simp_all add: example_vfs_def bt_get_def)
  from descriptor_works_once [OF this, of "[9]"] show ?thesis by auto
qed

section \<open>Dots in paths\<close>

lemma reslove_down:
  assumes wf: "wf_inode root"
  shows "\<forall>c \<in> set comps. plain_name c \<Longrightarrow> node_at root (cur @ comps) = Some n \<Longrightarrow>
    reslove_loop root (comps @ rest) cur prev =
      reslove_loop root rest (cur @ comps) (if comps = [] then prev else cur @ butlast comps)"
proof (induction comps arbitrary: cur prev)
  case (Cons c comps)
  have c: "c \<noteq> ''''" "c \<noteq> ''.''" "c \<noteq> ''..''" using Cons.prems(1) by (auto simp: plain_name_def)
  obtain d m where d: "node_at root (cur @ [c]) = Some d" and m: "node_at root cur = Some m"
    using Cons.prems(2) node_at_append [of root "cur @ [c]" comps] node_at_append [of root cur "[c]"]
    by (auto split: option.splits)
  then obtain cs where cs: "iops m = Children cs" "bt_get cs c = Some d"
    by (auto simp: node_at_snoc split: ram_inode.splits)
  have "reslove_loop root ((c # comps) @ rest) cur prev = reslove_loop root (comps @ rest) (cur @ [c]) cur"
    using c m cs wf_parent [OF wf_node_at [OF wf m] cs(1)] by (simp add: deref_def bt_contains_def)
  then show ?case using Cons.IH [of "cur @ [c]" cur] Cons.prems by simp
qed simp

text \<open>
  \<open>..\<close> goes up one level and no further: after any path of plain names, one \<open>..\<close> leads to the
  parent, and so does every longer run of them, because following \<open>..\<close> does not update the previous inode.
\<close>
lemma dotdot_goes_up_once:
  assumes wf: "wf_inode root" and plain: "\<forall>p \<in> set comps. plain_name p" "plain_name c"
    and node: "node_at root (comps @ [c]) = Some n"
  shows "reslove_loop root ((comps @ [c]) @ replicate (Suc k) ''..'') [] [] = Inr (Inr comps)"
proof -
  have "reslove_loop root (replicate k ''..'') p p = Inr (Inr p)" for p
    by (induction k) auto
  moreover have "\<forall>p \<in> set (comps @ [c]). plain_name p" using plain by simp
  ultimately show ?thesis
    using reslove_down [OF wf, of "comps @ [c]" "[]" n "replicate (Suc k) ''..''" "[]"] node by simp
qed

lemma dotdot_goes_up_once_example:
  "reslove_loop (Inode '''' Directory (Children [(''a'', Inode ''a'' Directory (Children [(''b'', new_dir ''b'')]))]))
     ([''a''] @ [''b''] @ [''..'', ''..'']) [] [] = Inr (Inr [''a''])"
proof -
  let ?r = "Inode '''' Directory (Children [(''a'', Inode ''a'' Directory (Children [(''b'', new_dir ''b'')]))])"
  have "wf_inode ?r" by (simp add: bt_inv_def new_dir_def)
  moreover have "node_at ?r ([''a''] @ [''b'']) = Some (new_dir ''b'')" by (simp add: bt_get_def)
  ultimately show ?thesis
    using dotdot_goes_up_once [of ?r "[''a'']" "''b''" "new_dir ''b''" 1] by (simp add: plain_name_def is_sep_def)
qed

section \<open>Mounting\<close>

text \<open>
  A drive is found under its name and under its name with a colon from the moment it is mounted until it is unmounted; mounting a
  name that is taken and unmounting one that is not fail and change nothing; no other drive is affected.
\<close>
lemma mount_umount_correct:
  assumes inv: "bt_inv v" and nc: "\<not> ends_with_colon d"
  shows "(case bt_get v d of
      Some _ \<Rightarrow> mount d fs v = (Inl (), v)
    | None \<Rightarrow> (\<exists>v'. mount d fs v = (Inr (), v') \<and> bt_inv v' \<and>
        get_with_name v' d = Some fs \<and> get_with_name v' (d @ '':'') = Some fs \<and>
        (\<forall>e. drive_key e \<noteq> d \<longrightarrow> get_with_name v' e = get_with_name v e) \<and>
        umount d v' = (Inr (), v) \<and> umount d v = (Inl (), v)))"
proof (cases "bt_get v d")
  case None
  let ?v' = "bt_insert d fs v"
  have keys: "drive_key d = d" "drive_key (d @ '':'') = d"
    using nc by (auto simp: drive_key_def ends_with_colon_def)
  have "bt_get (bt_remove d ?v') = bt_get v" using bt.remove_insert [OF inv None] .
  then have "bt_remove d ?v' = v"
    using bt.entries_eqI [of "bt_remove d ?v'" v] inv by (simp add: bt_inv_insert bt_inv_remove)
  moreover have "umount d v = (Inl (), v)" using None by (simp add: umount_def bt_contains_def)
  ultimately show ?thesis
    using None inv keys by (simp add: mount_def umount_def bt_contains_def get_with_name_def bt_get_insert bt_inv_insert)
next
  case (Some r)
  then show ?thesis by (simp add: mount_def bt_contains_def)
qed

lemma mount_umount_correct_example:
  "\<exists>v'. mount ''tmp'' new_root example_vfs = (Inr (), v') \<and> get_with_name v' ''tmp:'' = Some new_root \<and>
     umount ''tmp'' v' = (Inr (), example_vfs)"
proof -
  have "bt_inv example_vfs" using example_on_drive by (simp add: on_drive_def)
  moreover have "bt_get example_vfs ''tmp'' = None" by (simp add: example_vfs_def bt_get_def)
  ultimately show ?thesis
    using mount_umount_correct [of example_vfs "''tmp''" new_root] by (auto simp: ends_with_colon_def)
qed

section \<open>Every history of the file system\<close>

definition vfs_inv :: "vfs \<Rightarrow> bool" where
  "vfs_inv v \<longleftrightarrow> bt_inv v \<and> (\<forall>d root. bt_get v d = Some root \<longrightarrow> wf_inode root)"

inductive vfs_run :: "vfs \<Rightarrow> bool" where
  init: "vfs_init vfs_new = Inr v \<Longrightarrow> vfs_run v"
| mount: "vfs_run v \<Longrightarrow> mount name ramfs_new v = (r, v') \<Longrightarrow> vfs_run v'"
| umount: "vfs_run v \<Longrightarrow> umount name v = (r, v') \<Longrightarrow> vfs_run v'"
| wr: "vfs_run v \<Longrightarrow> vfs_write v fd buf = Inr (r, fd', v') \<Longrightarrow> vfs_run v'"
| create: "vfs_run v \<Longrightarrow> vfs_create v path name = Inr (r, v') \<Longrightarrow> vfs_run v'"
| createdir: "vfs_run v \<Longrightarrow> vfs_createdir v path name = Inr (r, v') \<Longrightarrow> vfs_run v'"

lemma insert_node_wf:
  assumes "insert_node root path node = Inr (r, root')" and wf: "wf_inode root" "wf_inode node"
  shows "wf_inode root'"
proof -
  obtain rp where rp: "reslove_path root path = Inr rp" using assms(1) by (auto simp: insert_node_def rust_simps)
  show ?thesis
  proof (cases rp)
    case (Inl e)
    then show ?thesis using assms rp by (simp add: insert_node_def)
  next
    case (Inr p)
    then obtain n where n: "node_at root p = Some n"
      using assms(1) rp by (auto simp: insert_node_def deref_def split: option.splits)
    show ?thesis
    proof (cases "\<exists>cs. itype n = Directory \<and> iops n = Children cs")
      case True
      then obtain cs where cs: "itype n = Directory" "iops n = Children cs" by blast
      have "wf_ops (itype n) (Children cs)" using wf_node_at [OF wf(1) n] cs by (cases n) simp
      then have "wf_ops (itype n) (Children (bt_insert (iname node) node cs))"
        using wf(2) by (simp add: bt_inv_insert wf_children_insert)
      then have "wf_inode (set_ops root p (Children (bt_insert (iname node) node cs)))"
        by (rule wf_set_ops [OF wf(1) n])
      then show ?thesis using assms(1) rp Inr n cs by (simp add: insert_node_def deref_def)
    next
      case False
      then have "root' = root"
        using assms(1) rp Inr n
        by (cases "iops n") (auto simp: insert_node_def deref_def split: if_splits)
      then show ?thesis using wf by simp
    qed
  qed
qed

lemma ramfs_write_wf:
  assumes "ramfs_write root fd buf = Inr (r, fd', root')" and wf: "wf_inode root"
  shows "wf_inode root'"
proof -
  obtain n where n: "node_at root (fd_node fd) = Some n"
    using assms(1) by (auto simp: ramfs_write_def deref_def split: option.splits)
  have wfn: "wf_ops (itype n) (iops n)" using wf_node_at [OF wf n] by (cases n) simp
  show ?thesis
  proof (cases "iops n")
    case (Data old)
    then obtain e d where e: "add_w (of_nat (length buf)) (write_pos fd) = Inr e"
      and d: "copy_into (if (of_nat (length old) :: usize) < e then resize old (unat e) else old)
        (unat (write_pos fd)) (length buf) buf = Inr d"
      and root': "root' = set_ops root (fd_node fd) (Data d)"
      using assms(1) n by (auto simp: ramfs_write_def deref_def rust_simps Let_def)
    have "length d = length (if (of_nat (length old) :: usize) < e then resize old (unat e) else old)"
      using copy_into_length [OF d] .
    moreover have "length old < 2 ^ 64" using wfn Data by simp
    moreover then have "length old < unat e" if "(of_nat (length old) :: usize) < e"
      using that by (simp add: word_less_nat_alt unat_of_nat_small)
    ultimately have "length d < 2 ^ 64" using unat_lt_2p64 [of e]
      by (auto simp: resize_def split: if_splits)
    then have "wf_ops (itype n) (Data d)" using wfn Data by simp
    then show ?thesis unfolding root' by (rule wf_set_ops [OF wf n])
  qed (use assms n in \<open>auto simp: ramfs_write_def deref_def\<close>)
qed

lemma vfs_inv_update:
  "vfs_inv v \<Longrightarrow> wf_inode root' \<Longrightarrow> vfs_inv (bt_insert d root' v)"
  by (auto simp: vfs_inv_def bt_inv_insert bt_get_insert)

lemma drive_of_wf: "vfs_inv v \<Longrightarrow> drive_of v path = Inr (d, root) \<Longrightarrow> wf_inode root"
  by (auto simp: vfs_inv_def drive_of_def get_from_path_def get_with_name_mut_def Let_def
      split: if_splits sum.splits option.splits)

lemma insert_on_drive_wf:
  assumes inv: "vfs_inv v" and node: "wf_inode node"
    and run: "(case drive_of v path of
        Inl e \<Rightarrow> Inr (Inl e, v)
      | Inr (d, root) \<Rightarrow> rbind (insert_node root path node) (\<lambda>(r, root'). Inr (r, bt_insert d root' v))) = Inr (r, v')"
  shows "vfs_inv v'"
proof (cases "drive_of v path")
  case (Inl e)
  then show ?thesis using run inv by simp
next
  case (Inr x)
  obtain d root where x: "x = (d, root)" by (cases x)
  then obtain root' where "insert_node root path node = Inr (r, root')" "v' = bt_insert d root' v"
    using run Inr by (auto simp: rust_simps)
  then show ?thesis
    using insert_node_wf drive_of_wf [OF inv] Inr x node vfs_inv_update [OF inv] by blast
qed

lemma vfs_init_inv: "vfs_init vfs_new = Inr v \<Longrightarrow> vfs_inv v"
  by (auto simp: vfs_init_def mount_def vfs_new_def bt_contains_def bt_get_def vfs_inv_def bt_inv_def
      ramfs_new_def new_root_def split: if_splits)

lemma vfs_create_inv: "vfs_inv v \<Longrightarrow> vfs_create v path name = Inr (r, v') \<Longrightarrow> vfs_inv v'"
  unfolding vfs_create_def ramfs_create_def
  by (rule insert_on_drive_wf[where node = "new_file name []"]) (simp_all add: new_file_def)

lemma vfs_createdir_inv: "vfs_inv v \<Longrightarrow> vfs_createdir v path name = Inr (r, v') \<Longrightarrow> vfs_inv v'"
  unfolding vfs_createdir_def ramfs_createdir_def
  by (rule insert_on_drive_wf[where node = "new_dir name"]) (simp_all add: new_dir_def bt_inv_def)

lemma vfs_write_inv:
  assumes inv: "vfs_inv v" and "vfs_write v fd buf = Inr (r, fd', v')"
  shows "vfs_inv v'"
proof -
  from assms(2) obtain root root' where r: "bt_get v (fd_mountpoint fd) = Some root"
    "ramfs_write root fd buf = Inr (r, fd', root')" "v' = bt_insert (fd_mountpoint fd) root' v"
    by (auto simp: vfs_write_def mounted_def rust_simps split: option.splits)
  with inv have "wf_inode root'" using ramfs_write_wf by (auto simp: vfs_inv_def)
  with inv r(3) show ?thesis using vfs_inv_update by simp
qed

text \<open>
  C12: whatever sequence of mounts, unmounts, writes, file and directory creations the kernel performs, every mounted tree stays well
  formed: directories hold children and files hold data, children are ordered by name and filed under their own
  name.
\<close>
theorem vfs_run_wf:
  assumes "vfs_run v"
  shows "bt_inv v \<and> (\<forall>d root. bt_get v d = Some root \<longrightarrow> wf_inode root)"
proof -
  from assms have "vfs_inv v"
  proof (induction rule: vfs_run.induct)
    case (init v)
    then show ?case by (rule vfs_init_inv)
  next
    case (mount v name r v')
    then show ?case using vfs_inv_update [of v ramfs_new]
      by (auto simp: mount_def ramfs_new_def new_root_def bt_inv_def split: if_splits)
  next
    case (umount v name r v')
    then show ?case by (auto simp: umount_def vfs_inv_def bt_inv_remove bt_get_remove split: if_splits)
  next
    case (wr v fd buf r fd' v')
    then show ?case using vfs_write_inv by blast
  next
    case (create v path name r v')
    then show ?case using vfs_create_inv by blast
  next
    case (createdir v path name r v')
    then show ?case using vfs_createdir_inv by blast
  qed
  then show ?thesis by (simp add: vfs_inv_def)
qed

theorem vfs_run_wf_witness:
  "vfs_run [(''ram'', new_root)] \<and> wf_inode new_root"
proof -
  have "vfs_run [(''ram'', new_root)]"
    by (rule vfs_run.init)
       (simp add: vfs_init_def mount_def vfs_new_def bt_contains_def bt_get_def ramfs_new_def)
  with vfs_run_wf [OF this] show ?thesis by (auto simp: bt_get_def)
qed

end
