(* ===== verification/Keyboard.thy ===== *)
theory Keyboard
  imports Prelude
begin

text \<open>
  \<open>kernel/src/drivers/keyboard.rs\<close>: the PS/2 keyboard driver. Scan codes of set 1 arrive byte by byte;
  a byte 0xE0 is a prefix and is kept in an eight-byte buffer, any other byte ends a code. The code is
  looked up as a little-endian \<open>u64\<close>, and the key is added to or removed from the list of pressed keys.

  The three static variables of the driver are the record \<open>keyboard\<close>. The call of
  \<open>__navi_key_pressed\<close> hands the key to the terminal and does not touch that state, so it is an output of the driver.
\<close>

section \<open>Key codes\<close>

datatype (plugins only: size) keycode =
    NULL | F1 | F2 | F3 | F4 | F5 | F6 | F7 | F8 | F9 | F10 | F11 | F12 | PrintScr
  | Esc | Key1 | Key2 | Key3 | Key4 | Key5 | Key6 | Key7 | Key8 | Key9 | Key0 | Minus | Equals | Backspace
  | KeyQ | KeyW | KeyE | KeyR | KeyT | KeyY | KeyU | KeyI | KeyO | KeyP | LeftBrace | RightBrace | BackSlash
  | KeyA | KeyS | KeyD | KeyF | KeyG | KeyH | KeyJ | KeyK | KeyL | Semicolon | DoubleQuote | Return
  | KeyZ | KeyX | KeyC | KeyV | KeyB | KeyN | KeyM | BackQuote | Comma | Dot | Slash
  | Tab | CapsLock | Ctrl | Shift | Alt | Super | Space | Up | Down | Left | Right
  | PageUp | PageDown | Insert | Delete | Home | End | LastKey

text \<open>The discriminants: row number in the upper three bits, column in the lower five.\<close>

primrec keycode_u8 :: "keycode \<Rightarrow> u8" where
  "keycode_u8 NULL = 0"
| "keycode_u8 F1 = 1"
| "keycode_u8 F2 = 2"
| "keycode_u8 F3 = 3"
| "keycode_u8 F4 = 4"
| "keycode_u8 F5 = 5"
| "keycode_u8 F6 = 6"
| "keycode_u8 F7 = 7"
| "keycode_u8 F8 = 8"
| "keycode_u8 F9 = 9"
| "keycode_u8 F10 = 10"
| "keycode_u8 F11 = 11"
| "keycode_u8 F12 = 12"
| "keycode_u8 PrintScr = 13"
| "keycode_u8 Esc = 32"
| "keycode_u8 Key1 = 33"
| "keycode_u8 Key2 = 34"
| "keycode_u8 Key3 = 35"
| "keycode_u8 Key4 = 36"
| "keycode_u8 Key5 = 37"
| "keycode_u8 Key6 = 38"
| "keycode_u8 Key7 = 39"
| "keycode_u8 Key8 = 40"
| "keycode_u8 Key9 = 41"
| "keycode_u8 Key0 = 42"
| "keycode_u8 Minus = 43"
| "keycode_u8 Equals = 44"
| "keycode_u8 Backspace = 45"
| "keycode_u8 KeyQ = 64"
| "keycode_u8 KeyW = 65"
| "keycode_u8 KeyE = 66"
| "keycode_u8 KeyR = 67"
| "keycode_u8 KeyT = 68"
| "keycode_u8 KeyY = 69"
| "keycode_u8 KeyU = 70"
| "keycode_u8 KeyI = 71"
| "keycode_u8 KeyO = 72"
| "keycode_u8 KeyP = 73"
| "keycode_u8 LeftBrace = 74"
| "keycode_u8 RightBrace = 75"
| "keycode_u8 BackSlash = 76"
| "keycode_u8 KeyA = 96"
| "keycode_u8 KeyS = 97"
| "keycode_u8 KeyD = 98"
| "keycode_u8 KeyF = 99"
| "keycode_u8 KeyG = 100"
| "keycode_u8 KeyH = 101"
| "keycode_u8 KeyJ = 102"
| "keycode_u8 KeyK = 103"
| "keycode_u8 KeyL = 104"
| "keycode_u8 Semicolon = 105"
| "keycode_u8 DoubleQuote = 106"
| "keycode_u8 Return = 107"
| "keycode_u8 KeyZ = 128"
| "keycode_u8 KeyX = 129"
| "keycode_u8 KeyC = 130"
| "keycode_u8 KeyV = 131"
| "keycode_u8 KeyB = 132"
| "keycode_u8 KeyN = 133"
| "keycode_u8 KeyM = 134"
| "keycode_u8 BackQuote = 135"
| "keycode_u8 Comma = 136"
| "keycode_u8 Dot = 137"
| "keycode_u8 Slash = 138"
| "keycode_u8 Tab = 160"
| "keycode_u8 CapsLock = 161"
| "keycode_u8 Ctrl = 162"
| "keycode_u8 Shift = 163"
| "keycode_u8 Alt = 164"
| "keycode_u8 Super = 165"
| "keycode_u8 Space = 166"
| "keycode_u8 Up = 167"
| "keycode_u8 Down = 168"
| "keycode_u8 Left = 169"
| "keycode_u8 Right = 170"
| "keycode_u8 PageUp = 192"
| "keycode_u8 PageDown = 193"
| "keycode_u8 Insert = 194"
| "keycode_u8 Delete = 195"
| "keycode_u8 Home = 196"
| "keycode_u8 End = 197"
| "keycode_u8 LastKey = 198"

definition all_keycodes :: "keycode list" where
  "all_keycodes =
     [NULL, F1, F2, F3, F4, F5, F6, F7, F8, F9, F10, F11, F12, PrintScr, Esc, Key1, Key2, Key3,
      Key4, Key5, Key6, Key7, Key8, Key9, Key0, Minus, Equals, Backspace, KeyQ, KeyW, KeyE, KeyR,
      KeyT, KeyY, KeyU, KeyI, KeyO, KeyP, LeftBrace, RightBrace, BackSlash, KeyA, KeyS, KeyD, KeyF,
      KeyG, KeyH, KeyJ, KeyK, KeyL, Semicolon, DoubleQuote, Return, KeyZ, KeyX, KeyC, KeyV, KeyB,
      KeyN, KeyM, BackQuote, Comma, Dot, Slash, Tab, CapsLock, Ctrl, Shift, Alt, Super, Space, Up,
      Down, Left, Right, PageUp, PageDown, Insert, Delete, Home, End, LastKey]"

text \<open>
  \<open>Set1Key\<close> with its discriminants. The variants have the names of the key codes, and the derived
  \<open>encode\<close> sends each to the key code of its name, so the table pairs the scan code with that key code.
\<close>

definition set1_table :: "(u64 \<times> keycode) list" where
  "set1_table =
     [(0, NULL), (0x3B, F1), (0x3C, F2), (0x3D, F3), (0x3E, F4), (0x3F, F5), (0x40, F6), (0x41, F7),
      (0x42, F8), (0x43, F9), (0x44, F10), (0x57, F11), (0x58, F12), (0x37E02AE0, PrintScr),
      (0x1, Esc), (0x2, Key1), (0x3, Key2), (0x4, Key3), (0x5, Key4), (0x6, Key5), (0x7, Key6),
      (0x8, Key7), (0x9, Key8), (0xA, Key9), (0xB, Key0), (0xC, Minus), (0xD, Equals),
      (0xE, Backspace), (0x10, KeyQ), (0x11, KeyW), (0x12, KeyE), (0x13, KeyR), (0x14, KeyT),
      (0x15, KeyY), (0x16, KeyU), (0x17, KeyI), (0x18, KeyO), (0x19, KeyP), (0x1A, LeftBrace),
      (0x1B, RightBrace), (0x2B, BackSlash), (0x1E, KeyA), (0x1F, KeyS), (0x20, KeyD), (0x21, KeyF),
      (0x22, KeyG), (0x23, KeyH), (0x24, KeyJ), (0x25, KeyK), (0x26, KeyL), (0x27, Semicolon),
      (0x28, DoubleQuote), (0x1C, Return), (0x2C, KeyZ), (0x2D, KeyX), (0x2E, KeyC), (0x2F, KeyV),
      (0x30, KeyB), (0x31, KeyN), (0x32, KeyM), (0x29, BackQuote), (0x33, Comma), (0x34, Dot),
      (0x35, Slash), (0x0F, Tab), (0x3A, CapsLock), (0x1D, Ctrl), (0x2A, Shift), (0x38, Alt),
      (0x5BE0, Super), (0x39, Space), (0x48E0, Up), (0x50E0, Down), (0x4BE0, Left), (0x4DE0, Right),
      (0x49E0, PageUp), (0x51E0, PageDown), (0x52E0, Insert), (0x53E0, Delete), (0x47E0, Home),
      (0x4FE0, End)]"

definition set1_try_from :: "u64 \<Rightarrow> keycode option" where
  "set1_try_from = map_of set1_table"

section \<open>Pressed keys\<close>

type_synonym key_flags = u8

definition CTRL :: key_flags where "CTRL = 1"
definition ALT :: key_flags where "ALT = 2"
definition SHIFT :: key_flags where "SHIFT = 4"
definition CAPS_LOCK :: key_flags where "CAPS_LOCK = 8"

record key =
  code :: keycode
  flags :: key_flags

definition MAX_KEYS :: nat where "MAX_KEYS = 256"

record keyboard =
  current_unencoded_key :: "u8 list"
  latest_unencoded_byte :: nat
  current_keys :: "key list"

definition keyboard_boot :: keyboard where
  "keyboard_boot = \<lparr>current_unencoded_key = replicate 8 0, latest_unencoded_byte = 0, current_keys = []\<rparr>"

definition get_pressed_key_flags :: "keycode \<Rightarrow> keyboard \<Rightarrow> key_flags option" where
  "get_pressed_key_flags c kb = map_option flags (find (\<lambda>k. code k = c) (current_keys kb))"

definition key_is_pressed :: "keycode \<Rightarrow> key_flags \<Rightarrow> keyboard \<Rightarrow> bool" where
  "key_is_pressed c f kb \<longleftrightarrow> \<lparr>code = c, flags = f\<rparr> \<in> set (current_keys kb)"

definition is_pressed :: "keycode \<Rightarrow> keyboard \<Rightarrow> bool" where
  "is_pressed c kb \<longleftrightarrow> get_pressed_key_flags c kb \<noteq> None"

definition process_keycode :: "keycode \<Rightarrow> keyboard \<Rightarrow> key" where
  "process_keycode keycode kb =
     (let f0 = 0;
          f1 = (if is_pressed Ctrl kb \<and> keycode \<noteq> Ctrl then f0 OR CTRL else f0);
          f2 = (if is_pressed Shift kb \<and> keycode \<noteq> Shift then f1 OR SHIFT else f1);
          f3 = (if is_pressed Alt kb \<and> keycode \<noteq> Alt then f2 OR ALT else f2);
          f4 = (if is_pressed CapsLock kb \<and> keycode \<noteq> CapsLock then f3 OR CAPS_LOCK else f3)
      in \<lparr>code = keycode, flags = f4\<rparr>)"

definition reset_unencoded_buffer :: "keyboard \<Rightarrow> keyboard" where
  "reset_unencoded_buffer kb =
     kb\<lparr>current_unencoded_key := replicate 8 0, latest_unencoded_byte := 0\<rparr>"

fun remove_first :: "('a \<Rightarrow> bool) \<Rightarrow> 'a list \<Rightarrow> 'a list" where
  "remove_first P [] = []"
| "remove_first P (x # xs) = (if P x then xs else x # remove_first P xs)"

definition remove_pressed_keycode :: "keycode \<Rightarrow> keyboard \<Rightarrow> keyboard" where
  "remove_pressed_keycode c kb =
     (if c = NULL then kb
      else kb\<lparr>current_keys := remove_first (\<lambda>k. code k = c) (current_keys kb)\<rparr>)"

text \<open>
  \<open>Vec::push\<close> of the fixed-capacity vector gives the element back when the vector is full; the driver then overwrites
  the last element. The result is the key passed to \<open>__navi_key_pressed\<close>, if it is called.
\<close>

definition add_pressed_keycode :: "keycode \<Rightarrow> keyboard \<Rightarrow> (key option \<times> keyboard) rust" where
  "add_pressed_keycode c kb =
     (if c = NULL then Inr (None, kb)
      else if c = CapsLock \<and> is_pressed c kb then Inr (None, remove_pressed_keycode c kb)
      else let key = process_keycode c kb in
        if length (current_keys kb) < MAX_KEYS
        then Inr (Some key, kb\<lparr>current_keys := current_keys kb @ [key]\<rparr>)
        else if current_keys kb = [] then Inl UnwrapFailed
        else Inr (Some key, kb\<lparr>current_keys := butlast (current_keys kb) @ [key]\<rparr>))"

text \<open>\<open>transmute\<close> of the eight bytes to a \<open>u64\<close> on a little-endian machine.\<close>

fun le_u64 :: "u8 list \<Rightarrow> u64" where
  "le_u64 [] = 0"
| "le_u64 (b # bs) = ucast b + 256 * le_u64 bs"

definition encode_ps2_set_1 :: "u8 \<Rightarrow> keyboard \<Rightarrow> (key option \<times> keyboard) rust" where
  "encode_ps2_set_1 c kb =
     rbind (idx_set (current_unencoded_key kb) (latest_unencoded_byte kb) c) (\<lambda>buf.
     let kb1 = kb\<lparr>current_unencoded_key := buf\<rparr> in
     if c = 0xE0 then Inr (None, kb1\<lparr>latest_unencoded_byte := latest_unencoded_byte kb + 1\<rparr>)
     else
       rbind (idx buf (latest_unencoded_byte kb)) (\<lambda>b.
       let break_code = (b AND 128 = 128) in
       rbind (if break_code then rbind (sub_w b 0x80) (idx_set buf (latest_unencoded_byte kb)) else Inr buf)
         (\<lambda>buf2.
       let kb2 = kb1\<lparr>current_unencoded_key := buf2\<rparr>;
           encoded = (case set1_try_from (le_u64 buf2) of None \<Rightarrow> NULL | Some k \<Rightarrow> k) in
       rbind (if break_code
              then Inr (None, if encoded \<noteq> CapsLock then remove_pressed_keycode encoded kb2 else kb2)
              else add_pressed_keycode encoded kb2) (\<lambda>(out, kb3).
       Inr (out, reset_unencoded_buffer kb3)))))"

text \<open>The bytes the interrupt handler passes on, one call each, and the keys they report.\<close>

fun feed :: "u8 list \<Rightarrow> keyboard \<Rightarrow> (key list \<times> keyboard) rust" where
  "feed [] kb = Inr ([], kb)"
| "feed (b # bs) kb =
     rbind (encode_ps2_set_1 b kb) (\<lambda>(out, kb1).
     rbind (feed bs kb1) (\<lambda>(outs, kb2). Inr ((case out of None \<Rightarrow> outs | Some k \<Rightarrow> k # outs), kb2)))"

end
