(* ===== verification/Keyboard_Props.thy ===== *)
theory Keyboard_Props
  imports Keyboard
begin

text \<open>
  Properties of the keyboard driver: how scan codes are decoded, when the driver panics, what pressing,
  holding and releasing a key does to the list of pressed keys, and the lock behaviour of Caps Lock.
\<close>

section \<open>Bytes and words\<close>

lemma and_exp_eq: "b AND 2 ^ n = (if bit b n then 2 ^ n else 0)" for b :: "'a::len word"
  by (rule bit_eqI) (auto simp: bit_and_iff bit_exp_iff)

lemma bit_7_iff: "bit b 7 \<longleftrightarrow> 128 \<le> b" for b :: u8
proof -
  have lt: "unat b < 256" using unsigned_less[of b] by simp
  have "bit b 7 \<longleftrightarrow> odd (unat b div 128)"
    using bit_unsigned_iff[where 'a=nat, of b 7] by (simp add: bit_iff_odd)
  also have "\<dots> \<longleftrightarrow> 128 \<le> unat b"
  proof (cases "128 \<le> unat b")
    case True
    then have "unat b div 128 = 1" using lt by (simp add: div_nat_eqI)
    with True show ?thesis by simp
  qed simp
  also have "\<dots> \<longleftrightarrow> 128 \<le> b" by (simp add: word_le_nat_alt)
  finally show ?thesis .
qed

lemma and_128_iff: "b AND 128 = 128 \<longleftrightarrow> 128 \<le> b" for b :: u8
  using and_exp_eq[of b 7] by (simp add: bit_7_iff split: if_splits)

text \<open>A sum whose second part is a multiple of 2 to the 16 keeps its low two bytes.\<close>

lemma unat_mod_2p16: "unat (a + 65536 * x) mod 65536 = unat a mod 65536" for a x :: u64
proof -
  have "unat (a + 65536 * x) = (unat a + 65536 * unat x mod 2 ^ 64) mod 2 ^ 64"
    by (simp add: unat_word_ariths)
  also have "\<dots> mod 65536 = (unat a + 65536 * unat x mod 2 ^ 64) mod 65536"
    by (rule mod_mod_cancel) simp
  also have "\<dots> = (unat a + 65536 * unat x mod 2 ^ 64 mod 65536) mod 65536"
    by (rule mod_add_right_eq[symmetric])
  also have "65536 * unat x mod 2 ^ 64 mod 65536 = 0"
    by (subst mod_mod_cancel) simp_all
  finally show ?thesis by simp
qed

section \<open>Decoding\<close>

definition idle :: "keyboard \<Rightarrow> bool" where
  "idle kb \<longleftrightarrow> current_unencoded_key kb = replicate 8 0 \<and> latest_unencoded_byte kb = 0"

text \<open>Between two calls the buffer holds the prefix bytes seen so far and zeros behind them.\<close>

definition kb_inv :: "keyboard \<Rightarrow> bool" where
  "kb_inv kb \<longleftrightarrow> latest_unencoded_byte kb \<le> 8 \<and> length (current_keys kb) \<le> MAX_KEYS \<and>
     current_unencoded_key kb =
       replicate (latest_unencoded_byte kb) 0xE0 @ replicate (8 - latest_unencoded_byte kb) 0"

definition decode :: "nat \<Rightarrow> u8 \<Rightarrow> keycode" where
  "decode n b =
     (case set1_try_from (le_u64 (replicate n 0xE0 @ b # replicate (7 - n) 0)) of
        None \<Rightarrow> NULL | Some k \<Rightarrow> k)"

definition deliver :: "bool \<Rightarrow> keycode \<Rightarrow> keyboard \<Rightarrow> (key option \<times> keyboard) rust" where
  "deliver break_code c kb =
     (if break_code then Inr (None, if c \<noteq> CapsLock then remove_pressed_keycode c kb else kb)
      else add_pressed_keycode c kb)"

lemma le_u64_zeros [simp]: "le_u64 (replicate n 0) = 0"
  by (induction n) auto

lemma set1_distinct: "distinct (map fst set1_table)"
  by (simp add: set1_table_def)

lemma set1_no_double_prefix: "\<forall>(sc, kc) \<in> set set1_table. unat sc mod 65536 \<noteq> 0xE0E0"
  by (simp add: set1_table_def)

lemma set1_shape: "\<forall>(sc, kc) \<in> set set1_table. kc \<noteq> PrintScr \<longrightarrow>
    sc < 128 \<or> sc = 0xE0 + 256 * ucast (ucast (drop_bit 8 sc) :: u8) \<and> drop_bit 8 sc < 128"
  by (simp add: set1_table_def)

lemma set1_PrintScr: "(sc, PrintScr) \<in> set set1_table \<Longrightarrow> sc = 0x37E02AE0"
  by (simp add: set1_table_def)

lemma set1_try_from_iff: "set1_try_from sc = Some kc \<longleftrightarrow> (sc, kc) \<in> set set1_table"
  unfolding set1_try_from_def using set1_distinct by (rule map_of_eq_Some_iff)

lemma decode_0: "decode 0 b = (case set1_try_from (ucast b) of None \<Rightarrow> NULL | Some k \<Rightarrow> k)"
  by (simp add: decode_def)

lemma decode_1: "decode (Suc 0) b = (case set1_try_from (0xE0 + 256 * ucast b) of None \<Rightarrow> NULL | Some k \<Rightarrow> k)"
  by (simp add: decode_def)

text \<open>No key has two prefix bytes.\<close>

lemma set1_try_from_double_prefix: "set1_try_from (0xE0E0 + 65536 * x) = None"
proof (cases "set1_try_from (0xE0E0 + 65536 * x)")
  case (Some kc)
  then have "(0xE0E0 + 65536 * x, kc) \<in> set set1_table" by (simp only: set1_try_from_iff)
  from bspec[OF set1_no_double_prefix this] have "unat (0xE0E0 + 65536 * x) mod 65536 \<noteq> 0xE0E0"
    unfolding prod.case .
  then show ?thesis by (simp add: unat_mod_2p16)
qed

lemma le_u64_double_prefix: "le_u64 (0xE0 # 0xE0 # bs) = 0xE0E0 + 65536 * le_u64 bs"
  by (simp only: le_u64.simps distrib_left add.assoc[symmetric] mult.assoc[symmetric]) simp

lemma decode_2: "decode (Suc (Suc n)) b = NULL"
  unfolding decode_def replicate_Suc append_Cons le_u64_double_prefix set1_try_from_double_prefix
  by simp

lemma unat_ucast_u8: "unat (ucast b :: u64) = unat b" for b :: u8
  using unsigned_less[where 'a=nat, of b]
  by (simp add: unsigned_ucast_eq unsigned_take_bit_eq take_bit_nat_eq_self)

lemma decode_not_PrintScr: "decode n b \<noteq> PrintScr"
proof
  assume a: "decode n b = PrintScr"
  have b: "unat (ucast b :: u64) < 256"
    using unsigned_less[where 'a=nat, of b] by (simp add: unat_ucast_u8)
  consider "n = 0" | "n = Suc 0" | k where "n = Suc (Suc k)" by (metis nat.exhaust)
  then show False
  proof cases
    case 1
    with a have "(ucast b, PrintScr) \<in> set set1_table"
      by (auto simp: decode_0 set1_try_from_iff split: option.splits)
    then have "(ucast b :: u64) = 0x37E02AE0" by (rule set1_PrintScr)
    with b show False by simp
  next
    case 2
    with a have "(0xE0 + 256 * ucast b, PrintScr) \<in> set set1_table"
      by (auto simp: decode_1 set1_try_from_iff split: option.splits)
    then have e: "(0xE0 + 256 * ucast b :: u64) = 0x37E02AE0" by (rule set1_PrintScr)
    have "unat (0xE0 + 256 * ucast b :: u64) < 65536 + 256"
      using b by (simp add: unat_word_ariths)
    with e show False by simp
  next
    case 3
    with a show False by (simp add: decode_2)
  qed
qed

section \<open>One byte\<close>

definition low7 :: "u8 \<Rightarrow> u8" where
  "low7 b = (if 128 \<le> b then b - 128 else b)"

lemma buffer_at:
  assumes n: "latest_unencoded_byte kb < 8" and inv: "kb_inv kb"
  shows "(current_unencoded_key kb)[latest_unencoded_byte kb := b] =
     replicate (latest_unencoded_byte kb) 0xE0 @ b # replicate (7 - latest_unencoded_byte kb) 0"
proof -
  let ?n = "latest_unencoded_byte kb"
  have "8 - ?n = Suc (7 - ?n)" using n by simp
  then have "current_unencoded_key kb = replicate ?n 0xE0 @ 0 # replicate (7 - ?n) 0"
    using inv by (simp add: kb_inv_def)
  then show ?thesis
    using list_update_length[of "replicate ?n 0xE0" 0 "replicate (7 - ?n) 0" b] by simp
qed

lemma keys_buffer [simp]:
  "is_pressed c (kb\<lparr>current_unencoded_key := x\<rparr>) = is_pressed c kb"
  "is_pressed c (kb\<lparr>latest_unencoded_byte := y\<rparr>) = is_pressed c kb"
  "process_keycode c (kb\<lparr>current_unencoded_key := x\<rparr>) = process_keycode c kb"
  "process_keycode c (kb\<lparr>latest_unencoded_byte := y\<rparr>) = process_keycode c kb"
  by (simp_all add: is_pressed_def get_pressed_key_flags_def process_keycode_def)

lemma deliver_reset:
  "rbind (deliver brk c (kb\<lparr>current_unencoded_key := buf\<rparr>)) (\<lambda>(out, kb'). Inr (out, reset_unencoded_buffer kb')) =
   deliver brk c (reset_unencoded_buffer kb)"
  by (auto simp: deliver_def add_pressed_keycode_def remove_pressed_keycode_def reset_unencoded_buffer_def Let_def)

lemma encode_prefix:
  assumes inv: "kb_inv kb" and n: "latest_unencoded_byte kb < 8"
  shows "\<exists>kb'. encode_ps2_set_1 0xE0 kb = Inr (None, kb') \<and> kb_inv kb' \<and>
    latest_unencoded_byte kb' = Suc (latest_unencoded_byte kb) \<and> current_keys kb' = current_keys kb"
proof -
  let ?n = "latest_unencoded_byte kb"
  have len: "length (current_unencoded_key kb) = 8" using assms by (simp add: kb_inv_def)
  have buf: "(current_unencoded_key kb)[?n := 0xE0] = replicate (Suc ?n) 0xE0 @ replicate (8 - Suc ?n) 0"
    by (simp add: buffer_at[OF n inv] replicate_app_Cons_same)
  have "encode_ps2_set_1 0xE0 kb = Inr (None, kb\<lparr>current_unencoded_key := (current_unencoded_key kb)[?n := 0xE0],
      latest_unencoded_byte := Suc ?n\<rparr>)"
    using n by (simp add: encode_ps2_set_1_def idx_set_def len)
  moreover have "length (current_keys kb) \<le> MAX_KEYS" using inv by (simp add: kb_inv_def)
  ultimately show ?thesis
    using n unfolding buf by (auto simp: kb_inv_def simp del: replicate_Suc)
qed

lemma encode_code:
  assumes inv: "kb_inv kb" and n: "latest_unencoded_byte kb < 8" and b: "b \<noteq> 0xE0"
  shows "encode_ps2_set_1 b kb =
    deliver (128 \<le> b) (decode (latest_unencoded_byte kb) (low7 b)) (reset_unencoded_buffer kb)"
proof -
  let ?n = "latest_unencoded_byte kb"
  let ?buf = "(current_unencoded_key kb)[?n := low7 b]"
  have len: "length (current_unencoded_key kb) = 8" using inv by (simp add: kb_inv_def)
  have dec: "decode ?n (low7 b) = (case set1_try_from (le_u64 ?buf) of None \<Rightarrow> NULL | Some k \<Rightarrow> k)"
    by (simp only: decode_def buffer_at[OF n inv])
  have "encode_ps2_set_1 b kb =
    rbind (deliver (128 \<le> b) (decode ?n (low7 b)) (kb\<lparr>current_unencoded_key := ?buf\<rparr>))
      (\<lambda>(out, kb'). Inr (out, reset_unencoded_buffer kb'))"
    unfolding dec
    by (cases "128 \<le> b")
       (simp_all add: encode_ps2_set_1_def idx_set_def idx_def len n b and_128_iff sub_w_def low7_def
        deliver_def Let_def)
  then show ?thesis by (simp only: deliver_reset)
qed

lemma encode_full: "kb_inv kb \<Longrightarrow> latest_unencoded_byte kb = 8 \<Longrightarrow> encode_ps2_set_1 b kb = Inl IndexOutOfBounds"
  by (simp add: encode_ps2_set_1_def idx_set_def kb_inv_def)

lemma length_remove_first: "length (remove_first P xs) \<le> length xs"
  by (induction xs) auto

lemma deliver_inv:
  assumes "kb_inv kb"
  shows "\<exists>out kb'. deliver brk c (reset_unencoded_buffer kb) = Inr (out, kb') \<and> kb_inv kb' \<and> latest_unencoded_byte kb' = 0"
proof -
  have "length (remove_first P (current_keys kb)) \<le> MAX_KEYS" for P
    using assms length_remove_first[of P "current_keys kb"] by (simp add: kb_inv_def)
  moreover have "current_keys kb \<noteq> []" if "\<not> length (current_keys kb) < MAX_KEYS"
    using that by (auto simp: MAX_KEYS_def)
  ultimately show ?thesis
    using assms by (auto simp: deliver_def add_pressed_keycode_def remove_pressed_keycode_def
        reset_unencoded_buffer_def kb_inv_def Let_def)
qed

section \<open>Sequences of bytes\<close>

lemma feed_append:
  "feed (xs @ ys) kb = rbind (feed xs kb) (\<lambda>(o1, kb1). rbind (feed ys kb1) (\<lambda>(o2, kb2). Inr (o1 @ o2, kb2)))"
proof (induction xs arbitrary: kb)
  case Nil
  show ?case by (cases "feed ys kb") auto
next
  case (Cons b bs)
  show ?case
  proof (cases "encode_ps2_set_1 b kb")
    case (Inr r)
    obtain out kb1 where r: "r = (out, kb1)" by (cases r)
    show ?thesis
    proof (cases "feed bs kb1")
      case (Inr r')
      then show ?thesis
        using \<open>encode_ps2_set_1 b kb = Inr r\<close>
        by (cases r'; cases "feed ys (snd r')") (auto simp: Cons r split: option.splits)
    qed (simp add: \<open>encode_ps2_set_1 b kb = Inr r\<close> Cons r)
  qed simp
qed

lemma kb_inv_boot: "kb_inv keyboard_boot" "latest_unencoded_byte keyboard_boot = 0"
  by (simp_all add: kb_inv_def keyboard_boot_def)

text \<open>The ninth byte after eight prefixes in a row finds no room in the buffer.\<close>

fun overflows :: "nat \<Rightarrow> u8 list \<Rightarrow> bool" where
  "overflows n [] = False"
| "overflows n (b # bs) = (8 \<le> n \<or> overflows (if b = 0xE0 then Suc n else 0) bs)"

lemma feed_panics:
  "kb_inv kb \<Longrightarrow> (\<exists>p. feed bs kb = Inl p) \<longleftrightarrow> overflows (latest_unencoded_byte kb) bs"
proof (induction bs arbitrary: kb)
  case (Cons b bs)
  let ?n = "latest_unencoded_byte kb"
  have le: "?n \<le> 8" using Cons.prems by (simp add: kb_inv_def)
  show ?case
  proof (cases "?n = 8")
    case True
    with Cons.prems show ?thesis by (simp add: encode_full)
  next
    case False
    with le have n: "?n < 8" by simp
    have "\<exists>out kb'. encode_ps2_set_1 b kb = Inr (out, kb') \<and> kb_inv kb' \<and>
        latest_unencoded_byte kb' = (if b = 0xE0 then Suc ?n else 0)"
      using encode_prefix[OF Cons.prems n] encode_code[OF Cons.prems n] deliver_inv[OF Cons.prems]
      by (cases "b = 0xE0") (simp_all, blast)
    then obtain out kb' where e: "encode_ps2_set_1 b kb = Inr (out, kb')" "kb_inv kb'"
      "latest_unencoded_byte kb' = (if b = 0xE0 then Suc ?n else 0)" by blast
    have "(\<exists>p. feed (b # bs) kb = Inl p) \<longleftrightarrow> (\<exists>p. feed bs kb' = Inl p)"
      by (simp add: e(1) rbind_eq_Inl split: prod.splits)
    also have "\<dots> \<longleftrightarrow> overflows (if b = 0xE0 then Suc ?n else 0) bs"
      using Cons.IH[OF e(2)] by (simp only: e(3))
    finally show ?thesis using n by simp
  qed
qed simp

lemma take_drop_replicate:
  "i + n < length bs \<Longrightarrow> take n (drop i bs) = replicate n x \<longleftrightarrow> (\<forall>j < n. bs ! (i + j) = x)"
  by (simp add: list_eq_iff_nth_eq)

lemma overflows_iff:
  "n \<le> 8 \<Longrightarrow> overflows n bs \<longleftrightarrow>
    (\<exists>i. i + 8 < n + length bs \<and> (\<forall>j < 8. (replicate n 0xE0 @ bs) ! (i + j) = 0xE0))"
proof (induction bs arbitrary: n)
  case (Cons b bs)
  let ?l = "replicate n 0xE0 @ b # bs"
  consider "n = 8" | "n < 8" "b = 0xE0" | "n < 8" "b \<noteq> 0xE0" using Cons.prems by linarith
  then show ?case
  proof cases
    case 1
    then have "0 + 8 < n + length (b # bs) \<and> (\<forall>j < 8. ?l ! (0 + j) = 0xE0)"
      by (simp add: nth_append)
    with 1 show ?thesis by (metis (no_types, lifting) overflows.simps(2) order_refl)
  next
    case 2
    then have eq: "?l = replicate (Suc n) 0xE0 @ bs" by (simp add: replicate_app_Cons_same)
    show ?thesis using 2 Cons.IH[of "Suc n"] unfolding eq by (simp del: replicate_Suc)
  next
    case 3
    have "(\<exists>i. i + 8 < n + length (b # bs) \<and> (\<forall>j < 8. ?l ! (i + j) = 0xE0)) \<longleftrightarrow>
      (\<exists>i. i + 8 < length bs \<and> (\<forall>j < 8. bs ! (i + j) = 0xE0))" (is "?L = ?R")
    proof
      assume ?L
      then obtain i where i: "i + 8 < n + length (b # bs)" "\<forall>j < 8. ?l ! (i + j) = 0xE0" by blast
      have "n < i"
      proof (rule ccontr)
        assume "\<not> n < i"
        then have "n - i < 8" "i + (n - i) = n" using 3 by simp_all
        with i(2) have "?l ! n = 0xE0" by metis
        with 3 show False by (simp add: nth_append)
      qed
      then have "?l ! (i + j) = bs ! (i - Suc n + j)" for j by (simp add: nth_append nth_Cons')
      with i \<open>n < i\<close> have "i - Suc n + 8 < length bs" "\<forall>j < 8. bs ! (i - Suc n + j) = 0xE0" by auto
      then show ?R by blast
    next
      assume ?R
      then obtain i where i: "i + 8 < length bs" "\<forall>j < 8. bs ! (i + j) = 0xE0" by blast
      then have "i + Suc n + 8 < n + length (b # bs)" "\<forall>j < 8. ?l ! (i + Suc n + j) = 0xE0"
        by (simp_all add: nth_append)
      then show ?L by blast
    qed
    with 3 Cons.IH[of 0] show ?thesis by simp
  qed
qed simp

section \<open>Pressing and releasing a key\<close>

text \<open>The bytes a keyboard sends for a key with the given scan code when it is pressed and when it is released.\<close>

definition code_byte :: "u64 \<Rightarrow> u8" where
  "code_byte sc = (if sc < 0x100 then ucast sc else ucast (drop_bit 8 sc))"

definition make_bytes :: "u64 \<Rightarrow> u8 list" where
  "make_bytes sc = (if sc < 0x100 then [code_byte sc] else [0xE0, code_byte sc])"

definition break_bytes :: "u64 \<Rightarrow> u8 list" where
  "break_bytes sc = (if sc < 0x100 then [code_byte sc + 128] else [0xE0, code_byte sc + 128])"

lemma set1_bytes: "\<forall>(sc, kc) \<in> set set1_table. kc \<noteq> PrintScr \<longrightarrow>
    code_byte sc < 128 \<and> code_byte sc + 128 \<noteq> 0xE0 \<and>
    (if sc < 0x100 then ucast (code_byte sc) = sc else 0xE0 + 256 * ucast (code_byte sc) = sc)"
  by (simp add: set1_table_def code_byte_def)

lemma plus_128: "b < 128 \<Longrightarrow> 128 \<le> b + 128 \<and> low7 (b + 128) = b \<and> low7 b = b \<and> \<not> 128 \<le> b" for b :: u8
  by (simp add: low7_def word_le_nat_alt word_less_nat_alt unat_word_ariths)

lemma idle_inv: "idle kb \<Longrightarrow> length (current_keys kb) \<le> MAX_KEYS \<Longrightarrow> kb_inv kb"
  by (simp add: idle_def kb_inv_def)

lemma reset_idle: "idle kb \<Longrightarrow> reset_unencoded_buffer kb = kb"
  by (cases kb) (simp add: idle_def reset_unencoded_buffer_def)

lemma feed_code:
  assumes idle: "idle kb" "length (current_keys kb) \<le> MAX_KEYS" and b: "b \<noteq> 0xE0"
  shows "feed [b] kb = rbind (deliver (128 \<le> b) (decode 0 (low7 b)) kb)
      (\<lambda>(out, kb'). Inr ((case out of None \<Rightarrow> [] | Some k \<Rightarrow> [k]), kb'))"
    and "feed [0xE0, b] kb = rbind (deliver (128 \<le> b) (decode (Suc 0) (low7 b)) kb)
      (\<lambda>(out, kb'). Inr ((case out of None \<Rightarrow> [] | Some k \<Rightarrow> [k]), kb'))"
proof -
  have inv: "kb_inv kb" and n: "latest_unencoded_byte kb = 0"
    using idle idle_inv by (auto simp: idle_def)
  show "feed [b] kb = rbind (deliver (128 \<le> b) (decode 0 (low7 b)) kb)
      (\<lambda>(out, kb'). Inr ((case out of None \<Rightarrow> [] | Some k \<Rightarrow> [k]), kb'))"
    by (simp add: encode_code[OF inv _ b] n reset_idle[OF idle(1)])
  obtain kb1 where kb1: "encode_ps2_set_1 0xE0 kb = Inr (None, kb1)" "kb_inv kb1"
    "latest_unencoded_byte kb1 = Suc 0" "current_keys kb1 = current_keys kb"
    using encode_prefix[OF inv] n by auto
  have "reset_unencoded_buffer kb1 = kb"
    using kb1(4) idle(1) by (cases kb; cases kb1) (simp add: idle_def reset_unencoded_buffer_def)
  then show "feed [0xE0, b] kb = rbind (deliver (128 \<le> b) (decode (Suc 0) (low7 b)) kb)
      (\<lambda>(out, kb'). Inr ((case out of None \<Rightarrow> [] | Some k \<Rightarrow> [k]), kb'))"
    using encode_code[OF kb1(2) _ b] by (auto simp: kb1(1,3) rbind_def split: sum.splits)
qed

lemma feed_make_break:
  assumes t: "(sc, kc) \<in> set set1_table" "kc \<noteq> PrintScr"
    and idle: "idle kb" "length (current_keys kb) \<le> MAX_KEYS"
  shows "feed (make_bytes sc) kb = rbind (add_pressed_keycode kc kb)
      (\<lambda>(out, kb'). Inr ((case out of None \<Rightarrow> [] | Some k \<Rightarrow> [k]), kb'))"
    and "feed (break_bytes sc) kb = Inr ([], if kc \<noteq> CapsLock then remove_pressed_keycode kc kb else kb)"
proof -
  let ?b = "code_byte sc"
  have b: "?b < 128" "?b + 128 \<noteq> 0xE0"
    and sc: "if sc < 0x100 then ucast ?b = sc else 0xE0 + 256 * ucast ?b = sc"
    using bspec[OF set1_bytes t(1)] t(2) by auto
  have nb: "?b \<noteq> 0xE0" using b(1) by auto
  have kc: "set1_try_from sc = Some kc" using t(1) by (simp only: set1_try_from_iff)
  then have dec: "sc < 0x100 \<Longrightarrow> decode 0 ?b = kc" "\<not> sc < 0x100 \<Longrightarrow> decode (Suc 0) ?b = kc"
    using sc by (auto simp: decode_0 decode_1 split: if_splits)
  show "feed (make_bytes sc) kb = rbind (add_pressed_keycode kc kb)
      (\<lambda>(out, kb'). Inr ((case out of None \<Rightarrow> [] | Some k \<Rightarrow> [k]), kb'))"
    using feed_code[OF idle nb] plus_128[OF b(1)] dec by (simp add: make_bytes_def deliver_def)
  show "feed (break_bytes sc) kb = Inr ([], if kc \<noteq> CapsLock then remove_pressed_keycode kc kb else kb)"
    using feed_code[OF idle b(2)] plus_128[OF b(1)] dec by (simp add: break_bytes_def deliver_def)
qed

definition press :: "keycode \<Rightarrow> keyboard \<Rightarrow> keyboard" where
  "press kc kb = kb\<lparr>current_keys := current_keys kb @ [process_keycode kc kb]\<rparr>"

lemma is_pressed_iff: "is_pressed c kb \<longleftrightarrow> (\<exists>k \<in> set (current_keys kb). code k = c)"
  by (auto simp: is_pressed_def get_pressed_key_flags_def find_None_iff)

lemma process_keycode_code [simp]: "code (process_keycode c kb) = c"
  by (simp add: process_keycode_def Let_def)

text \<open>A key does not count as its own modifier, so repeating it does not change its flags.\<close>

lemma process_keycode_press: "process_keycode c (press c kb) = process_keycode c kb"
  by (auto simp: process_keycode_def is_pressed_iff press_def Let_def)

lemma press_run:
  "(press kc ^^ n) kb = kb\<lparr>current_keys := current_keys kb @ replicate n (process_keycode kc kb)\<rparr>"
  "process_keycode kc ((press kc ^^ n) kb) = process_keycode kc kb"
proof (induction n)
  case (Suc n)
  {
    case 1
    show ?case using Suc by (simp add: press_def replicate_append_same)
  next
    case 2
    show ?case using Suc by (simp add: process_keycode_press)
  }
qed simp_all

lemma feed_make_press:
  assumes t: "(sc, kc) \<in> set set1_table" "kc \<notin> {NULL, PrintScr, CapsLock}" and idle: "idle kb"
  shows "length (current_keys kb) + n \<le> MAX_KEYS \<Longrightarrow>
    feed (concat (replicate n (make_bytes sc))) kb = Inr (replicate n (process_keycode kc kb), (press kc ^^ n) kb)"
proof (induction n)
  case (Suc n)
  let ?kb = "(press kc ^^ n) kb"
  have kb: "idle ?kb" "length (current_keys ?kb) < MAX_KEYS"
    using idle Suc.prems by (simp_all add: press_run idle_def)
  then have "feed (make_bytes sc) ?kb = Inr ([process_keycode kc kb], press kc ?kb)"
    using t by (simp add: feed_make_break add_pressed_keycode_def press_run(2) press_def Let_def)
  moreover have "concat (replicate (Suc n) (make_bytes sc)) = concat (replicate n (make_bytes sc)) @ make_bytes sc"
    by (metis append_Nil2 concat.simps concat_append replicate_append_same replicate_Suc)
  ultimately show ?case
    using Suc by (simp add: feed_append replicate_append_same)
qed simp

lemma remove_first_append: "\<forall>x \<in> set xs. \<not> P x \<Longrightarrow> P y \<Longrightarrow> remove_first P (xs @ y # ys) = xs @ ys"
  by (induction xs) auto


lemma example_entries: "(0x1E, KeyA) \<in> set set1_table" "(0x2A, Shift) \<in> set set1_table"
  "(0x3A, CapsLock) \<in> set set1_table"
  by (simp_all add: set1_table_def)


section \<open>Panics\<close>

text \<open>
  C34: from power-on, the driver panics on a stream of bytes exactly when the stream has eight prefix bytes 0xE0 in a
  row with another byte behind them; every other stream, valid scan codes or not, is processed.
\<close>
theorem keyboard_panics_iff:
  "(\<exists>p. feed bs keyboard_boot = Inl p) \<longleftrightarrow>
     (\<exists>i. i + 8 < length bs \<and> take 8 (drop i bs) = replicate 8 0xE0)"
  using feed_panics[OF kb_inv_boot(1), of bs] overflows_iff[of 0 bs] take_drop_replicate[of _ 8 bs "0xE0"]
  by (auto simp: kb_inv_boot(2))

section \<open>Reachable states\<close>

text \<open>What holds of every state the driver reaches from power-on, and of the keys it reports on the way.\<close>

definition ok_keys :: "key list \<Rightarrow> bool" where
  "ok_keys ks \<longleftrightarrow> length (filter (\<lambda>k. code k = CapsLock) ks) \<le> 1 \<and> (\<forall>k \<in> set ks. code k \<noteq> PrintScr)"

definition kb_ok :: "keyboard \<Rightarrow> bool" where
  "kb_ok kb \<longleftrightarrow> kb_inv kb \<and> ok_keys (current_keys kb)"

lemma remove_first_sub: "set (remove_first P xs) \<subseteq> set xs" "length (filter Q (remove_first P xs)) \<le> length (filter Q xs)"
  by (induction xs) auto

lemma filter_butlast: "length (filter Q (butlast xs)) \<le> length (filter Q xs)"
  by (induction xs) auto

lemma ok_keys_remove: "ok_keys ks \<Longrightarrow> ok_keys (remove_first P ks)"
  using remove_first_sub(1)[of P ks] remove_first_sub(2)[where Q = "\<lambda>k. code k = CapsLock" and P = P and xs = ks]
  by (auto simp: ok_keys_def)

lemma ok_keys_butlast: "ok_keys ks \<Longrightarrow> ok_keys (butlast ks)"
  using filter_butlast[of "\<lambda>k. code k = CapsLock" ks] by (auto simp: ok_keys_def dest: in_set_butlastD)

lemma ok_keys_snoc:
  "ok_keys ks \<Longrightarrow> code k \<noteq> PrintScr \<Longrightarrow> code k = CapsLock \<longrightarrow> (\<forall>x \<in> set ks. code x \<noteq> CapsLock) \<Longrightarrow> ok_keys (ks @ [k])"
  by (auto simp: ok_keys_def filter_empty_conv)

lemma deliver_ok:
  assumes ok: "kb_ok kb" and c: "c \<noteq> PrintScr" and d: "deliver brk c (reset_unencoded_buffer kb) = Inr (out, kb')"
  shows "kb_ok kb' \<and> (\<forall>k. out = Some k \<longrightarrow> code k \<noteq> PrintScr)"
proof -
  let ?kb = "reset_unencoded_buffer kb"
  have inv: "kb_inv kb'" using deliver_inv[of kb brk c] ok d by (auto simp: kb_ok_def)
  have kb: "current_keys ?kb = current_keys kb" "is_pressed x ?kb = is_pressed x kb" for x
    by (simp_all add: reset_unencoded_buffer_def)
  have keys: "ok_keys (current_keys kb)" "ok_keys (remove_first P (current_keys kb))" for P
    using ok by (simp_all add: kb_ok_def ok_keys_remove)
  have snoc: "ok_keys (current_keys kb @ [k])" "ok_keys (butlast (current_keys kb) @ [k])"
    if "code k = c" "\<not> (c = CapsLock \<and> is_pressed c kb)" for k
    using that c keys(1) by (auto simp: is_pressed_iff intro!: ok_keys_snoc ok_keys_butlast dest: in_set_butlastD)
  show ?thesis
    using d c keys snoc[OF process_keycode_code] inv
    by (auto simp: deliver_def add_pressed_keycode_def remove_pressed_keycode_def kb kb_ok_def Let_def
        split: if_splits)
qed

lemma feed_ok:
  "kb_ok kb \<Longrightarrow> feed bs kb = Inr (ks, kb') \<Longrightarrow> kb_ok kb' \<and> (\<forall>k \<in> set ks. code k \<noteq> PrintScr)"
proof (induction bs arbitrary: kb ks)
  case (Cons b bs)
  from Cons.prems(2) obtain out kb1 ks1 where f: "encode_ps2_set_1 b kb = Inr (out, kb1)" "feed bs kb1 = Inr (ks1, kb')"
    "ks = (case out of None \<Rightarrow> ks1 | Some k \<Rightarrow> k # ks1)"
    by (auto simp: rbind_eq_Inr)
  have inv: "kb_inv kb" using Cons.prems(1) by (simp add: kb_ok_def)
  then have n: "latest_unencoded_byte kb < 8"
    using encode_full[OF inv, of b] f(1) by (cases "latest_unencoded_byte kb = 8") (auto simp: kb_inv_def)
  have "kb_ok kb1 \<and> (\<forall>k. out = Some k \<longrightarrow> code k \<noteq> PrintScr)"
  proof (cases "b = 0xE0")
    case True
    with encode_prefix[OF inv n] f(1) Cons.prems(1) show ?thesis
      by (auto simp: kb_ok_def)
  next
    case False
    then show ?thesis
      using deliver_ok[OF Cons.prems(1) decode_not_PrintScr] f(1) by (simp add: encode_code[OF inv n])
  qed
  with Cons.IH[of kb1 ks1] f(2,3) show ?case by (auto split: option.splits)
qed simp

lemma kb_ok_boot: "kb_ok keyboard_boot"
  using kb_inv_boot by (simp add: kb_ok_def ok_keys_def keyboard_boot_def)

text \<open>
  The Print Screen key is never reported and never counts as pressed, whatever bytes arrive: its table entry expects the
  two prefixed codes 0xE0 0x2A 0xE0 0x37 in one piece, but the buffer is decoded and cleared at the first byte that
  is not a prefix.
\<close>
lemma printscr_never_reported:
  assumes "feed bs keyboard_boot = Inr (ks, kb)"
  shows "PrintScr \<notin> code ` (set ks \<union> set (current_keys kb)) \<and> \<not> is_pressed PrintScr kb"
  using feed_ok[OF kb_ok_boot assms] by (auto simp: kb_ok_def ok_keys_def is_pressed_iff)

lemma printscr_never_reported_example:
  "\<exists>ks kb. feed [0xE0, 0x2A, 0xE0, 0x37] keyboard_boot = Inr (ks, kb) \<and> \<not> is_pressed PrintScr kb"
proof -
  have "\<not> overflows 0 [0xE0, 0x2A, 0xE0, 0x37]" by simp
  then have "\<not> (\<exists>p. feed [0xE0, 0x2A, 0xE0, 0x37] keyboard_boot = Inl p)"
    using feed_panics[OF kb_inv_boot(1), unfolded kb_inv_boot(2)] by (simp del: feed.simps)
  then obtain ks kb where "feed [0xE0, 0x2A, 0xE0, 0x37] keyboard_boot = Inr (ks, kb)"
    by (cases "feed [0xE0, 0x2A, 0xE0, 0x37] keyboard_boot") (auto simp del: feed.simps)
  with printscr_never_reported[OF this] show ?thesis by blast
qed

lemma filter_remove_first_other: "filter (\<lambda>x. \<not> P x) (remove_first P xs) = filter (\<lambda>x. \<not> P x) xs"
  by (induction xs) auto

lemma filter_remove_first_once: "length (filter P xs) \<le> 1 \<Longrightarrow> filter P (remove_first P xs) = []"
  by (induction xs) (auto split: if_splits)

text \<open>
  Caps Lock is a lock: in every state reached from power-on in which no scan code is half-way, pressing and releasing the key
  switches it from pressed to not pressed and back, reports it only when it is switched on, and leaves every other key alone.
\<close>
lemma capslock_toggles:
  assumes run: "feed bs keyboard_boot = Inr (ks, kb)" and idle: "idle kb" and room: "length (current_keys kb) < MAX_KEYS"
  shows "\<exists>out kb'. feed (make_bytes 0x3A @ break_bytes 0x3A) kb = Inr (out, kb') \<and> idle kb' \<and>
    is_pressed CapsLock kb' = (\<not> is_pressed CapsLock kb) \<and>
    out = (if is_pressed CapsLock kb then [] else [process_keycode CapsLock kb]) \<and>
    filter (\<lambda>k. code k \<noteq> CapsLock) (current_keys kb') = filter (\<lambda>k. code k \<noteq> CapsLock) (current_keys kb)"
proof -
  let ?off = "kb\<lparr>current_keys := remove_first (\<lambda>k. code k = CapsLock) (current_keys kb)\<rparr>"
  have len: "length (remove_first (\<lambda>k. code k = CapsLock) (current_keys kb)) \<le> MAX_KEYS"
    using room length_remove_first[of "\<lambda>k. code k = CapsLock" "current_keys kb"] by linarith
  have once: "length (filter (\<lambda>k. code k = CapsLock) (current_keys kb)) \<le> 1"
    using feed_ok[OF kb_ok_boot run] by (simp add: kb_ok_def ok_keys_def)
  show ?thesis
  proof (cases "is_pressed CapsLock kb")
    case True
    then have "feed (make_bytes 0x3A @ break_bytes 0x3A) kb = Inr ([], ?off)"
      using feed_make_break[OF example_entries(3) _ idle] feed_make_break(2)[OF example_entries(3), of ?off] idle room len
      by (simp add: feed_append add_pressed_keycode_def remove_pressed_keycode_def idle_def)
    moreover have "\<not> is_pressed CapsLock ?off"
      using filter_remove_first_once[OF once] by (simp add: is_pressed_iff filter_empty_conv)
    ultimately show ?thesis
      using True idle filter_remove_first_other[of "\<lambda>k. code k = CapsLock"] by (simp add: idle_def)
  next
    case False
    then have "feed (make_bytes 0x3A @ break_bytes 0x3A) kb = Inr ([process_keycode CapsLock kb], press CapsLock kb)"
      using feed_make_break[OF example_entries(3) _ idle] feed_make_break(2)[OF example_entries(3), of "press CapsLock kb"]
        idle room
      by (simp add: feed_append add_pressed_keycode_def press_def idle_def Let_def)
    with False idle show ?thesis by (simp add: idle_def press_def is_pressed_iff)
  qed
qed

lemma capslock_toggles_example:
  "\<exists>out kb'. feed (make_bytes 0x3A @ break_bytes 0x3A) keyboard_boot = Inr (out, kb') \<and> is_pressed CapsLock kb'"
proof -
  have "feed [] keyboard_boot = Inr ([], keyboard_boot)" by simp
  from capslock_toggles[OF this] show ?thesis
    by (auto simp: idle_def keyboard_boot_def MAX_KEYS_def is_pressed_iff simp del: feed.simps)
qed

end
