(* ===== verification/Keymapper.thy ===== *)
theory Keymapper
  imports Keyboard_Props
begin

text \<open>
  \<open>kernel/src/drivers/keymapper.rs\<close>: from keys to characters. The mapping is an array indexed by key code of
  sixteen entries each, filled at compile time by the macro \<open>create_mapping\<close> from a list of key, flags and character;
  a lookup scans the sixteen entries of the key. A \<open>char\<close> is its code point.
\<close>

section \<open>Mappings\<close>

record mapping_entry =
  m_flags :: key_flags
  m_result :: u32

definition mapping_entry_default :: mapping_entry where
  "mapping_entry_default = \<lparr>m_flags = 0, m_result = 0\<rparr>"

type_synonym key_mapping = "mapping_entry list list"

definition LAST_KEY :: nat where
  "LAST_KEY = unat (keycode_u8 LastKey)"

definition get_const :: "key_mapping \<Rightarrow> keycode \<Rightarrow> mapping_entry list rust" where
  "get_const m k = idx m (unat (keycode_u8 k))"

text \<open>The loop over the entries of a key: the first one without a character, or the length of the row.\<close>

fun free_slot :: "mapping_entry list \<Rightarrow> nat" where
  "free_slot [] = 0"
| "free_slot (e # es) = (if m_result e = 0 then 0 else Suc (free_slot es))"

definition add_mapping :: "keycode \<times> key_flags \<times> u32 \<Rightarrow> key_mapping \<Rightarrow> key_mapping rust" where
  "add_mapping x m = (case x of (k, f, c) \<Rightarrow>
     rbind (get_const m k) (\<lambda>mappings.
     rbind (idx_set mappings (free_slot mappings) \<lparr>m_flags = f, m_result = c\<rparr>) (\<lambda>row.
     idx_set m (unat (keycode_u8 k)) row)))"

fun add_mappings :: "(keycode \<times> key_flags \<times> u32) list \<Rightarrow> key_mapping \<Rightarrow> key_mapping rust" where
  "add_mappings [] m = Inr m"
| "add_mappings (x # xs) m = rbind (add_mapping x m) (add_mappings xs)"

definition create_mapping :: "(keycode \<times> key_flags \<times> u32) list \<Rightarrow> key_mapping rust" where
  "create_mapping xs = add_mappings xs (replicate LAST_KEY (replicate 16 mapping_entry_default))"

definition default_entries :: "(keycode \<times> key_flags \<times> u32) list" where
  "default_entries =
     [(KeyQ, 0, 113), (KeyQ, CAPS_LOCK, 81), (KeyW, 0, 119), (KeyW, CAPS_LOCK, 87), (KeyE, 0, 101),
      (KeyE, CAPS_LOCK, 69), (KeyR, 0, 114), (KeyR, CAPS_LOCK, 82), (KeyT, 0, 116),
      (KeyT, CAPS_LOCK, 84), (KeyY, 0, 121), (KeyY, CAPS_LOCK, 89), (KeyU, 0, 117),
      (KeyU, CAPS_LOCK, 85), (KeyI, 0, 105), (KeyI, CAPS_LOCK, 73), (KeyO, 0, 111),
      (KeyO, CAPS_LOCK, 79), (KeyP, 0, 112), (KeyP, CAPS_LOCK, 80), (KeyA, 0, 97),
      (KeyA, CAPS_LOCK, 65), (KeyS, 0, 115), (KeyS, CAPS_LOCK, 83), (KeyD, 0, 100),
      (KeyD, CAPS_LOCK, 68), (KeyF, 0, 102), (KeyF, CAPS_LOCK, 70), (KeyG, 0, 103),
      (KeyG, CAPS_LOCK, 71), (KeyH, 0, 104), (KeyH, CAPS_LOCK, 72), (KeyJ, 0, 106),
      (KeyJ, CAPS_LOCK, 74), (KeyK, 0, 107), (KeyK, CAPS_LOCK, 75), (KeyL, 0, 108),
      (KeyL, CAPS_LOCK, 76), (KeyZ, 0, 122), (KeyZ, CAPS_LOCK, 90), (KeyX, 0, 120),
      (KeyX, CAPS_LOCK, 88), (KeyC, 0, 99), (KeyC, CAPS_LOCK, 67), (KeyV, 0, 118),
      (KeyV, CAPS_LOCK, 86), (KeyB, 0, 98), (KeyB, CAPS_LOCK, 66), (KeyN, 0, 110),
      (KeyN, CAPS_LOCK, 78), (KeyM, 0, 109), (KeyM, CAPS_LOCK, 77), (Key1, 0, 49),
      (Key1, SHIFT, 33), (Key1, ALT, 161), (Key2, 0, 50), (Key2, SHIFT, 64), (Key2, ALT, 178),
      (Key3, 0, 51), (Key3, SHIFT, 35), (Key3, ALT, 179), (Key4, 0, 52), (Key4, SHIFT, 36),
      (Key5, 0, 53), (Key5, SHIFT, 37), (Key6, 0, 54), (Key6, SHIFT, 94), (Key7, 0, 55),
      (Key7, SHIFT, 38), (Key8, 0, 56), (Key8, SHIFT, 42), (Key9, 0, 57), (Key9, SHIFT, 40),
      (Key0, 0, 48), (Key0, SHIFT, 41), (Minus, 0, 45), (Minus, SHIFT, 95), (Equals, 0, 61),
      (Equals, SHIFT, 43), (Backspace, 0, 8), (Tab, 0, 9), (Return, 0, 10), (Space, 0, 32),
      (LeftBrace, 0, 91), (LeftBrace, SHIFT, 123), (RightBrace, 0, 93), (RightBrace, SHIFT, 125),
      (BackSlash, 0, 92), (BackSlash, SHIFT, 124), (Semicolon, 0, 59), (Semicolon, SHIFT, 58),
      (DoubleQuote, 0, 39), (DoubleQuote, SHIFT, 34), (Comma, 0, 44), (Comma, SHIFT, 60),
      (Dot, 0, 46), (Dot, SHIFT, 62), (Slash, 0, 47), (Slash, SHIFT, 63)]"

definition DEFAULT_MAPPING :: "key_mapping rust" where
  "DEFAULT_MAPPING = create_mapping default_entries"

fun find_mapping :: "key_flags \<Rightarrow> mapping_entry list \<Rightarrow> u32" where
  "find_mapping f [] = 0"
| "find_mapping f (e # es) = (if m_flags e = f then m_result e else find_mapping f es)"

definition map_key :: "key \<Rightarrow> u32 rust" where
  "map_key key =
     rbind DEFAULT_MAPPING (\<lambda>m. rbind (get_const m (code key)) (\<lambda>mappings. Inr (find_mapping (flags key) mappings)))"

definition navi_map_key :: "keycode \<Rightarrow> key_flags \<Rightarrow> u32 rust" where
  "navi_map_key keycode keyflags = map_key \<lparr>code = keycode, flags = keyflags\<rparr>"


section \<open>The array against the list it is built from\<close>

lemma all_keycodes_complete: "k \<in> set all_keycodes"
  by (cases k) (simp_all add: all_keycodes_def)

lemma all_keycodes_values: "distinct (map keycode_u8 all_keycodes)"
  by (simp add: all_keycodes_def)

lemma keycode_u8_inj: "keycode_u8 k = keycode_u8 k' \<longleftrightarrow> k = k'"
  using all_keycodes_values all_keycodes_complete by (metis distinct_map inj_onD)

lemma LAST_KEY_eq: "LAST_KEY = 198"
  by (simp add: LAST_KEY_def)

lemma keycode_u8_lt: "unat (keycode_u8 k) < 198 \<longleftrightarrow> k \<noteq> LastKey"
  by (cases k) simp_all

definition row_of :: "(keycode \<times> key_flags \<times> u32) list \<Rightarrow> keycode \<Rightarrow> mapping_entry list" where
  "row_of xs k = map (\<lambda>(_, f, c). \<lparr>m_flags = f, m_result = c\<rparr>) (filter (\<lambda>(k', _). k' = k) xs)"

definition represents :: "(keycode \<times> key_flags \<times> u32) list \<Rightarrow> key_mapping \<Rightarrow> bool" where
  "represents xs m \<longleftrightarrow> length m = LAST_KEY \<and> (\<forall>k. k \<noteq> LastKey \<longrightarrow>
     m ! unat (keycode_u8 k) = row_of xs k @ replicate (16 - length (row_of xs k)) mapping_entry_default)"

definition entries_ok :: "(keycode \<times> key_flags \<times> u32) list \<Rightarrow> bool" where
  "entries_ok xs \<longleftrightarrow> (\<forall>(k, f, c) \<in> set xs. k \<noteq> LastKey \<and> c \<noteq> 0 \<and> length (row_of xs k) \<le> 16)"

lemma free_slot_row:
  "\<forall>e \<in> set es. m_result e \<noteq> 0 \<Longrightarrow> free_slot (es @ replicate n mapping_entry_default) = length es"
  by (induction es) (cases n; simp add: mapping_entry_default_def)+

lemma row_of_snoc:
  "row_of (xs @ [(k, f, c)]) k' = row_of xs k' @ (if k' = k then [\<lparr>m_flags = f, m_result = c\<rparr>] else [])"
  by (simp add: row_of_def)

lemma row_of_append: "row_of (xs @ ys) k = row_of xs k @ row_of ys k"
  by (simp add: row_of_def)

lemma add_mapping_represents:
  assumes rep: "represents xs m" and k: "k \<noteq> LastKey"
    and ne: "\<forall>(k, f, c) \<in> set xs. c \<noteq> 0" and room: "length (row_of xs k) < 16"
  shows "\<exists>m'. add_mapping (k, f, c) m = Inr m' \<and> represents (xs @ [(k, f, c)]) m'"
proof -
  let ?i = "unat (keycode_u8 k)" and ?e = "\<lparr>m_flags = f, m_result = c\<rparr>"
  have i: "?i < length m" using rep k by (simp add: represents_def LAST_KEY_eq keycode_u8_lt)
  have row: "m ! ?i = row_of xs k @ replicate (16 - length (row_of xs k)) mapping_entry_default"
    using rep k by (simp add: represents_def)
  have slot: "free_slot (m ! ?i) = length (row_of xs k)"
    unfolding row using ne by (intro free_slot_row) (auto simp: row_of_def)
  obtain n where n: "16 - length (row_of xs k) = Suc n" using room by (cases "16 - length (row_of xs k)") auto
  have new: "(m ! ?i)[length (row_of xs k) := ?e] = row_of xs k @ ?e # replicate n mapping_entry_default"
    unfolding row n replicate_Suc by (rule list_update_length)
  have "add_mapping (k, f, c) m = Inr (m[?i := (m ! ?i)[length (row_of xs k) := ?e]])"
    using i room by (simp add: add_mapping_def get_const_def idx_def idx_set_def slot) (simp add: row)
  moreover have "represents (xs @ [(k, f, c)]) (m[?i := (m ! ?i)[length (row_of xs k) := ?e]])"
    unfolding new represents_def row_of_snoc
  proof (intro conjI allI impI)
    fix k' assume k': "k' \<noteq> LastKey"
    show "m[?i := row_of xs k @ ?e # replicate n mapping_entry_default] ! unat (keycode_u8 k') =
        (row_of xs k' @ (if k' = k then [?e] else [])) @
        replicate (16 - length (row_of xs k' @ (if k' = k then [?e] else []))) mapping_entry_default"
    proof (cases "k' = k")
      case True
      with n i show ?thesis by simp
    next
      case False
      then have "unat (keycode_u8 k') \<noteq> ?i" by (simp add: word_unat_eq_iff[symmetric] keycode_u8_inj)
      with False k' rep show ?thesis by (simp add: represents_def)
    qed
  qed (use rep in \<open>simp add: represents_def\<close>)
  ultimately show ?thesis by blast
qed

lemma add_mappings_represents:
  "represents xs m \<Longrightarrow> entries_ok (xs @ ys) \<Longrightarrow> \<exists>m'. add_mappings ys m = Inr m' \<and> represents (xs @ ys) m'"
proof (induction ys arbitrary: xs m)
  case (Cons y ys)
  obtain k f c where y: "y = (k, f, c)" by (cases y)
  have ok: "k \<noteq> LastKey" "\<forall>(k, f, c) \<in> set xs. c \<noteq> 0" "length (row_of (xs @ y # ys) k) \<le> 16"
    using Cons.prems(2) unfolding entries_ok_def y by (simp, fastforce, simp)
  have "length (row_of xs k) < 16" using ok(3) by (simp add: row_of_append y) (simp add: row_of_def)
  from add_mapping_represents[OF Cons.prems(1) ok(1,2) this]
  obtain m' where "add_mapping y m = Inr m'" "represents (xs @ [y]) m'" unfolding y by blast
  with Cons.IH[of "xs @ [y]" m'] Cons.prems(2) show ?case by simp
qed simp

lemma create_mapping_represents:
  assumes "entries_ok xs" shows "\<exists>m. create_mapping xs = Inr m \<and> represents xs m"
proof -
  have "represents [] (replicate LAST_KEY (replicate 16 mapping_entry_default))"
    by (simp add: represents_def row_of_def LAST_KEY_eq keycode_u8_lt)
  from add_mappings_represents[OF this, of xs] assms show ?thesis by (simp add: create_mapping_def)
qed

section \<open>Lookup\<close>

definition key_table :: "((keycode \<times> key_flags) \<times> u32) list" where
  "key_table = map (\<lambda>(k, f, c). ((k, f), c)) default_entries"

lemma find_mapping_pad: "find_mapping f (es @ replicate n mapping_entry_default) = find_mapping f es"
proof (induction es)
  case Nil
  show ?case by (induction n) (simp_all add: mapping_entry_default_def)
qed simp

lemma find_mapping_row:
  "find_mapping f (row_of xs k) = (case map_of (map (\<lambda>(k, f, c). ((k, f), c)) xs) (k, f) of None \<Rightarrow> 0 | Some c \<Rightarrow> c)"
  by (induction xs) (auto simp: row_of_def)

lemma length_row_of: "length (row_of xs k) = count_list (map fst xs) k"
  by (induction xs) (auto simp: row_of_def)

lemma default_keys: "\<forall>k \<in> set (map fst default_entries). count_list (map fst default_entries) k \<le> 16"
  by (simp add: default_entries_def)

lemma default_chars: "\<forall>(k, f, c) \<in> set default_entries. k \<noteq> LastKey \<and> c \<noteq> 0"
  by (simp add: default_entries_def)

lemma default_entries_ok: "entries_ok default_entries"
  using default_keys default_chars unfolding entries_ok_def length_row_of by fastforce

lemma map_key_lookup:
  "map_key key = (if code key = LastKey then Inl IndexOutOfBounds
     else Inr (case map_of key_table (code key, flags key) of None \<Rightarrow> 0 | Some c \<Rightarrow> c))"
proof -
  obtain m where m: "DEFAULT_MAPPING = Inr m" "represents default_entries m"
    using create_mapping_represents[OF default_entries_ok] by (auto simp: DEFAULT_MAPPING_def)
  then have "get_const m (code key) = (if code key = LastKey then Inl IndexOutOfBounds
      else Inr (row_of default_entries (code key) @
        replicate (16 - length (row_of default_entries (code key))) mapping_entry_default))"
    by (simp add: get_const_def idx_def represents_def LAST_KEY_eq keycode_u8_lt)
  then show ?thesis
    by (simp add: map_key_def m(1) find_mapping_pad find_mapping_row key_table_def)
qed

text \<open>
  C15: looking a key up in the array of sixteen entries per key code is looking up key and flags in the list the mapping was
  written as, with the zero character for a pair that is not listed; building the array never fails, and only the marker
  \<open>LastKey\<close>, for which the array has no row, panics.
\<close>
theorem map_key_correct:
  "map_key key = (if code key = LastKey then Inl IndexOutOfBounds
     else Inr (case map_of key_table (code key, flags key) of None \<Rightarrow> 0 | Some c \<Rightarrow> c))"
  by (rule map_key_lookup)

section \<open>Typing with Caps Lock on\<close>

definition letters :: "keycode list" where
  "letters = [KeyQ, KeyW, KeyE, KeyR, KeyT, KeyY, KeyU, KeyI, KeyO, KeyP, KeyA, KeyS, KeyD, KeyF, KeyG, KeyH,
     KeyJ, KeyK, KeyL, KeyZ, KeyX, KeyC, KeyV, KeyB, KeyN, KeyM]"

lemma flags_process_keycode:
  "flags (process_keycode c kb) =
     (if is_pressed Ctrl kb \<and> c \<noteq> Ctrl then CTRL else 0) OR (if is_pressed Shift kb \<and> c \<noteq> Shift then SHIFT else 0) OR
     (if is_pressed Alt kb \<and> c \<noteq> Alt then ALT else 0) OR (if is_pressed CapsLock kb \<and> c \<noteq> CapsLock then CAPS_LOCK else 0)"
  by (simp add: process_keycode_def Let_def or.assoc)

lemma default_flags:
  "\<forall>(k, f, c) \<in> set default_entries. f \<in> {0, SHIFT, ALT} \<or> f = CAPS_LOCK \<and> k \<in> set letters"
  by (simp add: default_entries_def letters_def)

lemma letters_mapped: "\<forall>k \<in> set letters. \<exists>c. (k, CAPS_LOCK, c) \<in> set default_entries"
  by (simp add: default_entries_def letters_def CAPS_LOCK_def)

lemma key_table_Some: "map_of key_table (k, f) = Some c \<Longrightarrow> (k, f, c) \<in> set default_entries"
  by (auto simp: key_table_def dest!: map_of_SomeD)

lemma key_table_None: "map_of key_table (k, f) = None \<Longrightarrow> (k, f, c) \<notin> set default_entries"
  by (force simp: key_table_def map_of_eq_None_iff image_iff)

text \<open>
  While Caps Lock is on, a key that is pressed produces a character exactly when it is one of the twenty-six letters and
  neither Ctrl, Shift nor Alt is held: digits, punctuation, Space, Return and Backspace produce none.
\<close>
lemma capslock_types_letters_only:
  assumes caps: "is_pressed CapsLock kb" and kc: "kc \<notin> {LastKey, CapsLock, Ctrl, Shift, Alt}"
  shows "\<exists>c. map_key (process_keycode kc kb) = Inr c \<and>
    (c \<noteq> 0 \<longleftrightarrow> kc \<in> set letters \<and> \<not> is_pressed Ctrl kb \<and> \<not> is_pressed Shift kb \<and> \<not> is_pressed Alt kb)"
proof -
  let ?f = "flags (process_keycode kc kb)"
  have f: "?f = CAPS_LOCK \<longleftrightarrow> \<not> is_pressed Ctrl kb \<and> \<not> is_pressed Shift kb \<and> \<not> is_pressed Alt kb"
    "?f \<notin> {0, SHIFT, ALT}"
    using caps kc by (auto simp: flags_process_keycode CTRL_def SHIFT_def ALT_def CAPS_LOCK_def)
  show ?thesis
  proof (cases "map_of key_table (kc, ?f)")
    case None
    then have "\<not> (?f = CAPS_LOCK \<and> kc \<in> set letters)" using letters_mapped key_table_None by metis
    with None f kc show ?thesis by (auto simp: map_key_lookup)
  next
    case (Some c)
    then have e: "(kc, ?f, c) \<in> set default_entries" by (rule key_table_Some)
    have "?f = CAPS_LOCK \<and> kc \<in> set letters" "c \<noteq> 0"
      using bspec[OF default_flags e] bspec[OF default_chars e] f(2) by auto
    with Some f kc show ?thesis by (auto simp: map_key_lookup)
  qed
qed

lemma capslock_types_letters_only_example:
  "\<exists>c. map_key (process_keycode Key1 \<lparr>current_unencoded_key = [], latest_unencoded_byte = 0,
        current_keys = [\<lparr>code = CapsLock, flags = 0\<rparr>]\<rparr>) = Inr c \<and> c = 0"
  using capslock_types_letters_only[of "\<lparr>current_unencoded_key = [], latest_unencoded_byte = 0,
        current_keys = [\<lparr>code = CapsLock, flags = 0\<rparr>]\<rparr>" Key1]
  by (auto simp: is_pressed_iff letters_def)

end
