(* ===== verification/Navitts.thy ===== *)
theory Navitts
  imports Prelude
begin

text \<open>
  \<open>kernel/src/terminal/navitts.rs\<close>: the textual escape sequences of the terminal,
  \<open>\[attribute: value, ... ||text||]\<close>, their lexer and their parser.

  A \<open>str\<close> is the list of its UTF-8 bytes. The code iterates over characters; all characters it tests for
  are ASCII and no byte of a longer character is, so both views give the same tokens. The iterator that the lexer
  functions share is the list of what is left of the input; the parser's token slice and index are the list of tokens from
  the index on. The loop of \<open>parse_tokens\<close> may run forever, which is the value \<open>None\<close>.
\<close>

section \<open>Data\<close>

datatype token = TupleStart | TupleEnd | Ident string | TSlice string | TComma | TColon | TByte u8

datatype val = VByte u8 | VTuple "val list"

type_synonym attribute = "string \<times> val"

datatype navi_ttes =
    NaviES "attribute list" navi_ttes
  | NaviESS "navi_ttes list"
  | Slice string
  | OwnedSlice string

record attributes =
  fg :: "u8 \<times> u8 \<times> u8"

definition attributes_default :: attributes where
  "attributes_default = \<lparr>fg = (255, 255, 255)\<rparr>"

fun apply_attribute :: "attribute \<Rightarrow> attributes \<Rightarrow> attributes" where
  "apply_attribute (key, VTuple [VByte r, VByte g, VByte b]) attrs =
     (if key = ''fg'' then attrs\<lparr>fg := (r, g, b)\<rparr> else attrs)"
| "apply_attribute _ attrs = attrs"

definition from_list :: "attribute list \<Rightarrow> attributes \<Rightarrow> attributes" where
  "from_list attr_list dflt = fold apply_attribute attr_list dflt"

section \<open>Lexer\<close>

text \<open>Inclusive and exclusive character ranges, \<open>a..=b\<close> and \<open>a..b\<close>.\<close>

definition char_in :: "char \<Rightarrow> char \<Rightarrow> char \<Rightarrow> bool" where
  "char_in a b c \<longleftrightarrow> (of_char a :: nat) \<le> of_char c \<and> (of_char c :: nat) \<le> of_char b"

definition char_below :: "char \<Rightarrow> char \<Rightarrow> char \<Rightarrow> bool" where
  "char_below a b c \<longleftrightarrow> (of_char a :: nat) \<le> of_char c \<and> (of_char c :: nat) < of_char b"

text \<open>\<open>str::parse::<u8>\<close> on a string of digits.\<close>

definition digits_value :: "string \<Rightarrow> nat" where
  "digits_value ds = foldl (\<lambda>n c. n * 10 + (of_char c - of_char (CHR ''0''))) 0 ds"

definition parse_u8 :: "string \<Rightarrow> u8 rust" where
  "parse_u8 ds = (if digits_value ds < 256 then Inr (of_nat (digits_value ds)) else Inl UnwrapFailed)"

definition number_char :: "char \<Rightarrow> bool" where
  "number_char = char_below (CHR ''0'') (CHR ''9'')"

definition ident_char :: "char \<Rightarrow> bool" where
  "ident_char c \<longleftrightarrow> char_below (CHR ''a'') (CHR ''z'') c \<or> char_below (CHR ''A'') (CHR ''Z'') c"

definition lex_number :: "string \<Rightarrow> char \<Rightarrow> (u8 \<times> string) rust" where
  "lex_number chars first =
     rbind (parse_u8 (first # takeWhile number_char chars)) (\<lambda>n. Inr (n, dropWhile number_char chars))"

definition lex_ident :: "string \<Rightarrow> char \<Rightarrow> string \<times> string" where
  "lex_ident chars first = (first # takeWhile ident_char chars, dropWhile ident_char chars)"

definition peek_is :: "char \<Rightarrow> string \<Rightarrow> bool" where
  "peek_is c cs \<longleftrightarrow> (case cs of [] \<Rightarrow> False | d # _ \<Rightarrow> d = c)"

fun lex_slice :: "string \<Rightarrow> string \<times> string" where
  "lex_slice [] = ([], [])"
| "lex_slice (c # cs) =
     (if c = CHR ''|'' \<and> peek_is (CHR ''|'') cs then ([], cs)
      else let (s, rest) = lex_slice cs in (c # s, rest))"

lemma lex_slice_length: "length (snd (lex_slice cs)) \<le> length cs"
  by (induction cs) (auto simp: Let_def split: prod.splits)

lemma lex_slice_tl: "length (snd (lex_slice (tl cs))) \<le> length cs"
  using lex_slice_length[of "tl cs"] by simp

function lex_chars :: "string \<Rightarrow> token list \<Rightarrow> (token list \<times> string) rust" where
  "lex_chars chars results =
     (case chars of
        [] \<Rightarrow> Inr (results, [])
      | c # cs \<Rightarrow>
          if c = CHR '']'' then Inr (results, cs)
          else if c = CHR '' '' \<or> c = CHR 0x0A \<or> c = CHR 0x09 then lex_chars cs results
          else if c = CHR '':'' then lex_chars cs (results @ [TColon])
          else if c = CHR '','' then lex_chars cs (results @ [TComma])
          else if c = CHR ''('' then lex_chars cs (results @ [TupleStart])
          else if c = CHR '')'' then lex_chars cs (results @ [TupleEnd])
          else if char_in (CHR ''0'') (CHR ''9'') c then
            (case lex_number cs c of
               Inl p \<Rightarrow> Inl p
             | Inr (n, rest) \<Rightarrow> lex_chars rest (results @ [TByte n]))
          else if char_in (CHR ''a'') (CHR ''z'') c \<or> char_in (CHR ''A'') (CHR ''Z'') c then
            lex_chars (snd (lex_ident cs c)) (results @ [Ident (fst (lex_ident cs c))])
          else if c = CHR ''|'' then
            (if peek_is (CHR ''|'') cs
             then lex_chars (snd (lex_slice (tl cs))) (results @ [TSlice (fst (lex_slice (tl cs)))])
             else lex_chars cs results)
          else Inr ([], cs))"
  by pat_completeness auto
termination
  by (relation "measure (\<lambda>(chars, _). length chars)")
     (auto simp: lex_number_def lex_ident_def rbind_eq_Inr lex_slice_tl less_Suc_eq_le length_dropWhile_le)

declare lex_chars.simps [simp del]

section \<open>Parser\<close>

type_synonym 'a parsed = "(unit + ('a \<times> token list)) rust"

definition current :: "token list \<Rightarrow> token rust" where
  "current ts = (case ts of [] \<Rightarrow> Inl IndexOutOfBounds | t # _ \<Rightarrow> Inr t)"

definition eat :: "token list \<Rightarrow> (token \<times> token list) rust" where
  "eat ts = rbind (current ts) (\<lambda>prev. Inr (prev, tl ts))"

definition expect :: "token \<Rightarrow> token list \<Rightarrow> token parsed" where
  "expect t ts = rbind (eat ts) (\<lambda>(e, ts1). if e = t then Inr (Inr (e, ts1)) else Inr (Inl ()))"

lemma eat_eq [rust_simps]: "eat ts = Inr (t, ts') \<longleftrightarrow> ts = t # ts'"
  by (cases ts) (auto simp: eat_def current_def)

lemma expect_eq [rust_simps]: "expect t ts = Inr (Inr (e, ts')) \<longleftrightarrow> ts = t # ts' \<and> e = t"
  by (cases ts) (auto simp: expect_def eat_def current_def)

function parse_value :: "token list \<Rightarrow> val parsed" and parse_items :: "val list \<Rightarrow> token list \<Rightarrow> val list parsed" where
  "parse_value ts =
     rbind (eat ts) (\<lambda>(t, ts1). case t of
       TByte b \<Rightarrow> Inr (Inr (VByte b, ts1))
     | TupleStart \<Rightarrow>
         qbind (parse_value ts1) (\<lambda>(v, ts2).
         qbind (parse_items [v] ts2) (\<lambda>(items, ts3).
         qbind (expect TupleEnd ts3) (\<lambda>(_, ts4). Inr (Inr (VTuple items, ts4)))))
     | _ \<Rightarrow> Inl NotImplemented)"
| "parse_items items ts =
     rbind (current ts) (\<lambda>t.
     if t = TComma then
       rbind (eat ts) (\<lambda>(_, ts1).
       qbind (parse_value ts1) (\<lambda>(v, ts2). parse_items (items @ [v]) ts2))
     else Inr (Inr (items, ts)))"
  by pat_completeness auto

text \<open>What is left after a value is shorter, so the recursion ends.\<close>

lemma parse_shorter:
  "parse_value_parse_items_dom (Inl ts) \<Longrightarrow> parse_value ts = Inr (Inr (v, ts')) \<Longrightarrow> length ts' < length ts"
  "parse_value_parse_items_dom (Inr (items, ts)) \<Longrightarrow> parse_items items ts = Inr (Inr (vs, ts')) \<Longrightarrow> length ts' \<le> length ts"
proof (induction ts and items ts arbitrary: v ts' and vs ts' rule: parse_value_parse_items.pinduct)
  case (1 ts)
  from 1(4) obtain t ts1 where ts: "ts = t # ts1"
    by (auto simp: parse_value.psimps[OF 1(1)] rust_simps)
  have e: "eat ts = Inr (t, ts1)" by (simp add: ts eat_eq)
  show ?case
  proof (cases "t = TupleStart")
    case True
    with 1(4) obtain v1 ts2 items ts3 where p: "parse_value ts1 = Inr (Inr (v1, ts2))"
      "parse_items [v1] ts2 = Inr (Inr (items, ts3))" "expect TupleEnd ts3 = Inr (Inr (TupleEnd, ts'))"
      by (auto simp: parse_value.psimps[OF 1(1)] e rust_simps expect_def split: if_splits)
    have "length ts2 < length ts1" using 1(2)[OF e refl True p(1)] .
    moreover have "length ts3 \<le> length ts2" using 1(3)[OF e refl True p(1) refl p(2)] .
    moreover have "length ts' < length ts3" using p(3) by (auto simp: expect_def rust_simps split: if_splits)
    ultimately show ?thesis by (simp add: ts)
  next
    case False
    with 1(4) have "ts' = ts1"
      by (auto simp: parse_value.psimps[OF 1(1)] e split: token.splits)
    then show ?thesis by (simp add: ts)
  qed
next
  case (2 items ts)
  show ?case
  proof (cases "\<exists>ts1. ts = TComma # ts1")
    case True
    then obtain ts1 where ts: "ts = TComma # ts1" by blast
    have e: "current ts = Inr TComma" "eat ts = Inr (TComma, ts1)" by (simp_all add: ts eat_eq current_def)
    from 2(4) obtain v1 ts2 where p: "parse_value ts1 = Inr (Inr (v1, ts2))"
      "parse_items (items @ [v1]) ts2 = Inr (Inr (vs, ts'))"
      by (auto simp: parse_items.psimps[OF 2(1)] e rust_simps)
    have "length ts2 < length ts1" using 2(2)[OF e(1) refl e(2) refl p(1)] .
    moreover have "length ts' \<le> length ts2" using 2(3)[OF e(1) refl e(2) refl p(1) refl p(2)] .
    ultimately show ?thesis by (simp add: ts)
  next
    case False
    from 2(4) obtain t where t: "current ts = Inr t" by (auto simp: parse_items.psimps[OF 2(1)] rust_simps)
    with False have "t \<noteq> TComma" by (cases ts) (auto simp: current_def)
    with 2(4) t show ?thesis by (simp add: parse_items.psimps[OF 2(1)])
  qed
qed

lemma parse_total: "All parse_value_parse_items_dom"
  by (rule "parse_value_parse_items.termination"
      [of "measure (\<lambda>x. case x of Inl ts \<Rightarrow> length ts | Inr (_, ts) \<Rightarrow> length ts)"])
     (auto simp: rust_simps dest: parse_shorter)

termination parse_value
  by (rule parse_total)

declare parse_value.simps [simp del] parse_items.simps [simp del]

definition parse_attribute :: "token list \<Rightarrow> attribute parsed" where
  "parse_attribute ts =
     rbind (eat ts) (\<lambda>(t, ts1). case t of
       Ident i \<Rightarrow>
         qbind (expect TColon ts1) (\<lambda>(_, ts2).
         qbind (parse_value ts2) (\<lambda>(v, ts3). Inr (Inr ((i, v), ts3))))
     | _ \<Rightarrow> Inr (Inl ()))"

lemma parse_value_shorter: "parse_value ts = Inr (Inr (v, ts')) \<Longrightarrow> length ts' < length ts"
  using parse_shorter(1)[OF spec[OF parse_total]] .

lemma parse_attribute_shorter:
  assumes "parse_attribute ts = Inr (Inr (a, ts'))" shows "length ts' < length ts"
proof (cases ts)
  case (Cons t ts1)
  with assms obtain i ts2 v where "ts = Ident i # TColon # ts2" "parse_value ts2 = Inr (Inr (v, ts'))"
    by (cases t) (auto simp: parse_attribute_def eat_def current_def rust_simps)
  then show ?thesis by (auto dest: parse_value_shorter)
qed (use assms in \<open>simp add: parse_attribute_def eat_def current_def\<close>)

text \<open>The loop of \<open>parse_attributes\<close>.\<close>

function more_attributes :: "attribute list \<Rightarrow> token list \<Rightarrow> attribute list parsed" where
  "more_attributes results ts =
     rbind (current ts) (\<lambda>t.
     if t = TComma then
       rbind (eat ts) (\<lambda>(_, ts1).
       qbind (parse_attribute ts1) (\<lambda>(attr, ts2). more_attributes (results @ [attr]) ts2))
     else Inr (Inr (results, ts)))"
  by pat_completeness auto
termination
  by (relation "measure (\<lambda>(_, ts). length ts)") (auto simp: rust_simps dest: parse_attribute_shorter)

declare more_attributes.simps [simp del]

definition parse_attributes :: "token list \<Rightarrow> attribute list parsed" where
  "parse_attributes ts = qbind (parse_attribute ts) (\<lambda>(a, ts1). more_attributes [a] ts1)"

partial_function (option) parse_tokens_loop :: "navi_ttes list \<Rightarrow> token list \<Rightarrow> (unit + navi_ttes list) rust option" where
  "parse_tokens_loop ttes ts =
     (case ts of
        [] \<Rightarrow> Some (Inr (Inr ttes))
      | t # _ \<Rightarrow>
          (case t of
             Ident _ \<Rightarrow>
               (case parse_attributes ts of
                  Inl p \<Rightarrow> Some (Inl p)
                | Inr (Inl e) \<Rightarrow> Some (Inr (Inl e))
                | Inr (Inr (attributes, ts1)) \<Rightarrow>
                    (case eat ts1 of
                       Inl p \<Rightarrow> Some (Inl p)
                     | Inr (t1, ts2) \<Rightarrow>
                         (case t1 of
                            TSlice sl \<Rightarrow> parse_tokens_loop (ttes @ [NaviES attributes (OwnedSlice sl)]) ts2
                          | _ \<Rightarrow> Some (Inr (Inl ())))))
           | TSlice s \<Rightarrow> parse_tokens_loop (ttes @ [OwnedSlice s]) ts
           | _ \<Rightarrow> Some (Inr (Inl ()))))"

definition parse_tokens :: "token list \<Rightarrow> (unit + navi_ttes) rust option" where
  "parse_tokens ts =
     map_option (\<lambda>r. qbind r (\<lambda>ttes. Inr (Inr (NaviESS ttes)))) (parse_tokens_loop [] ts)"

section \<open>Whole strings\<close>

definition as_list :: "navi_ttes \<Rightarrow> navi_ttes list rust" where
  "as_list result = (case result of
       NaviESS ttes \<Rightarrow> Inr ttes
     | Slice _ \<Rightarrow> Inr [result]
     | _ \<Rightarrow> Inl NotImplemented)"

partial_function (option) parse_str_loop :: "navi_ttes \<Rightarrow> string \<Rightarrow> navi_ttes rust option" where
  "parse_str_loop result chars =
     (case chars of
        [] \<Rightarrow> Some (Inr result)
      | c # cs \<Rightarrow>
          if c = CHR 0x5C then
            (case cs of
               [] \<Rightarrow> parse_str_loop result []
             | d # cs1 \<Rightarrow>
                 if d = CHR ''['' then
                   (case as_list result of
                      Inl p \<Rightarrow> Some (Inl p)
                    | Inr ttes \<Rightarrow>
                        (case lex_chars cs1 [] of
                           Inl p \<Rightarrow> Some (Inl p)
                         | Inr (tokens, rest) \<Rightarrow>
                             (case parse_tokens tokens of
                                None \<Rightarrow> None
                              | Some (Inl p) \<Rightarrow> Some (Inl p)
                              | Some (Inr (Inl _)) \<Rightarrow> parse_str_loop result rest
                              | Some (Inr (Inr val)) \<Rightarrow> parse_str_loop (NaviESS (ttes @ [val])) rest)))
                 else parse_str_loop result cs1)
          else parse_str_loop result cs)"

definition drop_first :: "navi_ttes \<Rightarrow> navi_ttes" where
  "drop_first result = (case result of
       NaviESS results \<Rightarrow> NaviESS (if length results > 1 then tl results else results)
     | _ \<Rightarrow> result)"

definition parse_str :: "string \<Rightarrow> navi_ttes rust option" where
  "parse_str str = map_option (\<lambda>r. rbind r (\<lambda>result. Inr (drop_first result))) (parse_str_loop (Slice str) str)"

end
