(* ===== verification/Terminal.thy ===== *)
theory Terminal
  imports Addresses Keymapper Navitts
begin

text \<open>
  \<open>kernel/src/terminal/framebuffer.rs\<close>: the terminal. \<open>buffer\<close> is the memory of the screen, \<open>viewport\<close> the scroll-back
  of which the screen shows a window that starts at \<open>viewport_start\<close>; positions are in pixels.

  The glyphs come from the crate \<open>noto_sans_mono_bitmap\<close>, which is the parameter \<open>font\<close>: the bitmap of a character in a
  weight, if the font has it, and the height in pixels of the raster size the kernel uses.
  A \<open>char\<close> is its code point. The volatile read of the screen memory at the end of \<open>set_pixel\<close> has no effect on the state.
\<close>

section \<open>State\<close>

datatype terminal_mode = Init | Stdout | Stdin

datatype pixel_format = Rgb | Bgr

record frame_buffer_info =
  stride :: usize
  bytes_per_pixel :: usize
  pixel_format :: pixel_format

datatype font_weight = Regular | Bold

record glyph =
  g_width :: usize
  g_raster :: "u8 list list"

record font =
  get_raster :: "u32 \<Rightarrow> font_weight \<Rightarrow> glyph option"
  raster_val :: usize

record terminal =
  buffer :: "u8 list"
  viewport :: "u8 list"
  viewport_start :: usize
  mode :: terminal_mode
  stdin_buffer :: "u32 list"
  stdout_buffer :: string
  current_dir :: string
  info :: frame_buffer_info
  x_pos :: usize
  y_pos :: usize
  panicked :: bool

type_synonym color = "u8 \<times> u8 \<times> u8"

definition WRITE_COLOR :: color where "WRITE_COLOR = (255, 255, 255)"
definition INPUT_CHAR :: color where "INPUT_CHAR = (170, 200, 30)"

definition terminal_init :: "u8 list \<Rightarrow> frame_buffer_info \<Rightarrow> terminal" where
  "terminal_init buf nfo =
     \<lparr>buffer = map (\<lambda>_. 0) buf, viewport = replicate (length buf) 0, viewport_start = 0, mode = Init,
      stdin_buffer = [], stdout_buffer = [], current_dir = ''ram:/'', info = nfo, x_pos = 0, y_pos = 0,
      panicked = False\<rparr>"

section \<open>Drawing\<close>

text \<open>\<open>buf.len()\<close> as a \<open>usize\<close>.\<close>

abbreviation len_w :: "'a list \<Rightarrow> usize" where
  "len_w xs \<equiv> of_nat (length xs)"

definition draw_viewport :: "terminal \<Rightarrow> terminal rust" where
  "draw_viewport t =
     rbind (mul_w (x_pos t) (y_pos t)) (\<lambda>xy.
     rbind (mul_w xy (bytes_per_pixel (info t))) (\<lambda>current_byte.
     rbind (add_w (viewport_start t) current_byte) (\<lambda>start.
     rbind (add_w (len_w (buffer t)) start) (\<lambda>e.
     rbind (sub_w e current_byte) (\<lambda>til.
     rbind (slice (viewport t) (unat start) (unat til)) (\<lambda>src.
     rbind (copy_into (buffer t) (unat current_byte) (length (buffer t)) src) (\<lambda>buf.
     Inr (t\<lparr>buffer := buf\<rparr>))))))))"

definition get_byte_offset :: "terminal \<Rightarrow> usize \<Rightarrow> usize \<Rightarrow> usize rust" where
  "get_byte_offset t x y =
     rbind (mul_w y (stride (info t))) (\<lambda>a.
     rbind (add_w a x) (\<lambda>b. mul_w b (bytes_per_pixel (info t))))"

definition scroll_amount :: "font \<Rightarrow> terminal \<Rightarrow> usize rust" where
  "scroll_amount fnt t =
     rbind (mul_w (stride (info t)) (bytes_per_pixel (info t))) (\<lambda>a. mul_w a (raster_val fnt))"

definition scroll_up :: "font \<Rightarrow> terminal \<Rightarrow> terminal rust" where
  "scroll_up fnt t =
     (let old_y = y_pos t; old_x = x_pos t; t0 = t\<lparr>y_pos := 0, x_pos := 0\<rparr> in
      rbind (scroll_amount fnt t0) (\<lambda>amount.
      rbind (if viewport_start t0 \<ge> amount
             then draw_viewport (t0\<lparr>viewport_start := viewport_start t0 - amount\<rparr>)
             else Inr t0) (\<lambda>t1.
      Inr (t1\<lparr>y_pos := old_y, x_pos := old_x\<rparr>))))"

text \<open>\<open>viewport.copy_within(amount..len, 0)\<close> and the \<open>fill\<close> of the freed tail.\<close>

definition shift_viewport :: "usize \<Rightarrow> u8 list \<Rightarrow> u8 list rust" where
  "shift_viewport amount vp =
     rbind (slice vp (unat amount) (length vp)) (\<lambda>src.
     rbind (copy_into vp 0 (length src) src) (\<lambda>vp1.
     rbind (sub_w (len_w vp) amount) (\<lambda>from.
     copy_into vp1 (unat from) (length vp) (replicate (length vp - unat from) 0))))"

text \<open>The branches of \<open>scroll_down\<close>: a page down, and making room for a line at the end.\<close>

definition page_fits :: "usize \<Rightarrow> terminal \<Rightarrow> bool rust" where
  "page_fits amount t =
     rbind (add_w (viewport_start t) amount) (\<lambda>a.
     rbind (add_w a (len_w (buffer t))) (\<lambda>b. Inr (len_w (viewport t) \<ge> b)))"

definition page_down :: "usize \<Rightarrow> terminal \<Rightarrow> terminal rust" where
  "page_down amount t =
     rbind (add_w (viewport_start t) amount) (\<lambda>s. draw_viewport (t\<lparr>viewport_start := s\<rparr>))"

definition make_room :: "font \<Rightarrow> usize \<Rightarrow> usize \<Rightarrow> terminal \<Rightarrow> (terminal \<times> usize) rust" where
  "make_room fnt amount old_y t =
     rbind (add_w (len_w (viewport t)) amount) (\<lambda>need.
     rbind (mul_w (len_w (buffer t)) 4) (\<lambda>limit.
     if need \<le> limit then
       rbind (add_w (viewport_start t) amount) (\<lambda>s.
       rbind (draw_viewport (t\<lparr>viewport := viewport t @ replicate (unat need - length (viewport t)) 0,
           viewport_start := s\<rparr>)) (\<lambda>t1. Inr (t1, old_y)))
     else
       rbind (shift_viewport amount (viewport t)) (\<lambda>vp.
       rbind (sub_w old_y (raster_val fnt)) (\<lambda>y.
       rbind (draw_viewport (t\<lparr>viewport := vp\<rparr>)) (\<lambda>t1. Inr (t1, y))))))"

definition scroll_down :: "font \<Rightarrow> bool \<Rightarrow> terminal \<Rightarrow> terminal rust" where
  "scroll_down fnt make_space t =
     (let old_y = y_pos t; old_x = x_pos t in
      rbind (scroll_amount fnt t) (\<lambda>amount.
      let t0 = t\<lparr>y_pos := 0, x_pos := 0\<rparr> in
      rbind (if make_space then Inr False else page_fits amount t0) (\<lambda>page.
      rbind (if page then rbind (page_down amount t0) (\<lambda>t1. Inr (t1, old_y))
             else if make_space then make_room fnt amount old_y t0
             else Inr (t0, old_y)) (\<lambda>(t1, y).
      Inr (t1\<lparr>y_pos := y, x_pos := old_x\<rparr>)))))"

definition newline :: "font \<Rightarrow> terminal \<Rightarrow> terminal rust" where
  "newline fnt t =
     rbind (add_w (y_pos t) (raster_val fnt)) (\<lambda>y.
     let t1 = t\<lparr>y_pos := y, x_pos := 0\<rparr> in
     rbind (mul_w y (stride (info t1))) (\<lambda>a.
     rbind (mul_w a (bytes_per_pixel (info t1))) (\<lambda>b.
     rbind (add_w (viewport_start t1) (len_w (buffer t1))) (\<lambda>e.
     if b \<ge> e then scroll_down fnt True t1 else Inr t1))))"

definition raster :: "font \<Rightarrow> u32 \<Rightarrow> glyph rust" where
  "raster fnt c =
     rbind (unwrap (get_raster fnt 78 Regular)) (\<lambda>null.
     Inr (case get_raster fnt c Bold of Some g \<Rightarrow> g | None \<Rightarrow> null))"

text \<open>One colour channel: intensity times value as a \<open>u32\<close>, shifted down and cut to a byte.\<close>

definition channel :: "u32 \<Rightarrow> u8 \<Rightarrow> u8 rust" where
  "channel intens v =
     rbind (mul_w intens (ucast v)) (\<lambda>p. Inr (ucast (drop_bit 8 p AND 0xff)))"

definition set_pixel :: "usize \<Rightarrow> usize \<Rightarrow> u32 \<Rightarrow> color \<Rightarrow> terminal \<Rightarrow> terminal rust" where
  "set_pixel x y intens col t = (case col of (r, g, b) \<Rightarrow>
     let (c0, c1, c2) = (case pixel_format (info t) of Rgb \<Rightarrow> (r, g, b) | Bgr \<Rightarrow> (b, g, r)) in
     rbind (channel intens c0) (\<lambda>p0.
     rbind (channel intens c1) (\<lambda>p1.
     rbind (channel intens c2) (\<lambda>p2.
     let bpp = bytes_per_pixel (info t) in
     rbind (get_byte_offset t x y) (\<lambda>byte_offset.
     rbind (add_w byte_offset bpp) (\<lambda>e.
     rbind (slice [p0, p1, p2, 0] 0 (unat bpp)) (\<lambda>src.
     rbind (copy_into (viewport t) (unat byte_offset) (unat e) src) (\<lambda>vp.
     Inr (t\<lparr>viewport := vp\<rparr>)))))))))"

text \<open>
  The double loop over the rows and columns of a bitmap at the current position. \<open>pix\<close> gives the intensity drawn for a
  byte of the bitmap.
\<close>

fun draw_row :: "(u8 \<Rightarrow> u32) \<Rightarrow> color \<Rightarrow> usize \<Rightarrow> u8 list \<Rightarrow> usize \<Rightarrow> terminal \<Rightarrow> terminal rust" where
  "draw_row pix col row [] j t = Inr t"
| "draw_row pix col row (b # bs) j t =
     rbind (add_w (x_pos t) j) (\<lambda>x.
     rbind (add_w (y_pos t) row) (\<lambda>y.
     rbind (set_pixel x y (pix b) col t) (\<lambda>t1.
     draw_row pix col row bs (j + 1) t1)))"

fun draw_rows :: "(u8 \<Rightarrow> u32) \<Rightarrow> color \<Rightarrow> u8 list list \<Rightarrow> usize \<Rightarrow> terminal \<Rightarrow> terminal rust" where
  "draw_rows pix col [] i t = Inr t"
| "draw_rows pix col (r # rs) i t =
     rbind (draw_row pix col i r 0 t) (\<lambda>t1. draw_rows pix col rs (i + 1) t1)"

definition remove_char :: "font \<Rightarrow> u32 \<Rightarrow> terminal \<Rightarrow> terminal rust" where
  "remove_char fnt c t =
     rbind (raster fnt c) (\<lambda>glyph.
     rbind (if x_pos t \<ge> g_width glyph then Inr (t\<lparr>x_pos := x_pos t - g_width glyph\<rparr>)
            else rbind (sub_w (y_pos t) (raster_val fnt)) (\<lambda>y.
                 rbind (align_down (stride (info t)) (g_width glyph)) (\<lambda>a.
                 rbind (sub_w a (g_width glyph)) (\<lambda>x. Inr (t\<lparr>y_pos := y, x_pos := x\<rparr>))))) (\<lambda>t1.
     draw_rows (\<lambda>_. 0) (0, 0, 0) (g_raster glyph) 0 t1))"

definition backspace :: "font \<Rightarrow> terminal \<Rightarrow> terminal rust" where
  "backspace fnt t =
     (let t1 = t\<lparr>stdin_buffer := butlast (stdin_buffer t)\<rparr> in
      if stdin_buffer t1 = [] then Inr t1
      else remove_char fnt (last (stdin_buffer t1)) (t1\<lparr>stdin_buffer := butlast (stdin_buffer t1)\<rparr>))"

definition draw_char :: "font \<Rightarrow> glyph \<Rightarrow> color \<Rightarrow> terminal \<Rightarrow> terminal rust" where
  "draw_char fnt glyph col t =
     rbind (add_w (x_pos t) (g_width glyph)) (\<lambda>e.
     rbind (if e > stride (info t) then newline fnt t else Inr t) (\<lambda>t1.
     rbind (draw_rows ucast col (g_raster glyph) 0 t1) (\<lambda>t2.
     rbind (add_w (x_pos t2) (g_width glyph)) (\<lambda>x. Inr (t2\<lparr>x_pos := x\<rparr>)))))"

definition putc :: "font \<Rightarrow> u32 \<Rightarrow> color \<Rightarrow> terminal \<Rightarrow> terminal rust" where
  "putc fnt c col t =
     (if c = 0x0A then newline fnt t
      else if c = 0x08 then backspace fnt t
      else rbind (raster fnt c) (\<lambda>glyph. draw_char fnt glyph col t))"

section \<open>Input and output\<close>

definition stdin_putc :: "font \<Rightarrow> u32 \<Rightarrow> terminal \<Rightarrow> terminal rust" where
  "stdin_putc fnt c t =
     rbind (if mode t = Stdin \<and> stdin_buffer t \<noteq> [] then remove_char fnt 0x5F t else Inr t) (\<lambda>t1.
     rbind (putc fnt c (255, 255, 255) (t1\<lparr>stdin_buffer := stdin_buffer t1 @ [c]\<rparr>)) (\<lambda>t2.
     rbind (if mode t2 = Stdin \<and> c \<noteq> 0x0A \<and> stdin_buffer t2 \<noteq> [] then putc fnt 0x5F INPUT_CHAR t2 else Inr t2) (\<lambda>t3.
     draw_viewport t3)))"

text \<open>\<open>str::chars\<close> on the bytes of a string in UTF-8.\<close>

definition cont_bits :: "char \<Rightarrow> u32" where
  "cont_bits c = of_char c AND 0x3F"

fun chars :: "string \<Rightarrow> u32 list" where
  "chars [] = []"
| "chars (a # s) =
     (if (of_char a :: nat) < 0x80 then of_char a # chars s
      else if (of_char a :: nat) < 0xE0 then
        (case s of b # s' \<Rightarrow> (push_bit 6 (of_char a AND 0x1F) OR cont_bits b) # chars s' | _ \<Rightarrow> [])
      else if (of_char a :: nat) < 0xF0 then
        (case s of b # c # s' \<Rightarrow>
           (push_bit 12 (of_char a AND 0x0F) OR push_bit 6 (cont_bits b) OR cont_bits c) # chars s' | _ \<Rightarrow> [])
      else
        (case s of b # c # d # s' \<Rightarrow>
           (push_bit 18 (of_char a AND 0x07) OR push_bit 12 (cont_bits b) OR push_bit 6 (cont_bits c) OR cont_bits d)
             # chars s' | _ \<Rightarrow> []))"

fun put_chars :: "font \<Rightarrow> u32 list \<Rightarrow> color \<Rightarrow> terminal \<Rightarrow> terminal rust" where
  "put_chars fnt [] col t = Inr t"
| "put_chars fnt (c # cs) col t = rbind (putc fnt c col t) (put_chars fnt cs col)"

definition write_slice :: "font \<Rightarrow> string \<Rightarrow> attributes \<Rightarrow> terminal \<Rightarrow> terminal rust" where
  "write_slice fnt str attributes t =
     (let old_mode = mode t in
      rbind (put_chars fnt (chars str) (fg attributes)
        (t\<lparr>mode := Stdout, stdout_buffer := stdout_buffer t @ str\<rparr>)) (\<lambda>t1.
      rbind (draw_viewport t1) (\<lambda>t2. Inr (t2\<lparr>mode := old_mode\<rparr>))))"

fun write_es :: "font \<Rightarrow> navi_ttes \<Rightarrow> attributes \<Rightarrow> terminal \<Rightarrow> terminal rust"
  and write_ess :: "font \<Rightarrow> navi_ttes list \<Rightarrow> attributes \<Rightarrow> terminal \<Rightarrow> terminal rust" where
  "write_es fnt (Slice s) dflt t = write_slice fnt s dflt t"
| "write_es fnt (OwnedSlice s) dflt t = write_slice fnt s dflt t"
| "write_es fnt (NaviESS escape_seqs) dflt t = write_ess fnt escape_seqs dflt t"
| "write_es fnt (NaviES attrs sq) dflt t = write_es fnt sq (from_list attrs dflt) t"
| "write_ess fnt [] dflt t = Inr t"
| "write_ess fnt (e # es) dflt t = rbind (write_es fnt e dflt t) (write_ess fnt es dflt)"

text \<open>A text on which the parser of escape sequences hangs is never written: the value \<open>None\<close>.\<close>

definition terminal_write :: "font \<Rightarrow> string \<Rightarrow> terminal \<Rightarrow> terminal rust option" where
  "terminal_write fnt str t =
     map_option (\<lambda>r. rbind r (\<lambda>parsed. write_es fnt parsed (attributes_default\<lparr>fg := WRITE_COLOR\<rparr>) t)) (parse_str str)"

definition clear :: "font \<Rightarrow> terminal \<Rightarrow> terminal rust option" where
  "clear fnt t =
     map_option (\<lambda>r. rbind r (\<lambda>t1.
       draw_viewport
         (t1\<lparr>viewport_start := 0,
             viewport := replicate (min (length (viewport t1)) (length (buffer t1))) 0,
             x_pos := 0, y_pos := 0, stdin_buffer := [], stdout_buffer := [],
             mode := (if mode t1 = Init then Stdin else mode t1)\<rparr>)))
       (terminal_write fnt (''clearing'' @ [CHR 0x0A]) t)"

definition on_key_pressed :: "font \<Rightarrow> key \<Rightarrow> terminal \<Rightarrow> terminal rust option" where
  "on_key_pressed fnt key t =
     map_option (\<lambda>r. rbind r (\<lambda>t1.
       if mode t1 = Stdin then
         rbind (map_key key) (\<lambda>mapped. if mapped \<noteq> 0 then stdin_putc fnt mapped t1 else Inr t1)
       else Inr t1))
     (if code key = PageDown then Some (scroll_down fnt False t)
      else if code key = PageUp then Some (scroll_up fnt t)
      else if code key = KeyC \<and> flags key = CTRL OR SHIFT then clear fnt t
      else Some (Inr t))"

text \<open>
  \<open>readln\<close> of \<open>terminal/mod.rs\<close> switches to input, then polls the line until the key interrupts have put a newline at its end:
  what it does before the loop, and one pass of the loop, which returns the line or goes on.
\<close>

definition readln_start :: "terminal \<Rightarrow> terminal_mode \<times> terminal" where
  "readln_start t = (mode t, t\<lparr>mode := Stdin\<rparr>)"

definition readln_poll :: "terminal_mode \<Rightarrow> terminal \<Rightarrow> (u32 list \<times> terminal) option" where
  "readln_poll old_mode t =
     (if stdin_buffer t \<noteq> [] \<and> last (stdin_buffer t) = 0x0A
      then Some (butlast (stdin_buffer t), t\<lparr>stdin_buffer := [], mode := old_mode\<rparr>)
      else None)"

end
