(* ===== verification/Terminal_Props.thy ===== *)
theory Terminal_Props
  imports Terminal
begin

text \<open>
  Properties of the terminal: the window the screen shows of the scroll-back stays inside it, paging moves exactly that window,
  the line being typed is edited as a list of characters, and what \<open>draw_viewport\<close> copies to the screen.
\<close>

section \<open>The window\<close>

text \<open>The screen is a window of the scroll-back, which is at most four screens long; a screen is far smaller than the address space.\<close>

definition window_ok :: "terminal \<Rightarrow> bool" where
  "window_ok t \<longleftrightarrow> unat (viewport_start t) + length (buffer t) \<le> length (viewport t) \<and>
     length (viewport t) \<le> 4 * length (buffer t) \<and> 8 * length (buffer t) < 2 ^ 64"

lemma window_len:
  assumes "window_ok t"
  shows "unat (len_w (buffer t)) = length (buffer t)" "unat (len_w (viewport t)) = length (viewport t)"
  using assms by (simp_all add: window_ok_def unat_of_nat_small)

text \<open>What drawing may change, and that it keeps the window inside the scroll-back.\<close>

definition drawn :: "terminal \<Rightarrow> terminal \<Rightarrow> bool" where
  "drawn t t' \<longleftrightarrow> (\<exists>b vp s x y. t' = t\<lparr>buffer := b, viewport := vp, viewport_start := s, x_pos := x, y_pos := y\<rparr> \<and>
     length b = length (buffer t)) \<and> (window_ok t \<longrightarrow> window_ok t')"

lemma drawn_refl: "drawn t t"
  by (cases t) (auto simp: drawn_def)

lemma drawn_trans: "drawn t1 t2 \<Longrightarrow> drawn t2 t3 \<Longrightarrow> drawn t1 t3"
  by (cases t1) (auto simp: drawn_def)

lemma drawn_keeps:
  assumes "drawn t t'"
  shows "stdin_buffer t' = stdin_buffer t" "mode t' = mode t" "info t' = info t" "current_dir t' = current_dir t"
    "stdout_buffer t' = stdout_buffer t" "length (buffer t') = length (buffer t)"
  using assms by (auto simp: drawn_def)

lemma drawn_pos: "drawn t (t\<lparr>x_pos := x, y_pos := y\<rparr>)"
  by (cases t) (auto simp: drawn_def window_ok_def)

lemma drawn_stdin: "drawn t t' \<Longrightarrow> drawn (t\<lparr>stdin_buffer := s\<rparr>) (t'\<lparr>stdin_buffer := s\<rparr>)"
  by (cases t) (auto simp: drawn_def window_ok_def)

lemma draw_viewport_drawn:
  assumes "draw_viewport t = Inr t'" shows "drawn t t'"
proof -
  obtain buf where "t' = t\<lparr>buffer := buf\<rparr>" "length buf = length (buffer t)"
    using assms by (auto simp: draw_viewport_def rust_simps dest: copy_into_length)
  then show ?thesis by (cases t) (auto simp: drawn_def window_ok_def)
qed

lemma set_pixel_drawn:
  assumes "set_pixel x y i col t = Inr t'" shows "drawn t t'"
proof -
  obtain vp where "t' = t\<lparr>viewport := vp\<rparr>" "length vp = length (viewport t)"
    using assms by (auto simp: set_pixel_def Let_def rust_simps dest: copy_into_length split: prod.splits)
  then show ?thesis by (cases t) (auto simp: drawn_def window_ok_def)
qed

lemma draw_row_drawn: "draw_row pix col i bs j t = Inr t' \<Longrightarrow> drawn t t'"
proof (induction pix col i bs j t rule: draw_row.induct)
  case (2 pix col row b bs j t)
  then show ?case by (auto simp: rbind_eq_Inr dest: set_pixel_drawn intro: drawn_trans)
qed (simp add: drawn_refl)

lemma draw_rows_drawn: "draw_rows pix col rs i t = Inr t' \<Longrightarrow> drawn t t'"
proof (induction pix col rs i t rule: draw_rows.induct)
  case (2 pix col r rs i t)
  then show ?case by (auto simp: rbind_eq_Inr dest: draw_row_drawn intro: drawn_trans)
qed (simp add: drawn_refl)

section \<open>Drawing the window\<close>

text \<open>
  \<open>draw_viewport\<close> copies the window to the screen from byte \<open>x_pos * y_pos * bytes_per_pixel\<close> on and leaves the bytes before it as they were;
  it panics exactly when that product is beyond the end of the screen. The product is not the place of the pixel on the screen, so
  lines above the position can stay stale, and since \<open>y_pos\<close> counts rows of the whole scroll-back, text at the right of
  a line far enough down crashes.
\<close>
lemma draw_viewport_correct:
  assumes w: "window_ok t" and small: "unat (x_pos t) * unat (y_pos t) * unat (bytes_per_pixel (info t)) < 2 ^ 63"
    and nz: "bytes_per_pixel (info t) \<noteq> 0"
  shows "let c = unat (x_pos t) * unat (y_pos t) * unat (bytes_per_pixel (info t)) in
    draw_viewport t =
      (if c \<le> length (buffer t)
       then Inr (t\<lparr>buffer := take c (buffer t) @
              take (length (buffer t) - c) (drop (unat (viewport_start t) + c) (viewport t))\<rparr>)
       else Inl IndexOutOfBounds)"
proof -
  let ?c = "unat (x_pos t) * unat (y_pos t) * unat (bytes_per_pixel (info t))"
  let ?cw = "x_pos t * y_pos t * bytes_per_pixel (info t)"
  have xy: "unat (x_pos t) * unat (y_pos t) < 2 ^ 64"
  proof -
    have "unat (x_pos t) * unat (y_pos t) * 1 \<le> ?c"
      using nz by (intro mult_le_mono2) (simp add: unat_gt_0 Suc_le_eq)
    then have "unat (x_pos t) * unat (y_pos t) \<le> ?c" by (simp only: mult_1_right)
    then show ?thesis by (rule le_less_trans) (use small in simp)
  qed
  have uxy: "unat (x_pos t * y_pos t) = unat (x_pos t) * unat (y_pos t)" using xy by (simp add: unat_mul_small)
  then have m2: "unat (x_pos t * y_pos t) * unat (bytes_per_pixel (info t)) < 2 ^ 64" using small by simp
  have uc: "unat ?cw = ?c" using unat_mul_small[of "x_pos t * y_pos t" "bytes_per_pixel (info t)"] m2 uxy by simp
  have len: "unat (len_w (buffer t)) = length (buffer t)" by (rule window_len[OF w])
  have b: "unat (viewport_start t) + length (buffer t) < 2 ^ 63" using w by (simp add: window_ok_def)
  have a1: "unat (viewport_start t) + unat ?cw < 2 ^ 64" using b small by (simp add: uc)
  have us: "unat (viewport_start t + ?cw) = unat (viewport_start t) + ?c" using a1 by (simp add: unat_add_small uc)
  have a2: "unat (len_w (buffer t)) + unat (viewport_start t + ?cw) < 2 ^ 64" using b small by (simp add: us len)
  have ue: "unat (len_w (buffer t) + (viewport_start t + ?cw)) = length (buffer t) + unat (viewport_start t) + ?c"
    using a2 by (simp add: unat_add_small us len)
  have le: "?cw \<le> len_w (buffer t) + (viewport_start t + ?cw)" by (simp add: word_le_nat_alt ue uc)
  have ut: "unat (len_w (buffer t) + (viewport_start t + ?cw) - ?cw) = length (buffer t) + unat (viewport_start t)"
    using unat_sub_small[OF le] unfolding ue uc by simp
  have run: "draw_viewport t =
    rbind (slice (viewport t) (unat (viewport_start t) + ?c) (length (buffer t) + unat (viewport_start t))) (\<lambda>src.
    rbind (copy_into (buffer t) ?c (length (buffer t)) src) (\<lambda>buf. Inr (t\<lparr>buffer := buf\<rparr>)))"
    using xy m2 a1 a2 le ut us uc by (simp add: draw_viewport_def mul_w_def add_w_def sub_w_def)
  show ?thesis
  proof (cases "?c \<le> length (buffer t)")
    case True
    have "unat (viewport_start t) + length (buffer t) \<le> length (viewport t)" using w by (simp add: window_ok_def)
    then have "length (buffer t) - ?c \<le> length (viewport t) - (unat (viewport_start t) + ?c)" using True by linarith
    with True w show ?thesis
      by (simp add: run slice_def copy_into_def window_ok_def Let_def min_absorb2)
  next
    case False
    then show ?thesis by (simp add: run slice_def Let_def)
  qed
qed

text \<open>A screen of two pixels by two, with a font of one-pixel glyphs.\<close>

definition example_terminal :: "u8 list \<Rightarrow> usize \<Rightarrow> usize \<Rightarrow> terminal" where
  "example_terminal vp x y =
     (terminal_init [0, 0, 0, 0] \<lparr>stride = 2, bytes_per_pixel = 1, pixel_format = Rgb\<rparr>)
       \<lparr>viewport := vp, x_pos := x, y_pos := y\<rparr>"

definition example_font :: font where
  "example_font = \<lparr>get_raster = (\<lambda>_ _. Some \<lparr>g_width = 1, g_raster = [[255]]\<rparr>), raster_val = 1\<rparr>"

lemma example_window: "4 \<le> length vp \<Longrightarrow> length vp \<le> 16 \<Longrightarrow> window_ok (example_terminal vp x y)"
  by (simp add: window_ok_def example_terminal_def terminal_init_def)

lemma draw_viewport_correct_example:
  "draw_viewport (example_terminal [1, 2, 3, 4] 1 3) =
      Inr ((example_terminal [1, 2, 3, 4] 1 3)\<lparr>buffer := [0, 0, 0, 4]\<rparr>) \<and>
   draw_viewport (example_terminal [1, 2, 3, 4, 5, 6, 7, 8, 9, 10] 1 5) = Inl IndexOutOfBounds"
proof
  let ?t = "example_terminal [1, 2, 3, 4] 1 3" and ?u = "example_terminal [1, 2, 3, 4, 5, 6, 7, 8, 9, 10] 1 5"
  have "window_ok ?t" "window_ok ?u" by (rule example_window; simp)+
  from draw_viewport_correct[OF this(1)] draw_viewport_correct[OF this(2)]
  show "draw_viewport ?t = Inr (?t\<lparr>buffer := [0, 0, 0, 4]\<rparr>)" "draw_viewport ?u = Inl IndexOutOfBounds"
    by (simp_all add: example_terminal_def terminal_init_def)
qed

section \<open>Scrolling\<close>

text \<open>The abstract view of the screen: the part of the scroll-back that starts at \<open>s\<close>.\<close>

definition show_at :: "nat \<Rightarrow> terminal \<Rightarrow> terminal" where
  "show_at s t = t\<lparr>viewport_start := of_nat s, buffer := take (length (buffer t)) (drop s (viewport t))\<rparr>"

lemma draw_viewport_home:
  assumes "window_ok t" and "x_pos t = 0"
  shows "draw_viewport t = Inr (t\<lparr>buffer := take (length (buffer t)) (drop (unat (viewport_start t)) (viewport t))\<rparr>)"
proof -
  have b: "unat (viewport_start t) + length (buffer t) < 2 ^ 64" "unat (viewport_start t) + length (buffer t) \<le> length (viewport t)"
    using assms(1) by (simp_all add: window_ok_def)
  have len: "unat (len_w (buffer t)) = length (buffer t)" by (rule window_len[OF assms(1)])
  have "unat (len_w (buffer t) + viewport_start t) = length (buffer t) + unat (viewport_start t)"
    using b(1) len by (subst unat_add_small) simp_all
  then show ?thesis
    using assms(2) b len by (simp add: draw_viewport_def mul_w_def add_w_def sub_w_def slice_def copy_into_def)
qed

lemma scroll_amount_pos [simp]: "scroll_amount fnt (t\<lparr>y_pos := y, x_pos := x\<rparr>) = scroll_amount fnt t"
  by (simp add: scroll_amount_def)

text \<open>
  C22: Page Up and Page Down never panic and refine the window view of the terminal: the window moves by exactly one line of text, the
  screen then shows exactly that part of the scroll-back, and nothing else changes; at the top and at the bottom they do nothing.
\<close>
theorem page_scroll_correct:
  assumes w: "window_ok t" and a: "scroll_amount fnt t = Inr a" and line: "unat a \<le> length (buffer t)"
  shows "scroll_up fnt t = Inr (if unat a \<le> unat (viewport_start t) then show_at (unat (viewport_start t) - unat a) t else t) \<and>
    scroll_down fnt False t =
      Inr (if unat (viewport_start t) + unat a + length (buffer t) \<le> length (viewport t)
           then show_at (unat (viewport_start t) + unat a) t else t)"
proof
  let ?vs = "viewport_start t"
  have b: "unat ?vs + length (buffer t) \<le> length (viewport t)" "length (viewport t) \<le> 4 * length (buffer t)"
    "8 * length (buffer t) < 2 ^ 64" using w by (simp_all add: window_ok_def)
  note len = window_len[OF w]
  have restore: "t\<lparr>y_pos := 0, x_pos := 0, y_pos := y_pos t, x_pos := x_pos t\<rparr> = t" by (cases t) simp
  have at: "t\<lparr>y_pos := 0, x_pos := 0, viewport_start := s, buffer := bf, y_pos := y_pos t, x_pos := x_pos t\<rparr> =
      t\<lparr>viewport_start := s, buffer := bf\<rparr>" for s bf by (cases t) simp
  have up: "unat (?vs - a) = unat ?vs - unat a" "of_nat (unat ?vs - unat a) = ?vs - a" if "a \<le> ?vs"
  proof -
    show u: "unat (?vs - a) = unat ?vs - unat a" using that by (rule unat_sub_small)
    show "of_nat (unat ?vs - unat a) = ?vs - a" unfolding u[symmetric] by simp
  qed
  show "scroll_up fnt t = Inr (if unat a \<le> unat ?vs then show_at (unat ?vs - unat a) t else t)"
  proof (cases "a \<le> ?vs")
    case True
    have "window_ok (t\<lparr>y_pos := 0, x_pos := 0, viewport_start := ?vs - a\<rparr>)"
      using w up(1)[OF True] by (auto simp: window_ok_def)
    from draw_viewport_home[OF this] True show ?thesis
      by (simp add: scroll_up_def Let_def a word_le_nat_alt[symmetric] up[OF True] show_at_def at)
  next
    case False
    then show ?thesis by (simp add: scroll_up_def Let_def a word_le_nat_alt[symmetric])
  qed
  have s1: "unat ?vs + unat a < 2 ^ 64" using b line by simp
  then have u1: "unat (?vs + a) = unat ?vs + unat a" by (simp add: unat_add_small)
  have s2: "unat (?vs + a) + unat (len_w (buffer t)) < 2 ^ 64" using b line len by (simp add: u1)
  have u2: "unat (?vs + a + len_w (buffer t)) = unat ?vs + unat a + length (buffer t)"
    using s2 len by (simp add: unat_add_small u1)
  have cond: "?vs + a + len_w (buffer t) \<le> len_w (viewport t) \<longleftrightarrow> unat ?vs + unat a + length (buffer t) \<le> length (viewport t)"
    by (simp add: word_le_nat_alt u2 len)
  show "scroll_down fnt False t =
      Inr (if unat ?vs + unat a + length (buffer t) \<le> length (viewport t) then show_at (unat ?vs + unat a) t else t)"
  proof (cases "unat ?vs + unat a + length (buffer t) \<le> length (viewport t)")
    case True
    have "window_ok (t\<lparr>y_pos := 0, x_pos := 0, viewport_start := ?vs + a\<rparr>)"
      using w True u1 by (auto simp: window_ok_def)
    from draw_viewport_home[OF this] True s1 s2 show ?thesis
      by (simp add: scroll_down_def page_fits_def page_down_def Let_def a cond add_w_def u1 show_at_def at)
  next
    case False
    with s1 s2 show ?thesis by (simp add: scroll_down_def page_fits_def Let_def a cond add_w_def)
  qed
qed

theorem page_scroll_correct_witness:
  "scroll_down example_font False (example_terminal [1, 2, 3, 4, 5, 6] 0 0) =
    Inr ((example_terminal [1, 2, 3, 4, 5, 6] 0 0)\<lparr>viewport_start := 2, buffer := [3, 4, 5, 6]\<rparr>)"
proof -
  let ?t = "example_terminal [1, 2, 3, 4, 5, 6] 0 0"
  have "window_ok ?t" by (rule example_window; simp)
  moreover have "scroll_amount example_font ?t = Inr 2"
    by (simp add: scroll_amount_def example_terminal_def terminal_init_def example_font_def mul_w_def)
  ultimately show ?thesis
    using page_scroll_correct[of ?t example_font 2]
    by (simp add: example_terminal_def terminal_init_def show_at_def)
qed

lemma drawn_home: "drawn t u \<Longrightarrow> drawn t (u\<lparr>y_pos := y, x_pos := x\<rparr>)"
  by (rule drawn_trans, assumption) (cases u, auto simp: drawn_def window_ok_def)

lemma drawn_viewport:
  "(window_ok t \<Longrightarrow> window_ok (t\<lparr>viewport := vp, viewport_start := s\<rparr>)) \<Longrightarrow>
    drawn t (t\<lparr>viewport := vp, viewport_start := s\<rparr>)"
  by (cases t) (auto simp: drawn_def)

lemma shift_viewport_length: "shift_viewport amount vp = Inr vp' \<Longrightarrow> length vp' = length vp"
  by (auto simp: shift_viewport_def rust_simps dest!: copy_into_length)

lemma window_page:
  assumes "window_ok t" and "add_w (viewport_start t) amount = Inr s" and "add_w s (len_w (buffer t)) = Inr b"
    and "b \<le> len_w (viewport t)"
  shows "window_ok (t\<lparr>viewport := viewport t, viewport_start := s\<rparr>)"
proof -
  have "unat s + length (buffer t) = unat b" using add_w_unat[OF assms(3)] window_len[OF assms(1)] by simp
  also have "\<dots> \<le> length (viewport t)" using assms(4) window_len[OF assms(1)] by (simp add: word_le_nat_alt)
  finally show ?thesis using assms(1) by (simp add: window_ok_def)
qed

lemma window_grow:
  assumes w: "window_ok t" and need: "add_w (len_w (viewport t)) amount = Inr need"
    and limit: "mul_w (len_w (buffer t)) 4 = Inr limit" "need \<le> limit" and s: "add_w (viewport_start t) amount = Inr s"
  shows "window_ok (t\<lparr>viewport := viewport t @ replicate (unat need - length (viewport t)) 0, viewport_start := s\<rparr>)"
proof -
  have n: "unat need = length (viewport t) + unat amount" using add_w_unat[OF need] window_len[OF w] by simp
  moreover have "unat limit = 4 * length (buffer t)" using mul_w_unat[OF limit(1)] window_len[OF w] by simp
  ultimately have "length (viewport t) + unat amount \<le> 4 * length (buffer t)" using limit(2) by (simp add: word_le_nat_alt)
  then show ?thesis using w n add_w_unat[OF s] by (simp add: window_ok_def)
qed

lemma page_down_drawn:
  assumes "page_fits amount t = Inr True" and "page_down amount t = Inr t'"
  shows "drawn t t'"
proof -
  obtain s b where s: "add_w (viewport_start t) amount = Inr s" "add_w s (len_w (buffer t)) = Inr b" "b \<le> len_w (viewport t)"
    "draw_viewport (t\<lparr>viewport := viewport t, viewport_start := s\<rparr>) = Inr t'"
    using assms by (auto simp: page_fits_def page_down_def rbind_eq_Inr)
  show ?thesis
    by (rule drawn_trans[OF drawn_viewport[OF window_page[OF _ s(1-3)]] draw_viewport_drawn[OF s(4)]])
qed

lemma make_room_drawn:
  assumes "make_room fnt amount old_y t = Inr (t', y)"
  shows "drawn t t'"
proof -
  obtain need limit where nl: "add_w (len_w (viewport t)) amount = Inr need" "mul_w (len_w (buffer t)) 4 = Inr limit"
    using assms by (auto simp: make_room_def rbind_eq_Inr)
  show ?thesis
  proof (cases "need \<le> limit")
    case True
    then obtain s where s: "add_w (viewport_start t) amount = Inr s"
      "draw_viewport (t\<lparr>viewport := viewport t @ replicate (unat need - length (viewport t)) 0, viewport_start := s\<rparr>) = Inr t'"
      using assms nl by (auto simp: make_room_def rbind_eq_Inr)
    show ?thesis
      by (rule drawn_trans[OF drawn_viewport[OF window_grow[OF _ nl True s(1)]] draw_viewport_drawn[OF s(2)]])
  next
    case False
    then obtain vp where vp: "shift_viewport amount (viewport t) = Inr vp"
      "draw_viewport (t\<lparr>viewport := vp, viewport_start := viewport_start t\<rparr>) = Inr t'"
      using assms nl by (auto simp: make_room_def rbind_eq_Inr)
    have "window_ok t \<Longrightarrow> window_ok (t\<lparr>viewport := vp, viewport_start := viewport_start t\<rparr>)"
      using shift_viewport_length[OF vp(1)] by (simp add: window_ok_def)
    from drawn_trans[OF drawn_viewport[OF this] draw_viewport_drawn[OF vp(2)]] show ?thesis .
  qed
qed

lemma home_drawn: "drawn (t\<lparr>y_pos := y, x_pos := x\<rparr>) t' \<Longrightarrow> drawn t t'"
  by (rule drawn_trans[OF drawn_home[OF drawn_refl]])

lemma drawn_x: "drawn t u \<Longrightarrow> drawn t (u\<lparr>x_pos := x\<rparr>)"
  using drawn_home[where t = t and u = u and y = "y_pos u" and x = x] by simp

lemma scroll_down_drawn: "scroll_down fnt make_space t = Inr t' \<Longrightarrow> drawn t t'"
  by (auto simp: scroll_down_def Let_def rbind_eq_Inr drawn_refl split: if_splits
      intro!: drawn_home intro: home_drawn page_down_drawn make_room_drawn)

lemma newline_drawn: "newline fnt t = Inr t' \<Longrightarrow> drawn t t'"
  by (auto simp: newline_def Let_def rbind_eq_Inr drawn_refl split: if_splits
      intro: drawn_home home_drawn scroll_down_drawn)

lemma draw_char_drawn:
  assumes "draw_char fnt g col t = Inr t'" shows "drawn t t'"
proof -
  obtain e t1 t2 x where t: "(if stride (info t) < e then newline fnt t else Inr t) = Inr t1"
    "draw_rows ucast col (g_raster g) 0 t1 = Inr t2" "t' = t2\<lparr>x_pos := x\<rparr>"
    using assms unfolding draw_char_def rbind_eq_Inr by blast
  have "drawn t t1" using t(1) by (auto simp: drawn_refl split: if_splits dest: newline_drawn)
  from drawn_trans[OF this draw_rows_drawn[OF t(2)]] show ?thesis unfolding t(3) by (rule drawn_x)
qed

lemma remove_char_drawn:
  assumes "remove_char fnt c t = Inr t'" shows "drawn t t'"
proof -
  obtain g :: glyph and t1 where t: "(if g_width g \<le> x_pos t then Inr (t\<lparr>x_pos := x_pos t - g_width g\<rparr>)
        else rbind (sub_w (y_pos t) (raster_val fnt)) (\<lambda>y. rbind (align_down (stride (info t)) (g_width g)) (\<lambda>a.
             rbind (sub_w a (g_width g)) (\<lambda>x. Inr (t\<lparr>y_pos := y, x_pos := x\<rparr>))))) = Inr t1"
    "draw_rows (\<lambda>_. 0) (0, 0, 0) (g_raster g) 0 t1 = Inr t'"
    using assms unfolding remove_char_def rbind_eq_Inr by blast
  have "drawn t t1"
    using t(1) by (auto simp: rbind_eq_Inr drawn_refl split: if_splits intro: drawn_x drawn_home)
  from drawn_trans[OF this draw_rows_drawn[OF t(2)]] show ?thesis .
qed

lemma putc_drawn: "putc fnt c col t = Inr t' \<Longrightarrow> c \<noteq> 8 \<Longrightarrow> drawn t t'"
  by (auto simp: putc_def rbind_eq_Inr split: if_splits intro: newline_drawn draw_char_drawn)

section \<open>The line being typed\<close>

definition edit :: "u32 list \<Rightarrow> u32 \<Rightarrow> u32 list" where
  "edit line c = (if c = 8 then butlast line else line @ [c])"

fun type_chars :: "font \<Rightarrow> u32 list \<Rightarrow> terminal \<Rightarrow> terminal rust" where
  "type_chars fnt [] t = Inr t"
| "type_chars fnt (c # cs) t = rbind (stdin_putc fnt c t) (type_chars fnt cs)"

definition edited :: "terminal \<Rightarrow> terminal \<Rightarrow> bool" where
  "edited t t' \<longleftrightarrow> mode t' = mode t \<and> current_dir t' = current_dir t \<and> stdout_buffer t' = stdout_buffer t \<and>
     info t' = info t \<and> (window_ok t \<longrightarrow> window_ok t')"

lemma drawn_edited: "drawn t t' \<Longrightarrow> edited t t'"
  by (auto simp: edited_def drawn_keeps) (simp add: drawn_def)

lemma edited_trans: "edited t1 t2 \<Longrightarrow> edited t2 t3 \<Longrightarrow> edited t1 t3"
  by (simp add: edited_def)

lemma edited_stdin: "edited t (t\<lparr>stdin_buffer := s\<rparr>)"
  by (simp add: edited_def window_ok_def)

lemma backspace_edited:
  assumes "backspace fnt t = Inr t'"
  shows "edited t t' \<and> stdin_buffer t' = butlast (butlast (stdin_buffer t))"
proof (cases "butlast (stdin_buffer t) = []")
  case True
  with assms show ?thesis by (auto simp: backspace_def Let_def edited_stdin)
next
  case False
  with assms have d: "drawn (t\<lparr>stdin_buffer := butlast (butlast (stdin_buffer t))\<rparr>) t'"
    by (auto simp: backspace_def Let_def dest: remove_char_drawn)
  from edited_trans[OF edited_stdin drawn_edited[OF d]] drawn_keeps(1)[OF d] show ?thesis by simp
qed

lemma putc_edited:
  assumes "putc fnt c col t = Inr t'"
  shows "edited t t' \<and> stdin_buffer t' = (if c = 8 then butlast (butlast (stdin_buffer t)) else stdin_buffer t)"
proof (cases "c = 8")
  case True
  with assms show ?thesis by (simp add: putc_def backspace_edited)
next
  case False
  with assms have "drawn t t'" by (simp add: putc_drawn)
  with False show ?thesis by (simp add: drawn_edited drawn_keeps)
qed

lemma stdin_putc_edited:
  assumes "stdin_putc fnt c t = Inr t'"
  shows "edited t t' \<and> stdin_buffer t' = edit (stdin_buffer t) c"
proof -
  obtain t1 t2 t3 where s: "(if mode t = Stdin \<and> stdin_buffer t \<noteq> [] then remove_char fnt 0x5F t else Inr t) = Inr t1"
    "putc fnt c (255, 255, 255) (t1\<lparr>stdin_buffer := stdin_buffer t1 @ [c]\<rparr>) = Inr t2"
    "(if mode t2 = Stdin \<and> c \<noteq> 0x0A \<and> stdin_buffer t2 \<noteq> [] then putc fnt 0x5F INPUT_CHAR t2 else Inr t2) = Inr t3"
    "draw_viewport t3 = Inr t'"
    using assms unfolding stdin_putc_def rbind_eq_Inr by blast
  have d1: "drawn t t1" using s(1) by (auto simp: drawn_refl split: if_splits dest: remove_char_drawn)
  note e2 = putc_edited[OF s(2)]
  have d3: "drawn t2 t3" using s(3) by (auto simp: drawn_refl split: if_splits dest: putc_drawn)
  note d4 = drawn_trans[OF d3 draw_viewport_drawn[OF s(4)]]
  have "edited t t'"
    using edited_trans[OF edited_trans[OF edited_trans[OF drawn_edited[OF d1] edited_stdin] conjunct1[OF e2]] drawn_edited[OF d4]] .
  moreover have "stdin_buffer t' = edit (stdin_buffer t) c"
    using e2 by (simp add: drawn_keeps(1)[OF d4] drawn_keeps(1)[OF d1] edit_def butlast_append)
  ultimately show ?thesis by blast
qed

lemma type_chars_edited:
  "type_chars fnt cs t = Inr t' \<Longrightarrow> edited t t' \<and> stdin_buffer t' = foldl edit (stdin_buffer t) cs"
proof (induction cs arbitrary: t)
  case (Cons c cs)
  then obtain t1 where t1: "stdin_putc fnt c t = Inr t1" "type_chars fnt cs t1 = Inr t'" by (auto simp: rbind_eq_Inr)
  from stdin_putc_edited[OF t1(1)] Cons.IH[OF t1(2)] show ?case by (auto intro: edited_trans)
qed (simp add: edited_def)

text \<open>
  C18: \<open>readln\<close> returns the line as the user edited it: whatever the terminal draws while the characters come in, the line is the list of
  characters in which a backspace has removed the one before it, if there was one. The cursor drawn behind the line never gets into
  it, the newline is not part of it, and the terminal is left with an empty line in the mode it was in before.
\<close>
theorem readln_refines:
  assumes "stdin_buffer t = []" and "type_chars fnt (cs @ [0x0A]) (snd (readln_start t)) = Inr t1"
  shows "\<exists>t2. readln_poll (fst (readln_start t)) t1 = Some (foldl edit [] cs, t2) \<and>
    stdin_buffer t2 = [] \<and> mode t2 = mode t \<and> current_dir t2 = current_dir t \<and> stdout_buffer t2 = stdout_buffer t"
  using type_chars_edited[OF assms(2)] assms(1)
  by (auto simp: readln_start_def readln_poll_def edit_def edited_def)

theorem readln_refines_witness:
  "\<exists>t1 t2. type_chars example_font [97, 0x0A] (snd (readln_start (example_terminal [0, 0, 0, 0] 0 0))) = Inr t1 \<and>
    readln_poll Init t1 = Some ([97], t2)"
proof -
  let ?t = "example_terminal [0, 0, 0, 0] 0 0"
  have "\<exists>t1. type_chars example_font [97, 0x0A] (snd (readln_start ?t)) = Inr t1"
    by (simp add: readln_start_def example_terminal_def terminal_init_def example_font_def stdin_putc_def putc_def raster_def
        draw_char_def set_pixel_def channel_def get_byte_offset_def remove_char_def newline_def draw_viewport_def Let_def
        mul_w_def add_w_def sub_w_def slice_def copy_into_def INPUT_CHAR_def)
  then obtain t1 where t1: "type_chars example_font ([97] @ [0x0A]) (snd (readln_start ?t)) = Inr t1" by auto
  have "stdin_buffer ?t = []" "mode ?t = Init" by (simp_all add: example_terminal_def terminal_init_def)
  with readln_refines[OF _ t1] t1 show ?thesis by (auto simp: readln_start_def edit_def)
qed

section \<open>Reachable states\<close>

lemma put_chars_window: "put_chars fnt cs col t = Inr t' \<Longrightarrow> window_ok t \<Longrightarrow> window_ok t'"
proof (induction cs arbitrary: t)
  case (Cons c cs)
  then show ?case using putc_edited by (fastforce simp: rbind_eq_Inr edited_def)
qed simp

lemma drawn_window: "drawn t t' \<Longrightarrow> window_ok t \<Longrightarrow> window_ok t'"
  by (simp add: drawn_def)

lemma window_cong [simp]: "window_ok (t\<lparr>mode := m\<rparr>) = window_ok t" "window_ok (t\<lparr>stdout_buffer := u\<rparr>) = window_ok t"
  "window_ok (t\<lparr>stdin_buffer := l\<rparr>) = window_ok t" "window_ok (t\<lparr>current_dir := d\<rparr>) = window_ok t"
  by (simp_all add: window_ok_def)

lemma write_slice_window: "write_slice fnt s att t = Inr t' \<Longrightarrow> window_ok t \<Longrightarrow> window_ok t'"
  by (auto simp: write_slice_def Let_def rbind_eq_Inr dest!: put_chars_window draw_viewport_drawn intro: drawn_window)

lemma write_es_window:
  "write_es fnt e att t = Inr t' \<Longrightarrow> window_ok t \<Longrightarrow> window_ok t'"
  "write_ess fnt es att t = Inr t' \<Longrightarrow> window_ok t \<Longrightarrow> window_ok t'"
  by (induction fnt e att t and fnt es att t arbitrary: t' and t' rule: write_es_write_ess.induct)
     (auto simp: rbind_eq_Inr intro: write_slice_window)

lemma terminal_write_window: "terminal_write fnt s t = Some (Inr t') \<Longrightarrow> window_ok t \<Longrightarrow> window_ok t'"
  by (auto simp: terminal_write_def rbind_eq_Inr intro: write_es_window(1))

lemma clear_window:
  assumes "clear fnt t = Some (Inr t')" and "window_ok t" shows "window_ok t'"
proof -
  obtain t1 where t1: "terminal_write fnt (''clearing'' @ [CHR 0x0A]) t = Some (Inr t1)"
    "draw_viewport (t1\<lparr>viewport_start := 0, viewport := replicate (min (length (viewport t1)) (length (buffer t1))) 0,
        x_pos := 0, y_pos := 0, stdin_buffer := [], stdout_buffer := [],
        mode := (if mode t1 = Init then Stdin else mode t1)\<rparr>) = Inr t'"
    using assms(1) by (auto simp: clear_def rbind_eq_Inr)
  have "window_ok t1" using terminal_write_window[OF t1(1) assms(2)] .
  then show ?thesis
    by (intro drawn_window[OF draw_viewport_drawn[OF t1(2)]]) (simp add: window_ok_def min_absorb2)
qed

lemma scroll_up_drawn:
  assumes "scroll_up fnt t = Inr t'" shows "drawn t t'"
proof -
  let ?t0 = "t\<lparr>y_pos := 0, x_pos := 0\<rparr>"
  obtain amount t1 where t1: "t' = t1\<lparr>y_pos := y_pos t, x_pos := x_pos t\<rparr>"
    "(if amount \<le> viewport_start ?t0 then draw_viewport (?t0\<lparr>viewport_start := viewport_start ?t0 - amount\<rparr>) else Inr ?t0) = Inr t1"
    using assms unfolding scroll_up_def Let_def rbind_eq_Inr by (elim exE conjE) (rule that, simp_all)
  have "drawn ?t0 t1"
  proof (cases "amount \<le> viewport_start t")
    case True
    have w: "window_ok ?t0 \<Longrightarrow> window_ok (?t0\<lparr>viewport := viewport ?t0, viewport_start := viewport_start ?t0 - amount\<rparr>)"
      using unat_sub_small[OF True] unfolding window_ok_def by simp linarith
    have d: "draw_viewport (?t0\<lparr>viewport := viewport ?t0, viewport_start := viewport_start ?t0 - amount\<rparr>) = Inr t1"
      using t1(2) True by simp
    show ?thesis by (rule drawn_trans[OF drawn_viewport[OF w] draw_viewport_drawn[OF d]])
  next
    case False
    with t1(2) show ?thesis by (simp add: drawn_refl)
  qed
  then show ?thesis unfolding t1(1) by (rule drawn_home[OF home_drawn])
qed

lemma on_key_pressed_window:
  assumes "on_key_pressed fnt k t = Some (Inr t')" and "window_ok t" shows "window_ok t'"
proof -
  obtain t1 where t1: "(if code k = PageDown then Some (scroll_down fnt False t)
      else if code k = PageUp then Some (scroll_up fnt t)
      else if code k = KeyC \<and> flags k = CTRL OR SHIFT then clear fnt t else Some (Inr t)) = Some (Inr t1)"
    "(if mode t1 = Stdin then rbind (map_key k) (\<lambda>mapped. if mapped \<noteq> 0 then stdin_putc fnt mapped t1 else Inr t1)
      else Inr t1) = Inr t'"
    using assms(1) unfolding on_key_pressed_def by (auto simp: rbind_eq_Inr)
  have "window_ok t1"
    using t1(1) assms(2)
    by (auto split: if_splits dest: scroll_down_drawn scroll_up_drawn clear_window intro: drawn_window)
  with t1(2) show ?thesis
    by (auto simp: rbind_eq_Inr edited_def split: if_splits dest!: stdin_putc_edited)
qed

text \<open>The terminal from its initialisation on: key presses, texts written, lines read, changes of directory.\<close>

inductive term_run :: "font \<Rightarrow> terminal \<Rightarrow> bool" for fnt where
  boot: "8 * length buf < 2 ^ 64 \<Longrightarrow> term_run fnt (terminal_init buf nfo)"
| key: "term_run fnt t \<Longrightarrow> on_key_pressed fnt k t = Some (Inr t') \<Longrightarrow> term_run fnt t'"
| written: "term_run fnt t \<Longrightarrow> terminal_write fnt s t = Some (Inr t') \<Longrightarrow> term_run fnt t'"
| start: "term_run fnt t \<Longrightarrow> term_run fnt (snd (readln_start t))"
| poll: "term_run fnt t \<Longrightarrow> readln_poll m t = Some (l, t') \<Longrightarrow> term_run fnt t'"
| cd: "term_run fnt t \<Longrightarrow> term_run fnt (t\<lparr>current_dir := d\<rparr>)"

text \<open>
  C20: in every state of the terminal the screen shows a part of the scroll-back that exists: the window ends before the scroll-back does, and the
  scroll-back never grows beyond four screens, whatever font, keys and texts come.
\<close>
theorem term_run_window:
  assumes "term_run fnt t"
  shows "unat (viewport_start t) + length (buffer t) \<le> length (viewport t) \<and> length (viewport t) \<le> 4 * length (buffer t)"
proof -
  from assms have "window_ok t"
  proof induction
    case (boot buf nfo)
    then show ?case by (simp add: window_ok_def terminal_init_def)
  qed (auto simp: readln_start_def readln_poll_def split: if_splits
      intro: on_key_pressed_window terminal_write_window)
  then show ?thesis by (simp add: window_ok_def)
qed

theorem term_run_window_witness:
  "length (viewport (terminal_init [0, 0] \<lparr>stride = 1, bytes_per_pixel = 1, pixel_format = Bgr\<rparr>)) \<le>
    4 * length (buffer (terminal_init [0, 0] \<lparr>stride = 1, bytes_per_pixel = 1, pixel_format = Bgr\<rparr>))"
  using term_run_window[OF term_run.boot[of "[0, 0]" example_font]] by simp

end
