(* ===== verification/Raw_Bytes.thy ===== *)
theory Raw_Bytes
  imports Prelude
begin

text \<open>
  Bytes behind raw pointers, shared by the readers of the kernel image and of the firmware tables.

  Memory is a list of optional bytes, an address is an index; \<open>None\<close>, and everything behind the end, is memory that must not be
  read. Integers are stored in little-endian order. A \<open>#[repr(C)]\<close> struct read through a pointer is decoded field by field from its bytes.
\<close>

type_synonym memory = "u8 option list"

section \<open>Little-endian integers\<close>

fun le_val :: "u8 list \<Rightarrow> nat" where
  "le_val [] = 0"
| "le_val (b # bs) = unat b + 256 * le_val bs"

fun le_enc :: "nat \<Rightarrow> nat \<Rightarrow> u8 list" where
  "le_enc 0 n = []"
| "le_enc (Suc k) n = of_nat n # le_enc k (n div 256)"

lemma length_le_enc [simp]: "length (le_enc k n) = k"
  by (induction k arbitrary: n) auto

lemma le_val_enc: "le_val (le_enc k n) = n mod 256 ^ k"
proof (induction k arbitrary: n)
  case (Suc k)
  have "unat (of_nat n :: u8) = n mod 256" by (simp add: unat_of_nat take_bit_eq_mod)
  then show ?case using Suc by (simp add: mod_mult2_eq)
qed simp

lemma le_val_zeros [simp]: "le_val (replicate k 0) = 0"
  by (induction k) auto

lemma le_val_bound: "le_val bs < 256 ^ length bs"
proof (induction bs)
  case (Cons b bs)
  have "unat b < 256" using unsigned_less[of b] by simp
  with Cons show ?case by simp
qed simp

section \<open>Fields\<close>

definition field :: "u8 list \<Rightarrow> nat \<Rightarrow> nat \<Rightarrow> 'a::len word" where
  "field b off k = of_nat (le_val (take k (drop off b)))"

lemma field_enc:
  assumes "length pre = off" and "LENGTH('a) = 8 * k"
  shows "field (pre @ le_enc k (unat (w :: 'a::len word)) @ post) off k = w"
proof -
  have "(256 :: nat) ^ k = 2 ^ LENGTH('a)" using assms(2) by (simp add: power_mult)
  then have "unat w < 256 ^ k" using unsigned_less[of w] by simp
  then show ?thesis using assms(1) by (simp add: field_def le_val_enc)
qed

section \<open>Reading\<close>

definition read_bytes :: "memory \<Rightarrow> nat \<Rightarrow> nat \<Rightarrow> u8 list rust" where
  "read_bytes m a k =
     (let s = take k (drop a m) in
      if length s = k \<and> None \<notin> set s then Inr (map the s) else Inl DanglingPointer)"

definition read_le :: "memory \<Rightarrow> nat \<Rightarrow> nat \<Rightarrow> 'a::len word rust" where
  "read_le m a k = rbind (read_bytes m a k) (\<lambda>b. Inr (of_nat (le_val b)))"

text \<open>\<open>CStr::from_ptr\<close>: the bytes up to the first zero.\<close>

fun cstr_at :: "u8 option list \<Rightarrow> u8 list rust" where
  "cstr_at [] = Inl DanglingPointer"
| "cstr_at (None # m) = Inl DanglingPointer"
| "cstr_at (Some b # m) = (if b = 0 then Inr [] else rbind (cstr_at m) (\<lambda>bs. Inr (b # bs)))"

text \<open>The bytes \<open>bs\<close> are in memory at \<open>a\<close>.\<close>

definition stored :: "memory \<Rightarrow> nat \<Rightarrow> u8 list \<Rightarrow> bool" where
  "stored m a bs \<longleftrightarrow> take (length bs) (drop a m) = map Some bs"

lemma stored_append: "stored m a (xs @ ys) \<longleftrightarrow> stored m a xs \<and> stored m (a + length xs) ys"
proof -
  have "take (length xs + length ys) (drop a m) = take (length xs) (drop a m) @ take (length ys) (drop (a + length xs) m)"
    by (simp add: take_add add.commute)
  moreover have "take (length ys) (drop (a + length xs) m) = map Some ys \<Longrightarrow> length (take (length xs) (drop a m)) \<le> length xs" by simp
  ultimately show ?thesis
    unfolding stored_def
    by (auto simp: append_eq_append_conv2 dest: arg_cong[where f = length] intro!: append_eq_append_conv[THEN iffD1])
qed

lemma read_stored: "stored m a bs \<Longrightarrow> length bs = k \<Longrightarrow> read_bytes m a k = Inr bs"
  by (auto simp: stored_def read_bytes_def Let_def)

lemma read_le_stored: "stored m a (le_enc k (unat w)) \<Longrightarrow> LENGTH('a) = 8 * k \<Longrightarrow> read_le m a k = Inr (w :: 'a::len word)"
  using field_enc[of "[]" 0 k w "[]"] by (simp add: read_le_def read_stored field_def)

lemma cstr_stored:
  assumes "stored m a (bs @ [0])" and "0 \<notin> set bs"
  shows "cstr_at (drop a m) = Inr bs"
proof -
  have "take (Suc (length bs)) (drop a m) = map Some bs @ [Some 0]" using assms(1) by (simp add: stored_def)
  from append_take_drop_id[of "Suc (length bs)" "drop a m", unfolded this, symmetric]
  have "drop a m = map Some bs @ Some 0 # drop (Suc (length bs)) (drop a m)" by simp
  then have "\<exists>post. drop a m = map Some bs @ Some 0 # post" by blast
  moreover have "cstr_at (map Some bs @ Some 0 # post) = Inr bs" for post using assms(2) by (induction bs) auto
  ultimately show ?thesis by auto
qed

section \<open>Text\<close>

text \<open>\<open>str::from_utf8(..).is_ok()\<close>.\<close>

definition utf8_cont :: "u8 \<Rightarrow> bool" where
  "utf8_cont b \<longleftrightarrow> 0x80 \<le> b \<and> b \<le> 0xBF"

fun utf8_valid :: "u8 list \<Rightarrow> bool" where
  "utf8_valid [] \<longleftrightarrow> True"
| "utf8_valid (a # s) \<longleftrightarrow>
     (if a < 0x80 then utf8_valid s
      else if 0xC2 \<le> a \<and> a \<le> 0xDF then
        (case s of b # s' \<Rightarrow> utf8_cont b \<and> utf8_valid s' | _ \<Rightarrow> False)
      else if 0xE0 \<le> a \<and> a \<le> 0xEF then
        (case s of b # c # s' \<Rightarrow> utf8_cont b \<and> (a = 0xE0 \<longrightarrow> 0xA0 \<le> b) \<and> (a = 0xED \<longrightarrow> b \<le> 0x9F) \<and>
           utf8_cont c \<and> utf8_valid s' | _ \<Rightarrow> False)
      else if 0xF0 \<le> a \<and> a \<le> 0xF4 then
        (case s of b # c # d # s' \<Rightarrow> utf8_cont b \<and> (a = 0xF0 \<longrightarrow> 0x90 \<le> b) \<and> (a = 0xF4 \<longrightarrow> b \<le> 0x8F) \<and>
           utf8_cont c \<and> utf8_cont d \<and> utf8_valid s' | _ \<Rightarrow> False)
      else False)"

text \<open>A byte slice as the string it holds, and back.\<close>

definition str_of :: "u8 list \<Rightarrow> string" where "str_of bs = map (\<lambda>b. char_of (unat b)) bs"
definition bytes_of :: "string \<Rightarrow> u8 list" where "bytes_of s = map of_char s"

lemma unat_of_char: "unat (of_char c :: u8) = of_char c"
proof -
  have "(of_char c :: u8) = of_nat (of_char c)" by (simp add: of_char_def)
  moreover have "(of_char c :: nat) < 2 ^ LENGTH(8)" by simp
  ultimately show ?thesis using unat_of_nat_small by metis
qed

lemma str_bytes [simp]: "str_of (bytes_of w) = w"
  by (induction w) (simp_all add: str_of_def bytes_of_def unat_of_char)

end
