(* ===== verification/Elf.thy ===== *)
theory Elf
  imports Raw_Bytes
begin

text \<open>
  \<open>kernel/src/utils/elf.rs\<close>: the reader of the kernel image, and the stack trace of \<open>main.rs\<close> that uses it. An \<open>Elf\<close> holds references into the image;
  here it holds the decoded structs and the address of the header, from which the code computes all other addresses.
\<close>

section \<open>Data\<close>

record elf_header =
  magic :: "u8 list"
  class_w :: u8
  endianness :: u8
  version :: u8
  osabi :: u8
  abiver :: u8
  padding :: "u8 list"
  kind :: u16
  insturction_set :: u16
  version_2 :: u32
  entry_point :: u64
  program_header_offset :: usize
  section_header_table_offset :: usize
  h_flags :: u32
  h_size :: u16
  program_header_entry_size :: u16
  program_header_entries :: u16
  section_table_entry_size :: u16
  section_table_entries :: u16
  sections_names_section_offset :: u16

datatype elf_error =
    UnsupportedClass
  | UnsupportedEndianness
  | UnsupportedKind
  | UnsupportedInsturctionSet
  | NotAnElf

record sym =
  name_index :: u32
  sym_value :: u64
  sym_size :: u32
  sym_info :: u8
  sym_other :: u8
  section_index :: u16

record section_header =
  sh_name_index :: u32
  section_type :: u32
  sh_flags :: usize
  sh_addr :: u64
  sh_offset :: usize
  sh_size :: usize
  sh_link :: u32
  sh_info :: u32
  sh_alignment :: usize
  entry_size :: usize

record elf =
  header_ptr :: nat
  header :: elf_header
  sections :: "section_header list"

text \<open>The offsets of the fields that \<open>repr(C)\<close> gives the structs; \<open>Sym\<close> has four bytes of padding before \<open>value\<close>.\<close>

definition decode_header :: "u8 list \<Rightarrow> elf_header" where
  "decode_header b =
     \<lparr>magic = take 4 b, class_w = field b 4 1, endianness = field b 5 1, version = field b 6 1, osabi = field b 7 1,
      abiver = field b 8 1, padding = take 7 (drop 9 b), kind = field b 16 2, insturction_set = field b 18 2,
      version_2 = field b 20 4, entry_point = field b 24 8, program_header_offset = field b 32 8,
      section_header_table_offset = field b 40 8, h_flags = field b 48 4, h_size = field b 52 2,
      program_header_entry_size = field b 54 2, program_header_entries = field b 56 2, section_table_entry_size = field b 58 2,
      section_table_entries = field b 60 2, sections_names_section_offset = field b 62 2\<rparr>"

definition decode_sym :: "u8 list \<Rightarrow> sym" where
  "decode_sym b =
     \<lparr>name_index = field b 0 4, sym_value = field b 8 8, sym_size = field b 16 4, sym_info = field b 20 1,
      sym_other = field b 21 1, section_index = field b 22 2\<rparr>"

definition decode_section :: "u8 list \<Rightarrow> section_header" where
  "decode_section b =
     \<lparr>sh_name_index = field b 0 4, section_type = field b 4 4, sh_flags = field b 8 8, sh_addr = field b 16 8, sh_offset = field b 24 8,
      sh_size = field b 32 8, sh_link = field b 40 4, sh_info = field b 44 4, sh_alignment = field b 48 8, entry_size = field b 56 8\<rparr>"

text \<open>\<open>slice::from_raw_parts\<close> of \<open>n\<close> structs of \<open>k\<close> bytes.\<close>

fun read_array :: "(u8 list \<Rightarrow> 'a) \<Rightarrow> nat \<Rightarrow> memory \<Rightarrow> nat \<Rightarrow> nat \<Rightarrow> 'a list rust" where
  "read_array dec k m a 0 = Inr []"
| "read_array dec k m a (Suc n) =
     rbind (read_bytes m a k) (\<lambda>b. rbind (read_array dec k m (a + k) n) (\<lambda>xs. Inr (dec b # xs)))"

section \<open>Parsing\<close>

definition verify :: "elf_header \<Rightarrow> bool" where
  "verify h \<longleftrightarrow> magic h ! 0 = 0x7F \<and> tl (magic h) = [0x45, 0x4C, 0x46] \<and> unat (h_size h) = 64"

definition supported :: "elf_header \<Rightarrow> elf_error + unit" where
  "supported h =
     (if class_w h \<noteq> 2 then Inl UnsupportedClass
      else if endianness h \<noteq> 1 then Inl UnsupportedEndianness
      else if kind h \<notin> {2, 1} then Inl UnsupportedKind
      else if insturction_set h \<noteq> 0x3E then Inl UnsupportedInsturctionSet
      else Inr ())"

text \<open>\<open>bytes.offset(o as isize)\<close>\<close>

definition ptr_offset :: "nat \<Rightarrow> usize \<Rightarrow> nat" where
  "ptr_offset p off = nat (int p + sint off)"

definition parse :: "memory \<Rightarrow> nat \<Rightarrow> (elf_error + elf) rust" where
  "parse m bytes =
     rbind (read_bytes m bytes 64) (\<lambda>b.
     let h = decode_header b in
     if \<not> verify h then Inr (Inl NotAnElf)
     else case supported h of
       Inl e \<Rightarrow> Inr (Inl e)
     | Inr _ \<Rightarrow>
         rbind (read_array decode_section 64 m (ptr_offset bytes (section_header_table_offset h)) (unat (section_table_entries h))) (\<lambda>table.
         Inr (Inr \<lparr>header_ptr = bytes, header = h, sections = table\<rparr>)))"

section \<open>Names and symbols\<close>

text \<open>\<open>CStr::from_ptr(..).to_str().unwrap()\<close>\<close>

definition read_str :: "memory \<Rightarrow> nat \<Rightarrow> string rust" where
  "read_str m a = rbind (cstr_at (drop a m)) (\<lambda>b. if utf8_valid b then Inr (str_of b) else Inl UnwrapFailed)"

definition section_names_table :: "elf \<Rightarrow> section_header rust" where
  "section_names_table e = idx (sections e) (unat (sections_names_section_offset (header e)))"

definition section_names_table_index :: "memory \<Rightarrow> elf \<Rightarrow> u32 \<Rightarrow> string rust" where
  "section_names_table_index m e i =
     (if i = 0 then Inr []
      else rbind (section_names_table e) (\<lambda>t. read_str m (header_ptr e + unat (sh_offset t) + unat i)))"

fun find_section :: "memory \<Rightarrow> elf \<Rightarrow> section_header list \<Rightarrow> section_header option rust" where
  "find_section m e [] = Inr None"
| "find_section m e (s # rest) =
     rbind (section_names_table_index m e (sh_name_index s)) (\<lambda>name.
     if name = ''.strtab'' then Inr (Some s) else find_section m e rest)"

definition string_table :: "memory \<Rightarrow> elf \<Rightarrow> section_header option rust" where
  "string_table m e = find_section m e (sections e)"

definition string_table_index :: "memory \<Rightarrow> elf \<Rightarrow> u32 \<Rightarrow> string rust" where
  "string_table_index m e i =
     (if i = 0 then Inr []
      else rbind (string_table m e) (\<lambda>t. rbind (unwrap t) (\<lambda>t. read_str m (header_ptr e + unat (sh_offset t) + unat i))))"

definition div_w :: "'a::len word \<Rightarrow> 'a word \<Rightarrow> 'a word rust" where
  "div_w a b = (if b = 0 then Inl DivideByZero else Inr (a div b))"

definition symtable :: "memory \<Rightarrow> elf \<Rightarrow> sym list option rust" where
  "symtable m e =
     (case find (\<lambda>s. section_type s = 2) (sections e) of
        None \<Rightarrow> Inr None
      | Some s \<Rightarrow>
          rbind (div_w (sh_size s) (entry_size s)) (\<lambda>n.
          rbind (read_array decode_sym 24 m (header_ptr e + unat (sh_offset s)) (unat n)) (\<lambda>t. Inr (Some t))))"

fun find_sym :: "u64 \<Rightarrow> sym list \<Rightarrow> sym option rust" where
  "find_sym v [] = Inr None"
| "find_sym v (s # rest) =
     (if sym_value s \<le> v then
        rbind (add_w (sym_value s) (ucast (sym_size s))) (\<lambda>e. if e \<ge> v then Inr (Some s) else find_sym v rest)
      else find_sym v rest)"

definition sym_from_value_range :: "memory \<Rightarrow> elf \<Rightarrow> u64 \<Rightarrow> sym option rust" where
  "sym_from_value_range m e v =
     rbind (symtable m e) (\<lambda>t. case t of None \<Rightarrow> Inr None | Some syms \<Rightarrow> find_sym v syms)"

section \<open>The stack trace\<close>

definition frame_name :: "memory \<Rightarrow> elf option \<Rightarrow> u64 \<Rightarrow> string rust" where
  "frame_name m krnl ret =
     (case krnl of
        None \<Rightarrow> Inr ''??''
      | Some e \<Rightarrow>
          rbind (sym_from_value_range m e ret) (\<lambda>s. case s of
            Some s \<Rightarrow> string_table_index m e (name_index s)
          | None \<Rightarrow> Inr ''??''))"

text \<open>The loop of \<open>print_stack_trace\<close>, which follows the chain of saved frame pointers; the result is what it prints.\<close>

partial_function (option) stack_trace :: "memory \<Rightarrow> elf option \<Rightarrow> u64 \<Rightarrow> (u64 \<times> string) list \<Rightarrow>
    (u64 \<times> string) list rust option" where
  "stack_trace m krnl fp out =
     (if fp = 0 then Some (Inr out)
      else case rbind (read_le m (unat fp + 8) 8) (\<lambda>ret. rbind (frame_name m krnl ret) (\<lambda>name.
             rbind (read_le m (unat fp) 8) (\<lambda>fp'. Inr (fp', (ret, name))))) of
        Inl p \<Rightarrow> Some (Inl p)
      | Inr (fp', line) \<Rightarrow> stack_trace m krnl fp' (out @ [line]))"

end
