(* ===== verification/Descriptors.thy ===== *)
theory Descriptors
  imports Prelude
begin

text \<open>
  \<open>kernel/src/arch/x86_64/gdt.rs\<close>, \<open>interrupts/idt.rs\<close> and the table of \<open>interrupts/handlers.rs\<close>: the descriptors the processor reads, and what it
  finds in them. The addresses of the handlers and of the task state segment, which the linker chooses, are parameters.
\<close>

section \<open>Segments\<close>

record gdt_entry =
  limit0 :: u16
  base0 :: u16
  base1 :: u8
  access :: u8
  limit1_flags :: u8
  base2 :: u8

definition gdt_entry_default :: gdt_entry where
  "gdt_entry_default = \<lparr>limit0 = 0, base0 = 0, base1 = 0, access = 0, limit1_flags = 0, base2 = 0\<rparr>"

definition gdt_entry_new :: "u32 \<Rightarrow> u32 \<Rightarrow> u8 \<Rightarrow> u8 \<Rightarrow> gdt_entry" where
  "gdt_entry_new base limit acc flags =
     gdt_entry_default
       \<lparr>limit0 := ucast (limit AND 0xFFFF),
        limit1_flags := ucast (drop_bit 16 limit AND 0x0F) OR (flags AND 0xF0),
        base0 := ucast (base AND 0xFFFF),
        base1 := ucast (drop_bit 16 base AND 0xFF),
        base2 := ucast (drop_bit 24 base AND 0xFF),
        access := acc\<rparr>"

definition new_upper_64seg :: "u64 \<Rightarrow> gdt_entry" where
  "new_upper_64seg base64 =
     (let base = (ucast (drop_bit 32 base64) :: u32) in
      gdt_entry_default\<lparr>limit0 := ucast (base AND 0xFFFF), base0 := ucast (drop_bit 16 base AND 0xFFFF)\<rparr>)"

definition ACCESS_WRITE_READ :: u8 where "ACCESS_WRITE_READ = push_bit 1 1"
definition ACCESS_EXECUTABLE :: u8 where "ACCESS_EXECUTABLE = push_bit 3 1"
definition NON_SYSTEM :: u8 where "NON_SYSTEM = push_bit 4 1"
definition ACCESS_VAILD :: u8 where "ACCESS_VAILD = push_bit 7 1"
definition ACCESS_TYPE_TSS :: u8 where "ACCESS_TYPE_TSS = 0x9"
definition FLAG_LONG :: u8 where "FLAG_LONG = push_bit 5 1"
definition FLAG_PAGELIMIT :: u8 where "FLAG_PAGELIMIT = push_bit 7 1"

lemmas gdt_consts = ACCESS_WRITE_READ_def ACCESS_EXECUTABLE_def NON_SYSTEM_def ACCESS_VAILD_def ACCESS_TYPE_TSS_def
  FLAG_LONG_def FLAG_PAGELIMIT_def

record task_state_segment =
  privilege_stack_table :: "u64 list"
  interrupt_stack_table :: "u64 list"
  iomap_base :: u16

definition tss_new :: task_state_segment where
  "tss_new = \<lparr>privilege_stack_table = replicate 3 0, interrupt_stack_table = replicate 7 0, iomap_base = 0\<rparr>"

text \<open>\<open>size_of::<TaskStateSegment>()\<close>: the fields above and 22 reserved bytes, packed.\<close>

definition TSS_SIZE :: nat where "TSS_SIZE = 4 + 3 * 8 + 8 + 7 * 8 + 8 + 2 + 2"

definition TSS :: "u64 \<Rightarrow> task_state_segment" where
  "TSS stack_start = tss_new\<lparr>interrupt_stack_table := (interrupt_stack_table tss_new)[0 := stack_start + 4096 * 5]\<rparr>"

definition GDT :: "u64 \<Rightarrow> gdt_entry list" where
  "GDT tss_addr =
     [gdt_entry_default,
      gdt_entry_new 0 0xFFFFF (ACCESS_VAILD OR NON_SYSTEM OR ACCESS_WRITE_READ OR ACCESS_EXECUTABLE) (FLAG_PAGELIMIT OR FLAG_LONG),
      gdt_entry_new 0 0xFFFFF (ACCESS_VAILD OR ACCESS_WRITE_READ OR NON_SYSTEM) (FLAG_PAGELIMIT OR FLAG_LONG),
      gdt_entry_new (ucast (tss_addr AND 0xFFFFFFFF)) (of_nat (TSS_SIZE - 1)) (ACCESS_VAILD OR ACCESS_TYPE_TSS) (FLAG_PAGELIMIT OR FLAG_LONG),
      new_upper_64seg tss_addr]"

definition GDT_LIMIT :: u16 where "GDT_LIMIT = of_nat (5 * 8 - 1)"

section \<open>Interrupt gates\<close>

record gate_descriptor =
  offset0 :: u16
  selector :: u16
  ist :: u8
  gate_attributes :: u8
  offset1 :: u16
  offset2 :: u32

definition gate_new :: "u64 \<Rightarrow> u8 \<Rightarrow> gate_descriptor" where
  "gate_new handler attrs =
     \<lparr>offset0 = ucast handler, selector = 0x08, ist = 0, gate_attributes = attrs OR push_bit 7 1,
      offset1 = ucast (drop_bit 16 handler), offset2 = ucast (drop_bit 32 handler)\<rparr>"

definition gate_default :: gate_descriptor where
  "gate_default = \<lparr>offset0 = 0, selector = 0, ist = 0, gate_attributes = 0, offset1 = 0, offset2 = 0\<rparr>"

definition ATTR_TRAP :: u8 where "ATTR_TRAP = 0xF"
definition ATTR_INT :: u8 where "ATTR_INT = 0xE"

text \<open>The macro \<open>create_idt!\<close>: the stack index is optional and counts from one in the descriptor.\<close>

fun create_idt :: "(nat \<times> u64 \<times> u8 \<times> u8 option) list \<Rightarrow> gate_descriptor list \<Rightarrow> gate_descriptor list rust" where
  "create_idt [] table = Inr table"
| "create_idt ((index, handler, attrs, stk) # rest) table =
     rbind (idx_set table index ((gate_new handler attrs)\<lparr>ist := (case stk of None \<Rightarrow> 0 | Some s \<Rightarrow> s + 1)\<rparr>)) (create_idt rest)"

definition idt_entries :: "(nat \<Rightarrow> u64) \<Rightarrow> (nat \<times> u64 \<times> u8 \<times> u8 option) list" where
  "idt_entries handler =
     [(0, handler 0, ATTR_INT, None), (3, handler 3, ATTR_INT, None), (8, handler 8, ATTR_TRAP, Some 0),
      (13, handler 13, ATTR_TRAP, None), (14, handler 14, ATTR_TRAP, None), (0x20, handler 0x20, ATTR_INT, None),
      (0x21, handler 0x21, ATTR_INT, None)]"

definition IDT :: "(nat \<Rightarrow> u64) \<Rightarrow> gate_descriptor list rust" where
  "IDT handler = create_idt (idt_entries handler) (replicate 256 gate_default)"

section \<open>Loading the tables\<close>

text \<open>The registers of the processor that name the tables and the segments in use. Loading a register with \<open>lgdt\<close> or \<open>lidt\<close> stores the limit and makes the table current.\<close>

record segments =
  gdtr_limit :: u16
  gdtr_table :: "gdt_entry list"
  idtr_limit :: u16
  idtr_table :: "gate_descriptor list"
  code_selector :: u16
  data_selectors :: "u16 list"
  task_register :: u16

text \<open>\<open>gs\<close>, \<open>fs\<close>, \<open>ds\<close>, \<open>es\<close> and \<open>ss\<close> get 0x10, the far return loads 0x08 into \<open>cs\<close>, and \<open>ltr\<close> selects the task state segment.\<close>

definition init_gdt :: "u64 \<Rightarrow> segments \<Rightarrow> segments" where
  "init_gdt tss_addr r =
     r\<lparr>gdtr_limit := GDT_LIMIT, gdtr_table := GDT tss_addr, data_selectors := replicate 5 0x10, code_selector := 0x08,
       task_register := of_nat (3 * 8)\<rparr>"

definition IDT_LIMIT :: u16 where "IDT_LIMIT = of_nat (256 * 16 - 1)"

definition init_idt :: "(nat \<Rightarrow> u64) \<Rightarrow> segments \<Rightarrow> segments rust" where
  "init_idt handler r = rbind (IDT handler) (\<lambda>t. Inr (r\<lparr>idtr_limit := IDT_LIMIT, idtr_table := t\<rparr>))"

section \<open>What the processor reads\<close>

definition seg_base :: "gdt_entry \<Rightarrow> u32" where
  "seg_base e = ucast (base0 e) OR push_bit 16 (ucast (base1 e)) OR push_bit 24 (ucast (base2 e))"

definition seg_limit :: "gdt_entry \<Rightarrow> u32" where
  "seg_limit e = ucast (limit0 e) OR push_bit 16 (ucast (limit1_flags e AND 0x0F))"

text \<open>The base of a system segment in long mode spans two entries.\<close>

definition system_base :: "gdt_entry \<Rightarrow> gdt_entry \<Rightarrow> u64" where
  "system_base lo hi = ucast (seg_base lo) OR push_bit 32 (ucast (limit0 hi)) OR push_bit 48 (ucast (base0 hi))"

definition gate_offset :: "gate_descriptor \<Rightarrow> u64" where
  "gate_offset g = ucast (offset0 g) OR push_bit 16 (ucast (offset1 g)) OR push_bit 32 (ucast (offset2 g))"

definition gate_present :: "gate_descriptor \<Rightarrow> bool" where
  "gate_present g \<longleftrightarrow> bit (gate_attributes g) 7"

definition gate_type :: "gate_descriptor \<Rightarrow> u8" where
  "gate_type g = gate_attributes g AND 0x0F"

lemma mask_numerals: "(0xFFFF :: u32) = mask 16" "(0xFF :: u32) = mask 8" "(0x0F :: u32) = mask 4" "(0x0F :: u8) = mask 4"
  "(0xFFFFFFFF :: u64) = mask 32"
  by (simp_all add: mask_eq_exp_minus_1)

lemma gdt_entry_base: "seg_base (gdt_entry_new base limit acc flags) = base"
proof (rule bit_word_eqI)
  fix n
  assume "n < LENGTH(32)"
  then show "bit (seg_base (gdt_entry_new base limit acc flags)) n = bit base n"
    unfolding seg_base_def gdt_entry_new_def mask_numerals
    by (cases "n < 24") (auto simp: bit_simps)
qed

lemma gdt_entry_limit:
  assumes "limit < 2 ^ 20"
  shows "seg_limit (gdt_entry_new base limit acc flags) = limit"
proof (rule bit_word_eqI)
  fix n
  assume "n < LENGTH(32)"
  moreover have "\<not> bit limit n" if "20 \<le> n"
  proof -
    have "take_bit 20 limit = limit" using assms
      by (simp add: word_unat_eq_iff unsigned_take_bit_eq take_bit_nat_eq_self word_less_nat_alt)
    then show ?thesis using that by (metis bit_take_bit_iff not_less)
  qed
  moreover have "\<not> bit (0xF0 :: u8) k" if "k < 4" for k
    using that by (auto simp: numeral_eq_Suc less_Suc_eq bit_Suc)
  ultimately show "bit (seg_limit (gdt_entry_new base limit acc flags)) n = bit limit n"
    unfolding seg_limit_def gdt_entry_new_def mask_numerals
    by (cases "n < 20") (auto simp: bit_simps)
qed

lemma system_base_pair:
  "system_base (gdt_entry_new (ucast (a AND 0xFFFFFFFF)) limit acc flags) (new_upper_64seg a) = a"
proof (rule bit_word_eqI)
  fix n
  assume "n < LENGTH(64)"
  then show "bit (system_base (gdt_entry_new (ucast (a AND 0xFFFFFFFF)) limit acc flags) (new_upper_64seg a)) n = bit a n"
    unfolding system_base_def gdt_entry_base new_upper_64seg_def Let_def mask_numerals
    by (cases "n < 48") (auto simp: bit_simps)
qed

lemma gate_new_offset: "gate_offset ((gate_new h attrs)\<lparr>ist := i\<rparr>) = h"
proof (rule bit_word_eqI)
  fix n
  assume "n < LENGTH(64)"
  then show "bit (gate_offset ((gate_new h attrs)\<lparr>ist := i\<rparr>)) n = bit h n"
    unfolding gate_offset_def gate_new_def
    by (cases "n < 32") (auto simp: bit_simps)
qed


section \<open>The interrupt table\<close>

definition vectors :: "nat set" where "vectors = {0, 3, 8, 13, 14, 0x20, 0x21}"

definition gate_for :: "(nat \<Rightarrow> u64) \<Rightarrow> nat \<Rightarrow> gate_descriptor" where
  "gate_for handler v =
     (if v \<in> vectors then (gate_new (handler v) (if v \<in> {8, 13, 14} then ATTR_TRAP else ATTR_INT))\<lparr>ist := (if v = 8 then 1 else 0)\<rparr>
      else gate_default)"

lemma IDT_eq: "IDT handler = Inr (map (gate_for handler) [0..<256])"
proof -
  let ?g = "gate_for handler"
  have "IDT handler = Inr ((replicate 256 gate_default)[0 := ?g 0, 3 := ?g 3, 8 := ?g 8, 13 := ?g 13, 14 := ?g 14, 0x20 := ?g 0x20, 0x21 := ?g 0x21])"
    by (simp add: IDT_def idt_entries_def idx_set_def gate_for_def vectors_def)
  moreover have "(replicate 256 gate_default)[0 := ?g 0, 3 := ?g 3, 8 := ?g 8, 13 := ?g 13, 14 := ?g 14, 0x20 := ?g 0x20, 0x21 := ?g 0x21] =
      map ?g [0..<256]"
    by (rule nth_equalityI) (auto simp: nth_list_update gate_for_def vectors_def)
  ultimately show ?thesis by simp
qed

lemma gate_for_reads:
  "gate_present (gate_for handler v) \<longleftrightarrow> v \<in> vectors" "gate_offset (gate_for handler v) = (if v \<in> vectors then handler v else 0)"
  "selector (gate_for handler v) = (if v \<in> vectors then 0x08 else 0)" "ist (gate_for handler v) = (if v = 8 then 1 else 0)"
proof -
  have "bit (attrs OR push_bit 7 1 :: u8) 7" for attrs by (simp add: bit_or_iff bit_push_bit_iff)
  then show "gate_present (gate_for handler v) \<longleftrightarrow> v \<in> vectors"
    by (simp add: gate_for_def gate_present_def gate_new_def gate_default_def del: push_bit_of_1)
  show "gate_offset (gate_for handler v) = (if v \<in> vectors then handler v else 0)"
    by (simp add: gate_for_def gate_new_offset) (simp add: gate_offset_def gate_default_def)
  show "selector (gate_for handler v) = (if v \<in> vectors then 0x08 else 0)"
    by (simp add: gate_for_def gate_new_def gate_default_def)
  show "ist (gate_for handler v) = (if v = 8 then 1 else 0)" by (simp add: gate_for_def gate_default_def vectors_def)
qed

text \<open>
  C29: the interrupt table has a gate for every vector; exactly the seven vectors the kernel handles are present, each leads to its handler in the kernel's code segment, and only the
  double fault switches to the stack of the task state segment.
\<close>
theorem idt_correct:
  "\<exists>table. IDT handler = Inr table \<and> length table = 256 \<and>
     map gate_present table = map (\<lambda>v. v \<in> vectors) [0..<256] \<and>
     map gate_offset table = map (\<lambda>v. if v \<in> vectors then handler v else 0) [0..<256] \<and>
     map selector table = map (\<lambda>v. if v \<in> vectors then 0x08 else 0) [0..<256] \<and>
     map ist table = map (\<lambda>v. if v = 8 then 1 else 0) [0..<256]"
  by (simp add: IDT_eq gate_for_reads comp_def)

end
