(* ===== verification/Serial.thy ===== *)
theory Serial
  imports Raw_Bytes
begin

text \<open>
  The port instructions of \<open>kernel/src/arch/x86_64/mod.rs\<close> and the serial port of \<open>serial.rs\<close>.

  A driver is a function on the history of port accesses, oldest first. What a device answers to a read may depend on the whole history;
  it is the parameter \<open>dev\<close>. A driver that waits for a device may wait for ever: then the result is \<open>None\<close>.
\<close>

section \<open>The interface of a text console\<close>

text \<open>
  What the users of a console rely on: while the device \<open>d\<close> is alive, putting a text returns, and what the console then \<open>emits\<close> is that text; outputs one after the other emit the texts one after the other.
\<close>

locale text_output =
  fixes put :: "'d \<Rightarrow> 'b list \<Rightarrow> 's \<Rightarrow> 's option"
    and emits :: "'d \<Rightarrow> 'b list \<Rightarrow> 's \<Rightarrow> 's \<Rightarrow> bool"
    and live :: "'d \<Rightarrow> bool"
  assumes emits_Nil: "emits d [] s s"
    and emits_trans: "emits d x s t \<Longrightarrow> emits d y t u \<Longrightarrow> emits d (x @ y) s u"
    and put_emits: "live d \<Longrightarrow> \<exists>t. put d x s = Some t \<and> emits d x s t"
begin

lemma put_two:
  assumes "live d"
  obtains t u where "put d x s = Some t" and "put d y t = Some u" and "emits d (x @ y) s u"
  using put_emits[OF assms] emits_trans by meson

lemma put_all:
  "live d \<Longrightarrow> \<exists>t. fold (\<lambda>x r. Option.bind r (put d x)) xs (Some s) = Some t \<and> emits d (concat xs) s t"
proof (induction xs arbitrary: s)
  case Nil
  then show ?case by (simp add: emits_Nil)
next
  case (Cons x xs)
  obtain t where t: "put d x s = Some t" "emits d x s t" using put_emits[OF Cons.prems] by blast
  with Cons.IH[OF Cons.prems, of t] show ?case using emits_trans[OF t(2)] by auto
qed

end

section \<open>Ports\<close>

text \<open>The instructions by which the drivers of this part act on the machine; the last four are used by \<open>reboot\<close>.\<close>

datatype io_op = In8 u16 | In16 u16 | Out8 u16 u8 | Out16 u16 u16 | Cli | Sti | Lidt | Int3

type_synonym io_log = "io_op list"

record device =
  answer8 :: "io_log \<Rightarrow> u16 \<Rightarrow> u8"
  answer16 :: "io_log \<Rightarrow> u16 \<Rightarrow> u16"

definition inb :: "device \<Rightarrow> u16 \<Rightarrow> io_log \<Rightarrow> u8 \<times> io_log" where
  "inb dev port h = (answer8 dev h port, h @ [In8 port])"

definition outb :: "u16 \<Rightarrow> u8 \<Rightarrow> io_log \<Rightarrow> io_log" where
  "outb port v h = h @ [Out8 port v]"

definition outw :: "u16 \<Rightarrow> u16 \<Rightarrow> io_log \<Rightarrow> io_log" where
  "outw port v h = h @ [Out16 port v]"

definition inw :: "device \<Rightarrow> u16 \<Rightarrow> io_log \<Rightarrow> u16 \<times> io_log" where
  "inw dev port h = (answer16 dev h port, h @ [In16 port])"

section \<open>The serial port\<close>

definition SERIAL_COM1_BASE :: u16 where "SERIAL_COM1_BASE = 0x3F8"
definition SERIAL_DATA_PORT :: u16 where "SERIAL_DATA_PORT = SERIAL_COM1_BASE"
definition SERIAL_FIFO_COMMAND_PORT :: u16 where "SERIAL_FIFO_COMMAND_PORT = SERIAL_COM1_BASE + 2"
definition SERIAL_LINE_COMMAND_PORT :: u16 where "SERIAL_LINE_COMMAND_PORT = SERIAL_COM1_BASE + 3"
definition SERIAL_MODEM_COMMAND_PORT :: u16 where "SERIAL_MODEM_COMMAND_PORT = SERIAL_COM1_BASE + 4"
definition SERIAL_LINE_STATUS_PORT :: u16 where "SERIAL_LINE_STATUS_PORT = SERIAL_COM1_BASE + 5"
definition SERIAL_LINE_ENABLE_DLAB :: u8 where "SERIAL_LINE_ENABLE_DLAB = 0x80"

lemmas serial_ports = SERIAL_COM1_BASE_def SERIAL_DATA_PORT_def SERIAL_FIFO_COMMAND_PORT_def SERIAL_LINE_COMMAND_PORT_def
  SERIAL_MODEM_COMMAND_PORT_def SERIAL_LINE_STATUS_PORT_def SERIAL_LINE_ENABLE_DLAB_def

definition init_serial :: "io_log \<Rightarrow> io_log" where
  "init_serial h =
     (let h = outb SERIAL_LINE_COMMAND_PORT SERIAL_LINE_ENABLE_DLAB h;
          h = outb SERIAL_DATA_PORT 0x01 h;
          h = outb (SERIAL_DATA_PORT + 1) 0x00 h;
          h = outb SERIAL_LINE_COMMAND_PORT 0x03 h;
          h = outb SERIAL_FIFO_COMMAND_PORT 0xC7 h
      in outb SERIAL_MODEM_COMMAND_PORT 0x0B h)"

definition serial_is_transmit_fifo_empty :: "device \<Rightarrow> io_log \<Rightarrow> bool \<times> io_log" where
  "serial_is_transmit_fifo_empty dev h = (let (v, h') = inb dev SERIAL_LINE_STATUS_PORT h in (v AND 0x20 \<noteq> 0, h'))"

partial_function (option) write_serial :: "device \<Rightarrow> u8 \<Rightarrow> io_log \<Rightarrow> io_log option" where
  "write_serial dev byte h =
     (case serial_is_transmit_fifo_empty dev h of (fifo_empty, h') \<Rightarrow>
        if \<not> fifo_empty then write_serial dev byte h' else Some (outb SERIAL_DATA_PORT byte h'))"

fun write_serial_string :: "device \<Rightarrow> u8 list \<Rightarrow> io_log \<Rightarrow> io_log option" where
  "write_serial_string dev [] h = Some h"
| "write_serial_string dev (byte # s) h = Option.bind (write_serial dev byte h) (write_serial_string dev s)"

text \<open>\<open>serial!\<close>: the text that formatting the arguments gives, written piece by piece.\<close>

definition serial :: "device \<Rightarrow> string \<Rightarrow> io_log \<Rightarrow> io_log option" where
  "serial dev s = write_serial_string dev (bytes_of s)"

text \<open>The formats \<open>{:X}\<close> and \<open>{}\<close> of unsigned integers.\<close>

definition digit_char :: "nat \<Rightarrow> char" where
  "digit_char d = char_of (if d < 10 then 48 + d else 55 + d)"

fun fmt_base :: "nat \<Rightarrow> nat \<Rightarrow> string" where
  "fmt_base b n = (if n < b \<or> b < 2 then [digit_char n] else fmt_base b (n div b) @ [digit_char (n mod b)])"

declare fmt_base.simps [simp del]

definition fmt_X :: "'a::len word \<Rightarrow> string" where "fmt_X w = fmt_base 16 (unat w)"
definition fmt_dec :: "'a::len word \<Rightarrow> string" where "fmt_dec w = fmt_base 10 (unat w)"

section \<open>The device at the other end\<close>

text \<open>
  The 8250 as its data sheet describes it: while bit 7 of the line control register is set, the first two ports are the divisor latch;
  otherwise a byte written to the first port is transmitted. A 16-bit access is two 8-bit ones.
\<close>

record uart =
  lcr :: u8
  divisor_low :: u8
  divisor_high :: u8
  irq_enable :: u8
  fcr :: u8
  mcr :: u8
  sent :: "u8 list"

definition uart_out :: "u16 \<Rightarrow> u8 \<Rightarrow> uart \<Rightarrow> uart" where
  "uart_out p v u =
     (if p = 0x3F8 then (if bit (lcr u) 7 then u\<lparr>divisor_low := v\<rparr> else u\<lparr>sent := sent u @ [v]\<rparr>)
      else if p = 0x3F9 then (if bit (lcr u) 7 then u\<lparr>divisor_high := v\<rparr> else u\<lparr>irq_enable := v\<rparr>)
      else if p = 0x3FA then u\<lparr>fcr := v\<rparr>
      else if p = 0x3FB then u\<lparr>lcr := v\<rparr>
      else if p = 0x3FC then u\<lparr>mcr := v\<rparr>
      else u)"

fun uart_step :: "io_op \<Rightarrow> uart \<Rightarrow> uart" where
  "uart_step (Out8 p v) u = uart_out p v u"
| "uart_step (Out16 p v) u = uart_out (p + 1) (ucast (drop_bit 8 v)) (uart_out p (ucast v) u)"
| "uart_step _ u = u"

definition uart_run :: "io_log \<Rightarrow> uart \<Rightarrow> uart" where
  "uart_run h u = fold uart_step h u"

text \<open>The transmitter has room at this point of the history.\<close>

definition ready_at :: "device \<Rightarrow> io_log \<Rightarrow> bool" where
  "ready_at dev h \<longleftrightarrow> bit (answer8 dev h SERIAL_LINE_STATUS_PORT) 5"

text \<open>However it is used, a device that is polled has room again in the end.\<close>

definition drains :: "device \<Rightarrow> bool" where
  "drains dev \<longleftrightarrow> (\<forall>h. \<exists>k. ready_at dev (h @ replicate k (In8 SERIAL_LINE_STATUS_PORT)))"

text \<open>In the accesses \<open>w\<close> after \<open>h\<close>, every byte for the data port comes right after the device reported room for it.\<close>

fun paced :: "device \<Rightarrow> io_log \<Rightarrow> io_log \<Rightarrow> bool" where
  "paced dev h [] \<longleftrightarrow> True"
| "paced dev h (x # w) \<longleftrightarrow>
     (case x of
        Out8 p v \<Rightarrow> p = SERIAL_DATA_PORT \<longrightarrow>
          (\<exists>h'. h = h' @ [In8 SERIAL_LINE_STATUS_PORT] \<and> ready_at dev h')
      | _ \<Rightarrow> True) \<and> paced dev (h @ [x]) w"

lemma paced_append: "paced dev h (v @ w) \<longleftrightarrow> paced dev h v \<and> paced dev (h @ v) w"
  by (induction v arbitrary: h) auto

lemma paced_reads: "paced dev h (replicate k (In8 p))"
  by (induction k arbitrary: h) auto

section \<open>Writing\<close>

lemma and_0x20: "b AND 0x20 \<noteq> 0 \<longleftrightarrow> bit b 5" for b :: u8
proof -
  have "b AND 0x20 = (if bit b 5 then 0x20 else 0)"
    by (rule bit_word_eqI) (auto simp: bit_and_iff bit_exp_iff[of 5, simplified] split: if_splits)
  then show ?thesis by simp
qed

lemma write_serial_ready: "ready_at dev h \<Longrightarrow> write_serial dev b h = Some (h @ [In8 SERIAL_LINE_STATUS_PORT, Out8 SERIAL_DATA_PORT b])"
  by (subst write_serial.simps) (simp add: serial_is_transmit_fifo_empty_def inb_def outb_def ready_at_def and_0x20)

lemma write_serial_wait: "\<not> ready_at dev h \<Longrightarrow> write_serial dev b h = write_serial dev b (h @ [In8 SERIAL_LINE_STATUS_PORT])"
  by (subst write_serial.simps) (simp add: serial_is_transmit_fifo_empty_def inb_def ready_at_def and_0x20)

text \<open>The polls before the device is ready are all the waiting there is.\<close>

lemma write_serial_polls:
  "ready_at dev (h @ replicate k (In8 SERIAL_LINE_STATUS_PORT)) \<Longrightarrow>
    \<exists>j \<le> k. ready_at dev (h @ replicate j (In8 SERIAL_LINE_STATUS_PORT)) \<and>
      write_serial dev b h = Some (h @ replicate j (In8 SERIAL_LINE_STATUS_PORT) @ [In8 SERIAL_LINE_STATUS_PORT, Out8 SERIAL_DATA_PORT b])"
proof (induction k arbitrary: h)
  case 0
  then show ?case by (simp add: write_serial_ready)
next
  case (Suc k)
  let ?r = "In8 SERIAL_LINE_STATUS_PORT"
  show ?case
  proof (cases "ready_at dev h")
    case True
    then show ?thesis by (intro exI[of _ 0]) (simp add: write_serial_ready)
  next
    case False
    from Suc.IH[of "h @ [?r]"] Suc.prems obtain j where "j \<le> k" "ready_at dev ((h @ [?r]) @ replicate j ?r)"
      "write_serial dev b (h @ [?r]) = Some ((h @ [?r]) @ replicate j ?r @ [?r, Out8 SERIAL_DATA_PORT b])" by auto
    then show ?thesis by (intro exI[of _ "Suc j"]) (simp add: write_serial_wait[OF False])
  qed
qed

lemma uart_run_append: "uart_run (v @ w) u = uart_run w (uart_run v u)"
  by (simp add: uart_run_def)

lemma uart_run_reads: "uart_run (replicate k (In8 p)) u = u"
  by (induction k) (simp_all add: uart_run_def)

text \<open>What a piece of output leaves behind: a paced history and a device that has transmitted the bytes.\<close>

definition transmits :: "device \<Rightarrow> u8 list \<Rightarrow> io_log \<Rightarrow> io_log \<Rightarrow> bool" where
  "transmits dev s h h' \<longleftrightarrow>
     (\<exists>w. h' = h @ w \<and> paced dev h w \<and> (\<forall>u. \<not> bit (lcr u) 7 \<longrightarrow> uart_run w u = u\<lparr>sent := sent u @ s\<rparr>))"

lemma transmits_Nil: "transmits dev [] h h"
  by (simp add: transmits_def uart_run_def)

lemma transmits_trans: "transmits dev s h h1 \<Longrightarrow> transmits dev t h1 h2 \<Longrightarrow> transmits dev (s @ t) h h2"
proof -
  assume "transmits dev s h h1" "transmits dev t h1 h2"
  then obtain v w where v: "h1 = h @ v" "paced dev h v" "\<forall>u. \<not> bit (lcr u) 7 \<longrightarrow> uart_run v u = u\<lparr>sent := sent u @ s\<rparr>"
    and w: "h2 = h1 @ w" "paced dev h1 w" "\<forall>u. \<not> bit (lcr u) 7 \<longrightarrow> uart_run w u = u\<lparr>sent := sent u @ t\<rparr>"
    unfolding transmits_def by blast
  have "\<forall>u. \<not> bit (lcr u) 7 \<longrightarrow> uart_run (v @ w) u = u\<lparr>sent := sent u @ s @ t\<rparr>"
    using v(3) w(3) by (auto simp: uart_run_append)
  then show ?thesis using v w unfolding transmits_def by (intro exI[of _ "v @ w"]) (simp add: paced_append)
qed

lemma write_serial_transmits:
  assumes "drains dev"
  shows "\<exists>h'. write_serial dev b h = Some h' \<and> transmits dev [b] h h'"
proof -
  let ?r = "In8 SERIAL_LINE_STATUS_PORT"
  obtain k where "ready_at dev (h @ replicate k ?r)" using assms unfolding drains_def by blast
  from write_serial_polls[OF this, of b] obtain j where j: "ready_at dev (h @ replicate j ?r)"
    "write_serial dev b h = Some (h @ replicate j ?r @ [?r, Out8 SERIAL_DATA_PORT b])" by blast
  have "paced dev h (replicate j ?r @ [?r, Out8 SERIAL_DATA_PORT b])" using j(1) by (auto simp: paced_append paced_reads)
  moreover have "uart_run (replicate j ?r @ [?r, Out8 SERIAL_DATA_PORT b]) u = u\<lparr>sent := sent u @ [b]\<rparr>" if "\<not> bit (lcr u) 7" for u
    unfolding uart_run_append uart_run_reads using that by (simp add: uart_run_def uart_out_def serial_ports)
  ultimately show ?thesis using j(2) unfolding transmits_def by auto
qed

lemma write_serial_string_transmits:
  assumes "drains dev"
  shows "\<exists>h'. write_serial_string dev s h = Some h' \<and> transmits dev s h h'"
proof (induction s arbitrary: h)
  case (Cons b s)
  obtain h1 where h1: "write_serial dev b h = Some h1" "transmits dev [b] h h1" using write_serial_transmits[OF assms] by blast
  obtain h2 where "write_serial_string dev s h1 = Some h2" "transmits dev s h1 h2" using Cons by blast
  then show ?case using h1 transmits_trans[OF h1(2)] by fastforce
qed (simp add: transmits_Nil)

lemma serial_transmits: "drains dev \<Longrightarrow> \<exists>h'. serial dev s h = Some h' \<and> transmits dev (bytes_of s) h h'"
  by (simp add: serial_def write_serial_string_transmits)

interpretation serial_bytes: text_output write_serial_string transmits drains
  by unfold_locales (auto intro: transmits_Nil transmits_trans write_serial_string_transmits)

interpretation serial_text: text_output serial "\<lambda>dev s. transmits dev (bytes_of s)" drains
  by unfold_locales (auto simp: bytes_of_def intro: transmits_Nil transmits_trans serial_transmits[unfolded bytes_of_def])

lemma uart_run_init:
  "uart_run (init_serial []) u = u\<lparr>lcr := 3, divisor_low := 1, divisor_high := 0, fcr := 0xC7, mcr := 0x0B\<rparr>"
  by (simp add: init_serial_def outb_def uart_run_def uart_out_def serial_ports bit_iff_odd)

lemma init_serial_append: "init_serial h = h @ init_serial []"
  by (simp add: init_serial_def outb_def)

text \<open>
  C25: the serial console: whatever the device was set to, after \<open>init_serial\<close> it sends eight data bits without parity at the highest rate, and, as long as the device is never full for ever,
  writing a string returns and transmits exactly its bytes, in order, none of them while the device has no room.
\<close>
theorem serial_line_correct:
  assumes "drains dev"
  shows "\<exists>w. write_serial_string dev s (init_serial h) = Some (init_serial h @ w) \<and> paced dev (init_serial h) w \<and>
    (let u' = uart_run (init_serial h @ w) u in
     lcr u' = 3 \<and> divisor_low u' = 1 \<and> divisor_high u' = 0 \<and> sent u' = sent (uart_run h u) @ s)"
proof -
  obtain w where w: "write_serial_string dev s (init_serial h) = Some (init_serial h @ w)" "paced dev (init_serial h) w"
    "\<forall>u. \<not> bit (lcr u) 7 \<longrightarrow> uart_run w u = u\<lparr>sent := sent u @ s\<rparr>"
    using write_serial_string_transmits[OF assms] unfolding transmits_def by blast
  have "\<not> bit (3 :: u8) 7" by (simp add: bit_iff_odd)
  then have "uart_run (init_serial h @ w) u = (uart_run (init_serial []) (uart_run h u))\<lparr>sent := sent (uart_run h u) @ s\<rparr>"
    using w(3) by (subst init_serial_append) (simp add: uart_run_append uart_run_init)
  then show ?thesis using w(1,2) by (auto simp: uart_run_init Let_def)
qed

text \<open>A device that is busy for one poll after every access that is not a poll.\<close>

definition example_uart :: device where
  "example_uart =
     \<lparr>answer8 = (\<lambda>h p. if h \<noteq> [] \<and> last h = In8 p then 0x20 else 0), answer16 = (\<lambda>h p. 0)\<rparr>"

lemma drains_example: "drains example_uart"
  unfolding drains_def
proof
  fix h
  have "ready_at example_uart (h @ replicate 1 (In8 SERIAL_LINE_STATUS_PORT))"
    by (simp add: ready_at_def example_uart_def bit_iff_odd)
  then show "\<exists>k. ready_at example_uart (h @ replicate k (In8 SERIAL_LINE_STATUS_PORT))" by blast
qed

theorem serial_line_correct_witness:
  "\<exists>w. write_serial_string example_uart [72, 105] (init_serial []) = Some (init_serial [] @ w) \<and>
    sent (uart_run (init_serial [] @ w) \<lparr>lcr = 0, divisor_low = 0, divisor_high = 0, irq_enable = 0, fcr = 0, mcr = 0, sent = []\<rparr>) = [72, 105]"
  using serial_line_correct[OF drains_example, of "[72, 105]" "[]"
    "\<lparr>lcr = 0, divisor_low = 0, divisor_high = 0, irq_enable = 0, fcr = 0, mcr = 0, sent = []\<rparr>"]
  by (auto simp: Let_def uart_run_def)

end
