(* ===== verification/Acpi.thy ===== *)
theory Acpi
  imports Raw_Bytes Heap_Allocator
begin

text \<open>
  \<open>kernel/src/arch/x86_64/acpi.rs\<close>: the tables of the firmware. They are read at their physical addresses, which the code maps to themselves first;
  \<open>memory\<close> is what the firmware has put there, and the state that changes is the \<open>machine\<close> with its page tables.
\<close>

section \<open>Tables\<close>

record rsdp_desc =
  rsdp_signature :: "u8 list"
  rsdp_checksum :: u8
  oemid :: "u8 list"
  rsdp_revision :: u8
  rsdt_addr :: u32
  rsdp_len :: u32
  xsdt_addr :: u64
  extended_checksum :: u8
  rsdp_reserved :: "u8 list"

record acpi_header =
  signatrue :: "u8 list"
  acpi_len :: u32
  acpi_revision :: u8
  acpi_checksum :: u8
  oem_id :: "u8 list"
  oem_table_id :: "u8 list"
  oem_revision :: u32
  creator_id :: u32
  creator_revision :: u32

definition decode_rsdp :: "u8 list \<Rightarrow> rsdp_desc" where
  "decode_rsdp b =
     \<lparr>rsdp_signature = take 8 b, rsdp_checksum = field b 8 1, oemid = take 6 (drop 9 b), rsdp_revision = field b 15 1,
      rsdt_addr = field b 16 4, rsdp_len = field b 20 4, xsdt_addr = field b 24 8, extended_checksum = field b 32 1,
      rsdp_reserved = take 3 (drop 33 b)\<rparr>"

definition decode_acpi_header :: "u8 list \<Rightarrow> acpi_header" where
  "decode_acpi_header b =
     \<lparr>signatrue = take 4 b, acpi_len = field b 4 4, acpi_revision = field b 8 1, acpi_checksum = field b 9 1,
      oem_id = take 6 (drop 10 b), oem_table_id = take 8 (drop 16 b), oem_revision = field b 24 4, creator_id = field b 28 4,
      creator_revision = field b 32 4\<rparr>"

definition read_acpi_header :: "memory \<Rightarrow> nat \<Rightarrow> acpi_header rust" where
  "read_acpi_header mem a = rbind (read_bytes mem a 36) (\<lambda>b. Inr (decode_acpi_header b))"

text \<open>\<open>vaildate\<close> adds up the bytes of the struct; thirty-six bytes cannot overflow a \<open>usize\<close>.\<close>

definition vaildate :: "u8 list \<Rightarrow> bool" where
  "vaildate b = (foldl (\<lambda>sum x. sum + ucast x) (0 :: usize) b AND 0xFF = 0)"

section \<open>The root table\<close>

definition rsdt_nth :: "memory \<Rightarrow> nat \<Rightarrow> usize \<Rightarrow> machine \<Rightarrow> ((usize \<times> u32) \<times> machine) rust" where
  "rsdt_nth mem self n m =
     rbind (mul_w n 4) (\<lambda>off.
     rbind (add_w 36 off) (\<lambda>total_offset.
     rbind (read_le mem (self + 36 + unat off) 4) (\<lambda>(a :: u32).
     let addr = ucast a in
     rbind (identity_map_present addr m) (\<lambda>m'. Inr ((addr, ucast total_offset), m')))))"

definition rsdt_count :: "acpi_header \<Rightarrow> usize rust" where
  "rsdt_count h = rbind (sub_w (ucast (acpi_len h)) 36) (\<lambda>s. Inr (s div 4))"

text \<open>The loop over the entries from the \<open>i\<close>th on, \<open>k\<close> of them left.\<close>

fun search_signatrue :: "memory \<Rightarrow> nat \<Rightarrow> u8 list \<Rightarrow> nat \<Rightarrow> usize \<Rightarrow> machine \<Rightarrow> (usize option \<times> machine) rust" where
  "search_signatrue mem self sig 0 i m = Inr (None, m)"
| "search_signatrue mem self sig (Suc k) i m =
     rbind (rsdt_nth mem self i m) (\<lambda>((item, _), m1).
     rbind (read_acpi_header mem (unat item)) (\<lambda>h.
     if signatrue h = sig then Inr (Some item, m1) else search_signatrue mem self sig k (i + 1) m1))"

definition get_entry_of_signatrue :: "memory \<Rightarrow> nat \<Rightarrow> u8 list \<Rightarrow> machine \<Rightarrow> (usize option \<times> machine) rust" where
  "get_entry_of_signatrue mem self sig m =
     rbind (read_acpi_header mem self) (\<lambda>h.
     rbind (rsdt_count h) (\<lambda>n. search_signatrue mem self sig (unat n) 0 m))"

definition fadt_get :: "memory \<Rightarrow> nat \<Rightarrow> machine \<Rightarrow> (usize \<times> machine) rust" where
  "fadt_get mem ptsd m =
     rbind (get_entry_of_signatrue mem ptsd (bytes_of ''FACP'') m) (\<lambda>(r, m'). rbind (unwrap r) (\<lambda>a. Inr (a, m')))"

definition madt_get :: "memory \<Rightarrow> nat \<Rightarrow> machine \<Rightarrow> (usize \<times> machine) rust" where
  "madt_get mem ptsd m =
     rbind (get_entry_of_signatrue mem ptsd (bytes_of ''APIC'') m) (\<lambda>(r, m'). rbind (unwrap r) (\<lambda>a. Inr (a, m')))"

definition get_rsdp :: "memory \<Rightarrow> u64 option \<Rightarrow> machine \<Rightarrow> (rsdp_desc \<times> machine) rust" where
  "get_rsdp mem rsdp_addr m =
     rbind (unwrap rsdp_addr) (\<lambda>a.
     rbind (identity_map_present a m) (\<lambda>m'.
     rbind (read_bytes mem (unat a) 36) (\<lambda>b. Inr (decode_rsdp b, m'))))"

definition get_sdt :: "memory \<Rightarrow> u64 option \<Rightarrow> machine \<Rightarrow> (nat \<times> machine) rust" where
  "get_sdt mem rsdp_addr m =
     rbind (get_rsdp mem rsdp_addr m) (\<lambda>(rsdp, m1).
     rbind (identity_map_present (ucast (rsdt_addr rsdp)) m1) (\<lambda>m2.
     Inr (unat (rsdt_addr rsdp), m2)))"

section \<open>The table of interrupt controllers\<close>

text \<open>One step from a record to the next, \<open>k\<close> times. Addresses are cut to 32 bits by the code.\<close>

fun madt_walk :: "memory \<Rightarrow> nat \<Rightarrow> u32 \<Rightarrow> u32 rust" where
  "madt_walk mem 0 r = Inr r"
| "madt_walk mem (Suc k) r =
     rbind (read_le mem (unat r + 1) 1) (\<lambda>(len :: u8). rbind (add_w r (ucast len)) (madt_walk mem k))"

definition madt_nth :: "memory \<Rightarrow> nat \<Rightarrow> usize \<Rightarrow> (nat \<times> u32) rust" where
  "madt_nth mem self n =
     (if n = 0 then rbind (sub_w (of_nat (self + 44)) (of_nat self)) (\<lambda>off. Inr (self + 44, off))
      else
        rbind (read_le mem (self + 44 + 1) 1) (\<lambda>(len :: u8).
        rbind (add_w (of_nat (self + 44)) (ucast len)) (\<lambda>r0.
        rbind (madt_walk mem (unat n - 1 - 1) r0) (\<lambda>r.
        rbind (sub_w r (of_nat self)) (\<lambda>off. Inr (unat r, off))))))"

partial_function (option) madt_search :: "memory \<Rightarrow> nat \<Rightarrow> u32 \<Rightarrow> u8 \<Rightarrow> u32 \<Rightarrow> usize \<Rightarrow> nat option rust option" where
  "madt_search mem self len ty current_offset i =
     (if current_offset \<le> len then
        case rbind (madt_nth mem self i) (\<lambda>(ptr, off).
          rbind (read_le mem ptr 1) (\<lambda>(entry_type :: u8).
          if entry_type = ty then Inr (Inl ptr) else rbind (add_w i 1) (\<lambda>i'. Inr (Inr (off, i'))))) of
          Inl p \<Rightarrow> Some (Inl p)
        | Inr (Inl ptr) \<Rightarrow> Some (Inr (Some ptr))
        | Inr (Inr (off, i')) \<Rightarrow> madt_search mem self len ty off i'
      else Some (Inr None))"

definition get_record_of_type :: "memory \<Rightarrow> nat \<Rightarrow> u8 \<Rightarrow> nat option rust option" where
  "get_record_of_type mem self ty =
     (case read_acpi_header mem self of
        Inl p \<Rightarrow> Some (Inl p)
      | Inr h \<Rightarrow> madt_search mem self (acpi_len h) ty 0 0)"

end
