(* ===== verification/Acpi_Props.thy ===== *)
theory Acpi_Props
  imports Acpi Heap_Growth
begin

text \<open>
  Properties of the readers of the firmware tables: the record of the wanted kind is found when the table has one, and what happens when it has not.
\<close>

section \<open>Records\<close>

text \<open>A record of the MADT: its type, its length, its contents.\<close>

definition good_record :: "u8 list \<Rightarrow> bool" where
  "good_record r \<longleftrightarrow> 2 \<le> length r \<and> length r < 256 \<and> r ! 1 = of_nat (length r)"

definition pos :: "u8 list list \<Rightarrow> nat \<Rightarrow> nat" where
  "pos rs k = 44 + length (concat (take k rs))"

text \<open>A MADT at \<open>self\<close> with the records \<open>rs\<close>, in the lower four gigabytes.\<close>

definition madt_at :: "memory \<Rightarrow> nat \<Rightarrow> u8 list list \<Rightarrow> bool" where
  "madt_at mem self rs \<longleftrightarrow> (\<exists>h. read_acpi_header mem self = Inr h \<and> unat (acpi_len h) = pos rs (length rs)) \<and>
     stored mem (self + 44) (concat rs) \<and> (\<forall>r \<in> set rs. good_record r) \<and> self + pos rs (length rs) < 2 ^ 32"

lemma stored_nth: "stored mem a bs \<Longrightarrow> i < length bs \<Longrightarrow> read_le mem (a + i) 1 = Inr (bs ! i)"
proof -
  assume s: "stored mem a bs" and i: "i < length bs"
  then have "bs = take i bs @ [bs ! i] @ drop (Suc i) bs" by (simp add: id_take_nth_drop)
  with s have "stored mem (a + length (take i bs)) [bs ! i]" by (metis stored_append)
  then show ?thesis using i by (simp add: read_le_def read_stored)
qed

lemma read_record:
  assumes "stored mem a (r @ rest)" and "good_record r"
  shows "read_le mem (Suc a) 1 = Inr (of_nat (length r) :: u8)" and "read_le mem a 1 = Inr (r ! 0)"
proof -
  have r: "stored mem a r" using assms(1) by (simp add: stored_append)
  have "1 < length r" "0 < length r" using assms(2) by (auto simp: good_record_def)
  then show "read_le mem (Suc a) 1 = Inr (of_nat (length r) :: u8)" "read_le mem a 1 = Inr (r ! 0)"
    using stored_nth[OF r, of 1] stored_nth[OF r, of 0] assms(2) by (auto simp: good_record_def)
qed

lemma step_record:
  assumes "good_record r" and "a + length r < 2 ^ 32"
  shows "add_w (of_nat a :: u32) (ucast (of_nat (length r) :: u8)) = Inr (of_nat (a + length r))"
proof -
  have "unat (of_nat (length r) :: u8) = length r" using assms(1) by (intro unat_of_nat_small) (simp add: good_record_def)
  then have u: "unat (ucast (of_nat (length r) :: u8) :: u32) = length r" using assms(1)
    by (simp add: unsigned_ucast_eq take_bit_nat_eq_self good_record_def)
  moreover have "unat (of_nat (length r) :: u32) = length r" using assms(1) by (intro unat_of_nat_small) (simp add: good_record_def)
  ultimately have "(ucast (of_nat (length r) :: u8) :: u32) = of_nat (length r)" by (metis word_unat_eq_iff)
  moreover have "unat (of_nat a :: u32) = a" using assms(2) by (intro unat_of_nat_small) simp
  ultimately show ?thesis using assms(2) u by (simp add: add_w_def)
qed

lemma walk_records:
  assumes "stored mem a (concat rs)" and "\<forall>r \<in> set rs. good_record r" and "a + length (concat rs) < 2 ^ 32" and "k \<le> length rs"
  shows "madt_walk mem k (of_nat a) = Inr (of_nat (a + length (concat (take k rs))))"
  using assms
proof (induction rs arbitrary: a k)
  case (Cons r rs)
  show ?case
  proof (cases k)
    case (Suc k')
    have r: "good_record r" "a + length r < 2 ^ 32" using Cons.prems by auto
    have ua: "unat (of_nat a :: u32) = a" using r(2) by (intro unat_of_nat_small) simp
    have "stored mem (a + length r) (concat rs)" using Cons.prems(1) by (simp add: stored_append)
    with Cons.IH[of "a + length r" k'] Cons.prems Suc
    have "madt_walk mem k' (of_nat (a + length r)) = Inr (of_nat (a + length r + length (concat (take k' rs))))" by simp
    then show ?thesis using Cons.prems(1) Suc read_record(1)[of mem a r "concat rs"] r step_record[OF r] ua
      by (simp add: add.assoc)
  qed simp
qed simp

lemma walk_add: "madt_walk mem (j + k) r = rbind (madt_walk mem j r) (madt_walk mem k)"
  by (induction j arbitrary: r) (auto simp: rbind_assoc intro!: rbind_cong)

section \<open>Finding a record\<close>

text \<open>The record that \<open>nth(n)\<close> returns: the one of index 1 comes twice.\<close>

definition rec_index :: "nat \<Rightarrow> nat" where
  "rec_index n = (if n \<le> 1 then n else n - 1)"

lemma pos_less: "k < length rs \<Longrightarrow> \<forall>r \<in> set rs. good_record r \<Longrightarrow> pos rs k < pos rs (length rs)"
proof -
  assume k: "k < length rs" and g: "\<forall>r \<in> set rs. good_record r"
  then have "concat rs = concat (take k rs) @ rs ! k @ concat (drop (Suc k) rs)"
    by (metis concat.simps(2) concat_append id_take_nth_drop)
  then have "length (concat rs) = length (concat (take k rs)) + (length (rs ! k) + length (concat (drop (Suc k) rs)))"
    by (metis length_append)
  moreover have "2 \<le> length (rs ! k)" using k g by (auto simp: good_record_def)
  ultimately show ?thesis unfolding pos_def take_all[OF order_refl] by linarith
qed

lemma pos_le: "pos rs k \<le> pos rs (length rs)"
proof -
  have "concat rs = concat (take k rs) @ concat (drop k rs)" by (metis append_take_drop_id concat_append)
  then have "length (concat rs) = length (concat (take k rs)) + length (concat (drop k rs))" by (metis length_append)
  then show ?thesis by (simp add: pos_def)
qed

lemma sub_self: "a + b < 2 ^ 32 \<Longrightarrow> sub_w (of_nat (a + b) :: u32) (of_nat a) = Inr (of_nat b)"
proof -
  assume l: "a + b < 2 ^ 32"
  have "unat (of_nat (a + b) :: u32) = a + b" "unat (of_nat a :: u32) = a" using l by (auto intro!: unat_of_nat_small simp del: of_nat_add)
  then have "(of_nat a :: u32) \<le> of_nat (a + b)" by (simp add: word_le_nat_alt del: of_nat_add)
  then show ?thesis by (simp add: sub_w_def)
qed

lemma nth_records:
  assumes at: "madt_at mem self rs" and i: "rec_index (unat n) \<le> length rs" and ne: "rs \<noteq> []"
  shows "madt_nth mem self n = Inr (self + pos rs (rec_index (unat n)), of_nat (pos rs (rec_index (unat n))))"
proof (cases "n = 0")
  case True
  have "self + 44 < 2 ^ 32" using at pos_le[of rs 0] by (simp add: madt_at_def pos_def)
  then show ?thesis using True sub_self[of self 44] by (simp add: madt_nth_def rec_index_def pos_def)
next
  case False
  then have n: "0 < unat n" by (simp add: unat_gt_0)
  obtain r rs' where rs: "rs = r # rs'" using ne by (cases rs) auto
  have st: "stored mem (self + 44) (r @ concat rs')" and g: "good_record r" "\<forall>x \<in> set rs'. good_record x"
    and b: "self + 44 + length r + length (concat rs') < 2 ^ 32" using at by (auto simp: madt_at_def rs pos_def)
  let ?k = "unat n - 1 - 1"
  have k: "?k \<le> length rs'" "rec_index (unat n) = Suc ?k" using i n by (auto simp: rec_index_def rs split: if_splits)
  have st': "stored mem (self + 44 + length r) (concat rs')" using st by (simp add: stored_append)
  have bb: "self + 44 + length r < 2 ^ 32" using b by simp
  have w: "madt_walk mem ?k (of_nat (self + 44 + length r)) = Inr (of_nat (self + 44 + length r + length (concat (take ?k rs'))))"
    by (rule walk_records[OF st' g(2) b k(1)])
  have p: "self + 44 + length r + length (concat (take ?k rs')) = self + pos rs (rec_index (unat n))" unfolding k(2) by (simp add: pos_def rs)
  have lt: "self + pos rs (rec_index (unat n)) < 2 ^ 32" using at pos_le[of rs "rec_index (unat n)"] by (simp add: madt_at_def)
  then have "unat (of_nat (self + pos rs (rec_index (unat n))) :: u32) = self + pos rs (rec_index (unat n))"
    by (intro unat_of_nat_small) simp
  moreover have "read_le mem (self + 44 + 1) 1 = Inr (of_nat (length r) :: u8)" using read_record(1)[OF st g(1)] by simp
  ultimately show ?thesis
    using False step_record[OF g(1) bb] w[unfolded p] sub_self[OF lt] by (simp add: madt_nth_def del: of_nat_add)
qed

lemma record_type:
  assumes "madt_at mem self rs" and "k < length rs"
  shows "read_le mem (self + pos rs k) 1 = Inr (rs ! k ! 0)"
proof -
  have c: "concat rs = concat (take k rs) @ rs ! k @ concat (drop (Suc k) rs)"
    using assms(2) by (metis concat.simps(2) concat_append id_take_nth_drop)
  have "stored mem (self + 44) (concat rs)" using assms(1) by (simp add: madt_at_def)
  then have "stored mem (self + pos rs k) (rs ! k @ concat (drop (Suc k) rs))"
    unfolding c by (simp add: stored_append pos_def add.assoc)
  then show ?thesis using assms by (intro read_record(2)) (auto simp: madt_at_def)
qed

lemma unat_pos: "madt_at mem self rs \<Longrightarrow> unat (of_nat (pos rs k) :: u32) = pos rs k"
  using pos_le[of rs k] by (intro unat_of_nat_small) (simp add: madt_at_def)

lemma search_found:
  assumes at: "madt_at mem self rs" and j: "j < length rs" "rs ! j ! 0 = ty" "\<forall>k < j. rs ! k ! 0 \<noteq> ty"
    and len: "unat len = pos rs (length rs)"
  shows "rec_index (unat i) \<le> j \<Longrightarrow> off \<le> len \<Longrightarrow> madt_search mem self len ty off i = Some (Inr (Some (self + pos rs j)))"
proof (induction "Suc j - unat i" arbitrary: i off rule: less_induct)
  case less
  let ?x = "rec_index (unat i)"
  have ne: "rs \<noteq> []" using j(1) by auto
  have x: "?x < length rs" using less.prems(1) j(1) by simp
  have lrs: "length rs < 2 ^ 32"
  proof -
    have "length rs \<le> length (concat rs)" using at
    proof -
      have "\<forall>r \<in> set rs. 1 \<le> length r" using at by (auto simp: madt_at_def good_record_def)
      then show ?thesis by (induction rs) auto
    qed
    then show ?thesis using at by (simp add: madt_at_def pos_def)
  qed
  have n: "madt_nth mem self i = Inr (self + pos rs ?x, of_nat (pos rs ?x))" using nth_records[OF at _ ne] x by simp
  have t: "read_le mem (self + pos rs ?x) 1 = Inr (rs ! ?x ! 0)" using record_type[OF at x] .
  show ?case
  proof (cases "rs ! ?x ! 0 = ty")
    case True
    with j(3) less.prems(1) have "?x = j" by (metis le_neq_implies_less)
    then show ?thesis using n t True less.prems(2) by (subst madt_search.simps) simp
  next
    case False
    then have xj: "?x < j" using j(2) less.prems(1) by (metis le_neq_implies_less)
    then have i: "unat i \<le> j" by (auto simp: rec_index_def split: if_splits)
    have i1: "add_w i 1 = Inr (i + 1)" "unat (i + 1) = unat i + 1"
      using i j(1) lrs unat_add_small[of i 1] by (simp_all add: add_w_def)
    have "of_nat (pos rs ?x) \<le> len" using pos_le[of rs ?x] unat_pos[OF at, of ?x] len by (simp add: word_le_nat_alt)
    moreover have "rec_index (unat (i + 1)) \<le> j" using xj i unfolding i1(2) by (auto simp: rec_index_def split: if_splits)
    ultimately have "madt_search mem self len ty (of_nat (pos rs ?x)) (i + 1) = Some (Inr (Some (self + pos rs j)))"
      using less.hyps[of "i + 1"] i unfolding i1(2) by simp
    then show ?thesis using n t False less.prems(2) i1(1) by (subst madt_search.simps) simp
  qed
qed

lemma madt_record_first:
  assumes "madt_at mem self rs" and "j < length rs" and "rs ! j ! 0 = ty" and "\<forall>k < j. rs ! k ! 0 \<noteq> ty"
  shows "get_record_of_type mem self ty = Some (Inr (Some (self + 44 + length (concat (take j rs)))))"
proof -
  obtain h where h: "read_acpi_header mem self = Inr h" "unat (acpi_len h) = pos rs (length rs)" using assms(1) by (auto simp: madt_at_def)
  then show ?thesis using search_found[OF assms h(2), of 0 0] by (simp add: get_record_of_type_def rec_index_def pos_def)
qed


text \<open>
  C28: when the table of interrupt controllers holds a record of the wanted type, \<open>get_record_of_type\<close> ends and returns the address of the first one, although
  \<open>nth(1)\<close> and \<open>nth(2)\<close> are the same record.
\<close>
theorem madt_record_found:
  assumes "madt_at mem self rs" and "j < length rs" and "rs ! j ! 0 = ty" and "\<forall>k < j. rs ! k ! 0 \<noteq> ty"
  shows "get_record_of_type mem self ty = Some (Inr (Some (self + 44 + length (concat (take j rs)))))"
  using assms by (rule madt_record_first)

section \<open>A record that is missing\<close>

text \<open>Behind the table there is a record of length zero, as zeroed memory is.\<close>

lemma walk_zero: "read_le mem (unat r + 1) 1 = Inr (0 :: u8) \<Longrightarrow> madt_walk mem k r = Inr r"
proof (induction k)
  case (Suc k)
  have "unat r < 2 ^ LENGTH(32)" by (rule unsigned_less)
  with Suc show ?case by (simp add: add_w_def)
qed simp

lemma nth_behind:
  assumes at: "madt_at mem self rs" and ne: "rs \<noteq> []" and z: "read_le mem (self + pos rs (length rs) + 1) 1 = Inr (0 :: u8)"
  shows "madt_nth mem self n = Inr (self + pos rs (min (rec_index (unat n)) (length rs)), of_nat (pos rs (min (rec_index (unat n)) (length rs))))"
proof (cases "rec_index (unat n) \<le> length rs")
  case True
  then show ?thesis using nth_records[OF at _ ne] by (simp add: min_absorb1)
next
  case False
  let ?e = "self + pos rs (length rs)" and ?l = "length rs"
  have big: "?l < rec_index (unat n)" using False by simp
  then have n: "Suc (Suc ?l) \<le> unat n" "n \<noteq> 0" using ne by (cases rs, auto simp: rec_index_def split: if_splits)+
  have "unat n < 2 ^ LENGTH(64)" by (rule unsigned_less)
  then have l1: "unat (of_nat (Suc ?l) :: usize) = Suc ?l" using n(1) by (intro unat_of_nat_small) linarith
  have "rec_index (unat (of_nat (Suc ?l) :: usize)) = ?l" using ne unfolding l1 by (cases rs) (auto simp: rec_index_def)
  with nth_records[OF at, of "of_nat (Suc ?l)"] ne
  have base: "madt_nth mem self (of_nat (Suc ?l)) = Inr (?e, of_nat (pos rs ?l))" by simp
  have k: "unat n - 1 - 1 = (Suc ?l - 1 - 1) + (unat n - Suc ?l)" using n(1) ne by (cases rs) auto
  have nz: "(of_nat (Suc ?l) :: usize) \<noteq> 0" using l1 by (metis unat_0 nat.distinct(1))
  from base obtain len r0 r where c: "read_le mem (self + 44 + 1) 1 = Inr (len :: u8)" "add_w (of_nat (self + 44)) (ucast len) = Inr r0"
    "madt_walk mem (Suc ?l - 1 - 1) r0 = Inr r" "sub_w r (of_nat self) = Inr (of_nat (pos rs ?l))" "unat r = ?e"
    unfolding madt_nth_def l1 using nz by (auto simp: rbind_eq_Inr)
  have "madt_walk mem (unat n - 1 - 1) r0 = Inr r"
    unfolding k walk_add c(3) using walk_zero[of mem r] z c(5) by simp
  then show ?thesis using n(2) c False by (simp add: madt_nth_def)
qed

lemma search_missing:
  assumes at: "madt_at mem self rs" and ne: "rs \<noteq> []" and other: "\<forall>r \<in> set rs. r ! 0 \<noteq> ty"
    and z: "read_le mem (self + pos rs (length rs)) 1 = Inr (t :: u8)" "t \<noteq> ty"
      "read_le mem (self + pos rs (length rs) + 1) 1 = Inr (0 :: u8)"
    and len: "unat len = pos rs (length rs)"
  shows "off \<le> len \<Longrightarrow> madt_search mem self len ty off i = Some (Inl ArithmeticOverflow)"
proof (induction "2 ^ 64 - unat i" arbitrary: i off rule: less_induct)
  case less
  let ?x = "min (rec_index (unat i)) (length rs)"
  note n = nth_behind[OF at ne z(3), of i]
  have "\<exists>u :: u8. read_le mem (self + pos rs ?x) 1 = Inr u \<and> u \<noteq> ty"
  proof (cases "rec_index (unat i) < length rs")
    case True
    then show ?thesis using record_type[OF at True] other by simp
  next
    case False
    then show ?thesis using z(1,2) by (simp add: min_absorb2)
  qed
  then obtain u :: u8 where u: "read_le mem (self + pos rs ?x) 1 = Inr u" "u \<noteq> ty" by blast
  show ?case
  proof (cases "unat i + 1 < 2 ^ 64")
    case True
    then have i1: "add_w i 1 = Inr (i + 1)" "unat (i + 1) = unat i + 1" using unat_add_small[of i 1] by (simp_all add: add_w_def)
    have "of_nat (pos rs ?x) \<le> len" using pos_le[of rs ?x] unat_pos[OF at, of ?x] len by (simp add: word_le_nat_alt)
    then have "madt_search mem self len ty (of_nat (pos rs ?x)) (i + 1) = Some (Inl ArithmeticOverflow)"
      using True by (intro less.hyps) (simp_all add: i1(2))
    then show ?thesis using n u i1(1) less.prems by (subst madt_search.simps) simp
  next
    case False
    then have "add_w i 1 = Inl ArithmeticOverflow" by (simp add: add_w_def)
    then show ?thesis using n u less.prems by (subst madt_search.simps) simp
  qed
qed

text \<open>
  C36: when the table holds no record of the wanted type and the memory behind it is zero (or any record of length zero and another type), \<open>get_record_of_type\<close> does not
  return \<open>None\<close>: the bound of its loop lets it read behind the table, where it stays at the same place until the counter overflows after
  two to the sixty-fourth rounds.
\<close>
theorem madt_record_missing_hangs:
  assumes "madt_at mem self rs" and "rs \<noteq> []" and "\<forall>r \<in> set rs. r ! 0 \<noteq> ty"
    and "stored mem (self + 44 + length (concat rs)) [t, 0]" and "t \<noteq> ty"
  shows "get_record_of_type mem self ty = Some (Inl ArithmeticOverflow)"
proof -
  obtain h where h: "read_acpi_header mem self = Inr h" "unat (acpi_len h) = pos rs (length rs)" using assms(1) by (auto simp: madt_at_def)
  have p: "self + 44 + length (concat rs) = self + pos rs (length rs)" by (simp add: pos_def)
  have "read_le mem (self + pos rs (length rs)) 1 = Inr t" "read_le mem (self + pos rs (length rs) + 1) 1 = Inr (0 :: u8)"
    using stored_nth[OF assms(4)[unfolded p], of 0] stored_nth[OF assms(4)[unfolded p], of 1] by simp_all
  then show ?thesis using search_missing[OF assms(1-3) _ assms(5) _ h(2), of 0 0] h(1) by (simp add: get_record_of_type_def)
qed

section \<open>An example\<close>

text \<open>A MADT at address zero with a local APIC (type 0) and an I/O APIC (type 1), then zeros.\<close>

definition example_records :: "u8 list list" where
  "example_records = [[0, 8, 0, 0, 1, 0, 0, 0], [1, 12, 0, 0, 0, 0, 192, 254, 0, 0, 0, 0]]"

definition example_madt :: memory where
  "example_madt = map Some (bytes_of ''APIC'' @ [64, 0, 0, 0] @ replicate 36 0 @ concat example_records @ [0, 0])"

lemma example_madt_at: "madt_at example_madt 0 example_records"
proof -
  have "read_acpi_header example_madt 0 = Inr (decode_acpi_header (bytes_of ''APIC'' @ [64, 0, 0, 0] @ replicate 28 0))"
    by (simp add: read_acpi_header_def read_bytes_def example_madt_def bytes_of_def numeral_eq_Suc)
  moreover have "unat (acpi_len (decode_acpi_header (bytes_of ''APIC'' @ [64, 0, 0, 0] @ replicate 28 0))) = 64"
    by (simp add: decode_acpi_header_def field_def bytes_of_def)
  moreover have "pos example_records (length example_records) = 64" by (simp add: pos_def example_records_def)
  moreover have "stored example_madt (0 + 44) (concat example_records)"
    by (simp add: stored_def example_madt_def bytes_of_def)
  moreover have "\<forall>r \<in> set example_records. good_record r" by (simp add: good_record_def example_records_def)
  ultimately show ?thesis by (simp add: madt_at_def)
qed

theorem madt_record_found_witness: "get_record_of_type example_madt 0 1 = Some (Inr (Some 52))"
  using madt_record_found[OF example_madt_at, of 1 1] by (simp add: example_records_def)

theorem madt_record_missing_hangs_witness: "get_record_of_type example_madt 0 2 = Some (Inl ArithmeticOverflow)"
proof -
  have "stored example_madt (0 + 44 + length (concat example_records)) [0, 0]"
    by (simp add: stored_def example_madt_def bytes_of_def example_records_def)
  then show ?thesis
    using madt_record_missing_hangs[OF example_madt_at, of 2 0] by (simp add: example_records_def)
qed

section \<open>Finding a table\<close>

text \<open>The page and the frame of a 32-bit address.\<close>

abbreviation page_base :: "u32 \<Rightarrow> usize" where
  "page_base a \<equiv> ucast a AND NOT (mask 12)"

lemma addr_ok_u32: "addr_ok (page_base a)"
  unfolding addr_ok_def ADDR_MASK_eq
  by (rule bit_word_eqI) (auto simp: bit_simps dest: bit_imp_le_length)

lemma unat_ucast_u32: "unat (ucast (a :: u32) :: usize) = unat a"
proof -
  have "unat a < 2 ^ LENGTH(32)" by (rule unsigned_less)
  then show ?thesis by (simp add: unsigned_ucast_eq unsigned_take_bit_eq take_bit_nat_eq_self)
qed

lemma identity_map_spec:
  assumes wf: "wf_space m root L" and root: "current_root_table m = Inr root" and fr: "3 \<le> card (free_frames (frames m))"
  shows "\<exists>m' L'. identity_map_present (ucast a) m = Inr m' \<and> evolves m root L 3 m' L' \<and>
    pt_entry m' root \<lparr>page_start = page_base a\<rparr> = Some (entry_new PRESENT (page_base a))"
proof -
  have "flags_ok PRESENT" by (simp add: flags_ok_def all_flags_val PRESENT_def)
  from map_to_spec[OF wf this, of "\<lparr>start_address = page_base a\<rparr>" "\<lparr>page_start = page_base a\<rparr>"] addr_ok_u32[of a] fr
  obtain m' L' where m': "map_to root \<lparr>page_start = page_base a\<rparr> \<lparr>start_address = page_base a\<rparr> PRESENT m = Inr (Inr (), m')"
    "evolves m root L 3 m' L'" "pt_entry m' root \<lparr>page_start = page_base a\<rparr> = Some (entry_new PRESENT (page_base a))"
    by (auto simp: map_to_post_def)
  then show ?thesis
    by (auto simp: identity_map_present_def root page_containing_eq frame_containing_address_eq)
qed

lemma search_signatrue_spec:
  assumes wf: "wf_space m root L" and root: "current_root_table m = Inr root" and fr: "3 * length addrs \<le> card (free_frames (frames m))"
    and st: "stored mem (self + 36 + 4 * unat i) (concat (map (\<lambda>a. le_enc 4 (unat a)) addrs))"
    and hdr: "\<forall>a \<in> set addrs. read_acpi_header mem (unat a) = Inr (hdr a)" and b: "unat i + length addrs < 2 ^ 32"
  shows "\<exists>m' L'. search_signatrue mem self sig (length addrs) i m =
      Inr (map_option ucast (find (\<lambda>a. signatrue (hdr a) = sig) addrs), m') \<and> evolves m root L (3 * length addrs) m' L' \<and>
    (\<forall>a. find (\<lambda>a. signatrue (hdr a) = sig) addrs = Some a \<longrightarrow>
      pt_entry m' root \<lparr>page_start = page_base a\<rparr> = Some (entry_new PRESENT (page_base a)))"
  using assms
proof (induction addrs arbitrary: m L i)
  case Nil
  then show ?case using evolves_refl by auto
next
  case (Cons a addrs)
  have "3 \<le> card (free_frames (frames m))" using Cons.prems(3) by simp
  from identity_map_spec[OF Cons.prems(1,2) this, of a] obtain m1 L1 where m1: "identity_map_present (ucast a) m = Inr m1"
    "evolves m root L 3 m1 L1" "pt_entry m1 root \<lparr>page_start = page_base a\<rparr> = Some (entry_new PRESENT (page_base a))" by blast
  have st: "stored mem (self + 36 + 4 * unat i) (le_enc 4 (unat a))"
    "stored mem (self + 36 + 4 * unat i + 4) (concat (map (\<lambda>a. le_enc 4 (unat a)) addrs))" using Cons.prems(4) by (simp_all add: stored_append del: le_enc.simps)
  have i4: "unat (i * 4) = 4 * unat i" "mul_w i 4 = Inr (i * 4)"
    using Cons.prems(6) unat_mul_small[of i 4] by (simp_all add: mul_w_def)
  have "\<exists>t. add_w 36 (i * 4) = Inr t" using Cons.prems(6) i4(1) by (simp add: add_w_def)
  then have nth: "\<exists>t. rsdt_nth mem self i m = Inr ((ucast a, t), m1)"
    using i4 read_le_stored[OF st(1)] m1(1) by (auto simp: rsdt_nth_def)
  note ua = unat_ucast_u32[of a]
  have h: "read_acpi_header mem (unat a) = Inr (hdr a)" using Cons.prems(5) by simp
  show ?case
  proof (cases "signatrue (hdr a) = sig")
    case True
    then show ?thesis using nth h m1 ua evolves_mono[OF m1(2), of "3 * length (a # addrs)"] by auto
  next
    case False
    have i1: "unat (i + 1) = unat i + 1" using Cons.prems(6) unat_add_small[of i 1] by simp
    have root1: "current_root_table m1 = Inr root" using evolves_root[OF m1(2)] Cons.prems(2) by simp
    have "card (free_frames (frames m)) \<le> card (free_frames (frames m1)) + 3" using m1(2) by (simp add: evolves_def keeps_def)
    then have fr: "3 * length addrs \<le> card (free_frames (frames m1))" using Cons.prems(3) by simp
    have st2: "stored mem (self + 36 + 4 * unat (i + 1)) (concat (map (\<lambda>a. le_enc 4 (unat a)) addrs))"
      using st(2) unfolding i1 by (simp add: algebra_simps)
    have bb: "unat (i + 1) + length addrs < 2 ^ 32" using Cons.prems(6) unfolding i1 by simp
    have hh: "\<forall>a \<in> set addrs. read_acpi_header mem (unat a) = Inr (hdr a)" using Cons.prems(5) by simp
    from Cons.IH[OF evolves_wf[OF m1(2)] root1 fr st2 hh bb] obtain m' L' where m': "search_signatrue mem self sig (length addrs) (i + 1) m1 =
        Inr (map_option ucast (find (\<lambda>a. signatrue (hdr a) = sig) addrs), m')" "evolves m1 root L1 (3 * length addrs) m' L'"
      "\<forall>a. find (\<lambda>a. signatrue (hdr a) = sig) addrs = Some a \<longrightarrow>
        pt_entry m' root \<lparr>page_start = page_base a\<rparr> = Some (entry_new PRESENT (page_base a))" by blast
    have "evolves m root L (3 * length (a # addrs)) m' L'" using evolves_trans[OF m1(2) m'(2)] by simp
    then show ?thesis using m'(1,3) False nth h ua by auto
  qed
qed

text \<open>
  Looking up a table of the firmware: with a root table that lists \<open>addrs\<close>, and three free frames for each of them, \<open>get_entry_of_signatrue\<close> does not panic and returns the first table with the
  signature, or \<open>None\<close> if there is none. The table it returns is mapped to itself, read-only, and the address space stays well formed.
\<close>
lemma get_entry_spec:
  assumes "wf_space m root L" and "current_root_table m = Inr root" and "3 * length addrs \<le> card (free_frames (frames m))"
    and "read_acpi_header mem self = Inr h" and "unat (acpi_len h) = 36 + 4 * length addrs"
    and "stored mem (self + 36) (concat (map (\<lambda>a. le_enc 4 (unat a)) addrs))"
    and "\<forall>a \<in> set addrs. read_acpi_header mem (unat a) = Inr (hdr a)"
  shows "\<exists>m' L'. get_entry_of_signatrue mem self sig m =
      Inr (map_option ucast (find (\<lambda>a. signatrue (hdr a) = sig) addrs), m') \<and> evolves m root L (3 * length addrs) m' L' \<and>
    (\<forall>a. find (\<lambda>a. signatrue (hdr a) = sig) addrs = Some a \<longrightarrow>
      pt_entry m' root \<lparr>page_start = page_base a\<rparr> = Some (entry_new PRESENT (page_base a)))"
proof -
  have ul: "unat (ucast (acpi_len h) :: usize) = 36 + 4 * length addrs"
    using assms(5) by (simp add: unat_ucast_u32)
  have le: "(36 :: usize) \<le> ucast (acpi_len h)" using ul by (simp add: word_le_nat_alt)
  then have "unat (ucast (acpi_len h) - 36 :: usize) = 4 * length addrs" using ul by (simp add: unat_sub_small)
  then have c: "\<exists>n. rsdt_count h = Inr n \<and> unat n = length addrs" using le by (simp add: rsdt_count_def sub_w_def unat_div)
  have "unat (acpi_len h) < 2 ^ LENGTH(32)" by (rule unsigned_less)
  then have "unat (0 :: usize) + length addrs < 2 ^ 32" using assms(5) by simp
  from search_signatrue_spec[OF assms(1-3) _ assms(7) this] assms(6) c show ?thesis
    by (auto simp: get_entry_of_signatrue_def assms(4))
qed

definition example_tables :: memory where
  "example_tables = map Some (bytes_of ''RSDT'' @ [40, 0, 0, 0] @ replicate 28 0 @ le_enc 4 40 @ bytes_of ''APIC'' @ replicate 32 0)"

lemma get_entry_spec_example:
  "\<exists>m'. get_entry_of_signatrue example_tables 0 (bytes_of ''APIC'') example_machine = Inr (Some 40, m')"
proof -
  let ?r = "decode_acpi_header (bytes_of ''RSDT'' @ [40, 0, 0, 0] @ replicate 28 0)" and ?a = "decode_acpi_header (bytes_of ''APIC'' @ replicate 32 0)"
  have s: "stored example_tables 0 (bytes_of ''RSDT'' @ [40, 0, 0, 0] @ replicate 28 0)"
    "stored example_tables 40 (bytes_of ''APIC'' @ replicate 32 0)" "stored example_tables (0 + 36) (concat (map (\<lambda>a. le_enc 4 (unat a)) [40 :: u32]))"
    by (simp_all add: stored_def example_tables_def bytes_of_def del: le_enc.simps)
  have h: "read_acpi_header example_tables 0 = Inr ?r" "\<forall>a \<in> set [40 :: u32]. read_acpi_header example_tables (unat a) = Inr ?a"
    using read_stored[OF s(1), of 36] read_stored[OF s(2), of 36] by (simp_all add: read_acpi_header_def bytes_of_def)
  have l: "unat (acpi_len ?r) = 36 + 4 * length [40 :: u32]" by (simp add: decode_acpi_header_def field_def bytes_of_def)
  have g: "signatrue ?a = bytes_of ''APIC''" by (simp add: decode_acpi_header_def bytes_of_def)
  have f: "3 * length [40 :: u32] \<le> card (free_frames (frames example_machine))" using example_machine_frames by simp
  from get_entry_spec[OF example_machine_wf example_machine_root f h(1) l s(3) h(2), of "bytes_of ''APIC''"] g
  show ?thesis by auto
qed

end
