(* ===== verification/Power_Control.thy ===== *)
theory Power_Control
  imports Serial Acpi_Props
begin

text \<open>
  The fixed table of \<open>kernel/src/arch/x86_64/acpi.rs\<close>, the handshake \<open>enable_acpi\<close> with the firmware, and
  \<open>kernel/src/arch/x86_64/power.rs\<close>: shutting down and rebooting.
\<close>

section \<open>The fixed table\<close>

record gas =
  address_space :: u8
  bit_width :: u8
  bit_offset :: u8
  access_size :: u8
  gas_address :: u64

definition decode_gas :: "u8 list \<Rightarrow> gas" where
  "decode_gas b =
     \<lparr>address_space = field b 0 1, bit_width = field b 1 1, bit_offset = field b 2 1, access_size = field b 3 1,
      gas_address = field b 4 8\<rparr>"

record fadt =
  fadt_header :: acpi_header
  firmware_ctrl :: u32
  dsdt :: u32
  fadt_reserved :: u8
  preferred_pm_profile :: u8
  sci_int :: u16
  smi_cmd :: u32
  acpi_enable :: u8
  acpi_disable :: u8
  s4bios_req :: u8
  pstate_cnt :: u8
  pm1a_evt_blk :: u32
  pm1b_evt_blk :: u32
  pm1a_cnt_blk :: u32
  pm1b_cnt_blk :: u32
  pm2_cnt_blk :: u32
  pm_tmr_blk :: u32
  gpe0_blk :: u32
  gpe1_blk :: u32
  pm1_evt_len :: u8
  pm1_cnt_len :: u8
  pm2_cnt_len :: u8
  pm_tmr_len :: u8
  gpe0_blk_len :: u8
  gpe1_blk_len :: u8
  gpe1_base :: u8
  cst_cnt :: u8
  p_lvl2_lat :: u16
  p_lvl3_lat :: u16
  flush_size :: u16
  flush_stride :: u16
  duty_offset :: u8
  duty_width :: u8
  day_alrm :: u8
  mon_alrm :: u8
  century :: u8
  iapc_boot_arch :: u16
  fadt_reserved2 :: u8
  fadt_flags :: u32
  reset_reg :: gas
  reset_value :: u8
  arm_boot_arch :: u16
  fadt_minor_version :: u8
  x_firmware_ctrl :: u64
  x_dsdt :: u64
  x_pm1a_evt_blk :: gas
  x_pm1b_evt_blk :: gas
  x_pm1a_cnt_blk :: gas
  x_pm1b_cnt_blk :: gas
  x_pm2_cnt_blk :: gas
  x_pm_tmr_blk :: gas
  x_gpe0_blk :: gas
  x_gpe1_blk :: gas
  sleep_control_reg :: gas
  sleep_status_reg :: gas
  hypervisor_vendor_id :: u64

definition decode_fadt :: "u8 list \<Rightarrow> fadt" where
  "decode_fadt b =
    \<lparr>fadt_header = decode_acpi_header (take 36 b), firmware_ctrl = field b 36 4, dsdt = field b 40 4,
     fadt_reserved = field b 44 1, preferred_pm_profile = field b 45 1, sci_int = field b 46 2,
     smi_cmd = field b 48 4, acpi_enable = field b 52 1, acpi_disable = field b 53 1, s4bios_req = field b 54 1,
     pstate_cnt = field b 55 1, pm1a_evt_blk = field b 56 4, pm1b_evt_blk = field b 60 4,
     pm1a_cnt_blk = field b 64 4, pm1b_cnt_blk = field b 68 4, pm2_cnt_blk = field b 72 4, pm_tmr_blk = field b 76 4,
     gpe0_blk = field b 80 4, gpe1_blk = field b 84 4, pm1_evt_len = field b 88 1, pm1_cnt_len = field b 89 1,
     pm2_cnt_len = field b 90 1, pm_tmr_len = field b 91 1, gpe0_blk_len = field b 92 1, gpe1_blk_len = field b 93 1,
     gpe1_base = field b 94 1, cst_cnt = field b 95 1, p_lvl2_lat = field b 96 2, p_lvl3_lat = field b 98 2,
     flush_size = field b 100 2, flush_stride = field b 102 2, duty_offset = field b 104 1,
     duty_width = field b 105 1, day_alrm = field b 106 1, mon_alrm = field b 107 1, century = field b 108 1,
     iapc_boot_arch = field b 109 2, fadt_reserved2 = field b 111 1, fadt_flags = field b 112 4,
     reset_reg = decode_gas (drop 116 b), reset_value = field b 128 1, arm_boot_arch = field b 129 2,
     fadt_minor_version = field b 131 1, x_firmware_ctrl = field b 132 8, x_dsdt = field b 140 8,
     x_pm1a_evt_blk = decode_gas (drop 148 b), x_pm1b_evt_blk = decode_gas (drop 160 b),
     x_pm1a_cnt_blk = decode_gas (drop 172 b), x_pm1b_cnt_blk = decode_gas (drop 184 b),
     x_pm2_cnt_blk = decode_gas (drop 196 b), x_pm_tmr_blk = decode_gas (drop 208 b),
     x_gpe0_blk = decode_gas (drop 220 b), x_gpe1_blk = decode_gas (drop 232 b),
     sleep_control_reg = decode_gas (drop 244 b), sleep_status_reg = decode_gas (drop 256 b),
     hypervisor_vendor_id = field b 268 8\<rparr>"

definition read_fadt :: "memory \<Rightarrow> nat \<Rightarrow> fadt rust" where
  "read_fadt mem a = rbind (read_bytes mem a 276) (\<lambda>b. Inr (decode_fadt b))"

section \<open>Enabling ACPI\<close>

partial_function (option) poll_smi :: "device \<Rightarrow> u16 \<Rightarrow> io_log \<Rightarrow> io_log option" where
  "poll_smi dev port h =
     (case inw dev port h of (v, h1) \<Rightarrow>
        if v AND 1 = 0 then Option.bind (serial dev (''stuff'' @ [CHR 0x0A]) h1) (poll_smi dev port) else Some h1)"

definition enable_acpi :: "device \<Rightarrow> fadt \<Rightarrow> io_log \<Rightarrow> io_log rust option" where
  "enable_acpi dev fadt h =
     (if smi_cmd fadt = 0 \<or> acpi_enable fadt = acpi_disable fadt \<and> acpi_disable fadt = 0 then Some (Inr h)
      else case inw dev (ucast (pm1a_cnt_blk fadt)) h of (v, h1) \<Rightarrow>
        if v AND 1 = 1 then Some (Inr h1)
        else
          Option.bind (serial dev (''enabling the acpi... smi: 0x'' @ fmt_X (ucast (smi_cmd fadt) :: u16) @ '', enable: 0x'' @
              fmt_X (acpi_enable fadt) @ [CHR 0x0A]) h1) (\<lambda>h2.
          Option.bind (poll_smi dev (ucast (smi_cmd fadt)) (outb (ucast (smi_cmd fadt)) (acpi_enable fadt) h2)) (\<lambda>h3.
          case inw dev (ucast (pm1a_evt_blk fadt)) h3 of (v, h4) \<Rightarrow>
            Some (if v AND 1 = 0 then Inl ExplicitPanic else Inr h4))))"

section \<open>Power\<close>

definition SLP_TYP_S5 :: u16 where "SLP_TYP_S5 = 0x1C00"
definition SLP_EN :: u16 where "SLP_EN = push_bit 13 1"

definition shutdown :: "memory \<Rightarrow> u64 option \<Rightarrow> machine \<Rightarrow> io_log \<Rightarrow> (io_log \<times> machine) rust" where
  "shutdown mem rsdp_addr m h =
     rbind (get_sdt mem rsdp_addr m) (\<lambda>(sdt, m1).
     rbind (fadt_get mem sdt m1) (\<lambda>(a, m2).
     rbind (read_fadt mem (unat a)) (\<lambda>fadt.
     let shutdown_command = SLP_TYP_S5 OR SLP_EN;
         h = outw (ucast (pm1a_cnt_blk fadt)) shutdown_command h;
         h = (if pm1b_cnt_blk fadt \<noteq> 0 then outw (ucast (pm1b_cnt_blk fadt)) shutdown_command h else h);
         h = outw 0xB004 0x2000 h
     in Inr (outw 0x604 0x2000 h, m2))))"

text \<open>The pretty-printed form of the derived \<open>Debug\<close>.\<close>

definition gas_debug :: "gas \<Rightarrow> string" where
  "gas_debug g =
     ''GenericAddressStructure {'' @ [CHR 0x0A] @
     ''    address_space: '' @ fmt_dec (address_space g) @ '','' @ [CHR 0x0A] @
     ''    bit_width: '' @ fmt_dec (bit_width g) @ '','' @ [CHR 0x0A] @
     ''    bit_offset: '' @ fmt_dec (bit_offset g) @ '','' @ [CHR 0x0A] @
     ''    access_size: '' @ fmt_dec (access_size g) @ '','' @ [CHR 0x0A] @
     ''    address: '' @ fmt_dec (gas_address g) @ '','' @ [CHR 0x0A] @ ''}''"

text \<open>
  With the empty table that \<open>lidt\<close> loads, the processor cannot handle the breakpoint and resets the machine: the message and the \<open>sti\<close>
  behind \<open>int3\<close> are not reached.
\<close>

definition reboot :: "device \<Rightarrow> memory \<Rightarrow> u64 option \<Rightarrow> machine \<Rightarrow> io_log \<Rightarrow> (io_log \<times> machine) rust option" where
  "reboot dev mem rsdp_addr m h =
     (case rbind (get_sdt mem rsdp_addr m) (\<lambda>(sdt, m1).
           rbind (fadt_get mem sdt m1) (\<lambda>(a, m2).
           rbind (read_fadt mem (unat a)) (\<lambda>fadt. Inr (fadt, m2)))) of
        Inl p \<Rightarrow> Some (Inl p)
      | Inr (fadt, m2) \<Rightarrow>
          map_option (\<lambda>h. Inr (h @ [Lidt, Int3], m2))
            (if address_space (reset_reg fadt) = 1 then
               Some (outb (ucast (gas_address (reset_reg fadt))) (reset_value fadt) (h @ [Cli]))
             else serial dev (''unknown fadt reset_reg? '' @ gas_debug (reset_reg fadt) @ [CHR 0x0A]) (h @ [Cli])))"

section \<open>The handshake\<close>

lemma poll_smi_hangs: "\<forall>h. answer16 dev h port AND 1 = 0 \<Longrightarrow> poll_smi dev port h = Some r \<Longrightarrow> False"
  by (erule poll_smi.raw_induct [where P = "\<lambda>dev port h r. \<not> (\<forall>h. answer16 dev h port AND 1 = 0)", rotated, THEN notE])
     (auto simp: inw_def bind_eq_Some_conv split: if_splits)

lemma poll_smi_done: "answer16 dev h port AND 1 \<noteq> 0 \<Longrightarrow> poll_smi dev port h = Some (h @ [In16 port])"
  by (subst poll_smi.simps) (simp add: inw_def)

text \<open>The history when the command has been given: one read, the message and the write.\<close>

definition commanded :: "device \<Rightarrow> fadt \<Rightarrow> io_log \<Rightarrow> io_log \<Rightarrow> bool" where
  "commanded dev f h h' \<longleftrightarrow>
     (\<exists>w s. transmits dev s (h @ [In16 (ucast (pm1a_cnt_blk f))]) w \<and> h' = w @ [Out8 (ucast (smi_cmd f)) (acpi_enable f)])"

lemma enable_acpi_command:
  assumes "drains dev" and "smi_cmd f \<noteq> 0" and "acpi_enable f \<noteq> 0" and "answer16 dev h (ucast (pm1a_cnt_blk f)) AND 1 \<noteq> 1"
  shows "\<exists>h'. commanded dev f h h' \<and> enable_acpi dev f h =
    Option.bind (poll_smi dev (ucast (smi_cmd f)) h') (\<lambda>h3.
      Some (if answer16 dev h3 (ucast (pm1a_evt_blk f)) AND 1 = 0 then Inl ExplicitPanic
            else Inr (h3 @ [In16 (ucast (pm1a_evt_blk f))])))"
proof -
  let ?s = "''enabling the acpi... smi: 0x'' @ fmt_X (ucast (smi_cmd f) :: u16) @ '', enable: 0x'' @ fmt_X (acpi_enable f) @ [CHR 0x0A]"
  have e: "\<not> (smi_cmd f = 0 \<or> acpi_enable f = acpi_disable f \<and> acpi_disable f = 0)" using assms by auto
  obtain w where w: "serial dev ?s (h @ [In16 (ucast (pm1a_cnt_blk f))]) = Some w"
    "transmits dev (bytes_of ?s) (h @ [In16 (ucast (pm1a_cnt_blk f))]) w" using serial_transmits[OF assms(1)] by blast
  then have "commanded dev f h (w @ [Out8 (ucast (smi_cmd f)) (acpi_enable f)])" by (auto simp: commanded_def)
  moreover have "enable_acpi dev f h = Option.bind (poll_smi dev (ucast (smi_cmd f)) (w @ [Out8 (ucast (smi_cmd f)) (acpi_enable f)])) (\<lambda>h3.
      Some (if answer16 dev h3 (ucast (pm1a_evt_blk f)) AND 1 = 0 then Inl ExplicitPanic
            else Inr (h3 @ [In16 (ucast (pm1a_evt_blk f))])))"
    using w(1) assms(4) unfolding enable_acpi_def if_not_P[OF e] inw_def outb_def prod.case by simp
  ultimately show ?thesis by blast
qed


text \<open>A machine that sets the bit in the control register at 0x604 as soon as the command has gone to port 0xB2.\<close>

definition switching :: device where
  "switching =
     \<lparr>answer8 = (\<lambda>h p. 0x20), answer16 = (\<lambda>h p. if p = 0x604 \<and> Out8 0xB2 0xF0 \<in> set h then 1 else 0)\<rparr>"

definition example_fadt :: fadt where
  "example_fadt = (decode_fadt [])\<lparr>smi_cmd := 0xB2, acpi_enable := 0xF0, acpi_disable := 0xF2, pm1a_evt_blk := 0x600, pm1a_cnt_blk := 0x604\<rparr>"

lemma drains_switching: "drains switching"
  by (auto simp: drains_def ready_at_def switching_def bit_iff_odd)


section \<open>Shutting down\<close>

text \<open>The pointer and the tables the firmware leaves in memory: the root pointer at \<open>r\<close>, the root table it names, and the tables \<open>addrs\<close>.\<close>

definition firmware_at :: "memory \<Rightarrow> u32 \<Rightarrow> u32 list \<Rightarrow> (u32 \<Rightarrow> acpi_header) \<Rightarrow> bool" where
  "firmware_at mem r addrs hdr \<longleftrightarrow>
     (\<exists>b h. read_bytes mem (unat r) 36 = Inr b \<and>
       (let root = unat (rsdt_addr (decode_rsdp b)) in
        read_acpi_header mem root = Inr h \<and> unat (acpi_len h) = 36 + 4 * length addrs \<and>
        stored mem (root + 36) (concat (map (\<lambda>a. le_enc 4 (unat a)) addrs))) \<and>
       (\<forall>a \<in> set addrs. read_acpi_header mem (unat a) = Inr (hdr a)))"

lemma evolves_card: "evolves m root L n m' L' \<Longrightarrow> n + k \<le> card (free_frames (frames m)) \<Longrightarrow> k \<le> card (free_frames (frames m'))"
  by (simp add: evolves_def keeps_def)

lemma find_table:
  assumes wf: "wf_space m root L" and root: "current_root_table m = Inr root" and fr: "6 + 3 * length addrs \<le> card (free_frames (frames m))"
    and fw: "firmware_at mem r addrs hdr"
  shows "\<exists>sdt m1 m' L'. get_sdt mem (Some (ucast r)) m = Inr (sdt, m1) \<and>
    get_entry_of_signatrue mem sdt sig m1 = Inr (map_option ucast (find (\<lambda>a. signatrue (hdr a) = sig) addrs), m') \<and>
    evolves m root L (6 + 3 * length addrs) m' L'"
proof -
  obtain b h where b: "read_bytes mem (unat r) 36 = Inr b" "read_acpi_header mem (unat (rsdt_addr (decode_rsdp b))) = Inr h"
    "unat (acpi_len h) = 36 + 4 * length addrs" "stored mem (unat (rsdt_addr (decode_rsdp b)) + 36) (concat (map (\<lambda>a. le_enc 4 (unat a)) addrs))"
    "\<forall>a \<in> set addrs. read_acpi_header mem (unat a) = Inr (hdr a)"
    using fw unfolding firmware_at_def Let_def by blast
  have "3 \<le> card (free_frames (frames m))" using fr by simp
  from identity_map_spec[OF wf root this, of r] obtain m1 L1 where m1: "identity_map_present (ucast r) m = Inr m1" "evolves m root L 3 m1 L1" by blast
  have root1: "current_root_table m1 = Inr root" and fr1: "3 + (3 + 3 * length addrs - 3) \<le> card (free_frames (frames m1))"
    using evolves_root[OF m1(2)] root evolves_card[OF m1(2), of "3 + 3 * length addrs"] fr by simp_all
  then have "3 \<le> card (free_frames (frames m1))" by simp
  from identity_map_spec[OF evolves_wf[OF m1(2)] root1 this, of "rsdt_addr (decode_rsdp b)"] obtain m2 L2 where
    m2: "identity_map_present (ucast (rsdt_addr (decode_rsdp b))) m1 = Inr m2" "evolves m1 root L1 3 m2 L2" by blast
  have sdt: "get_sdt mem (Some (ucast r)) m = Inr (unat (rsdt_addr (decode_rsdp b)), m2)"
    using m1(1) m2(1) b(1) by (simp add: get_sdt_def get_rsdp_def unat_ucast_u32)
  have root2: "current_root_table m2 = Inr root" and fr2: "3 * length addrs \<le> card (free_frames (frames m2))"
    using evolves_root[OF m2(2)] root1 evolves_card[OF m2(2), of "3 * length addrs"] fr1 by simp_all
  from get_entry_spec[OF evolves_wf[OF m2(2)] root2 fr2 b(2-5), of sig] obtain m' L' where
    m': "get_entry_of_signatrue mem (unat (rsdt_addr (decode_rsdp b))) sig m2 = Inr (map_option ucast (find (\<lambda>a. signatrue (hdr a) = sig) addrs), m')"
    "evolves m2 root L2 (3 * length addrs) m' L'" by blast
  have "evolves m root L (6 + 3 * length addrs) m' L'" using evolves_trans[OF evolves_trans[OF m1(2) m2(2)] m'(2)] by simp
  then show ?thesis using sdt m'(1) by blast
qed

text \<open>
  C27: \<open>shutdown\<close> on a machine whose firmware tables list a fixed table \<open>f\<close>: the command with sleep type 7 and the sleep bit goes to the control block of \<open>f\<close>, to the second control block if
  there is one, and then the two emulator ports are tried. Nothing else is accessed and the page tables stay well formed; with no fixed table among the tables it panics.
\<close>
theorem shutdown_correct:
  assumes "wf_space m root L" and "current_root_table m = Inr root" and "6 + 3 * length addrs \<le> card (free_frames (frames m))"
    and "firmware_at mem r addrs hdr"
  shows "case find (\<lambda>a. signatrue (hdr a) = bytes_of ''FACP'') addrs of
      None \<Rightarrow> shutdown mem (Some (ucast r)) m h = Inl UnwrapFailed
    | Some a \<Rightarrow> \<forall>f. read_fadt mem (unat a) = Inr f \<longrightarrow>
        (\<exists>m' L'. shutdown mem (Some (ucast r)) m h =
           Inr (h @ [Out16 (ucast (pm1a_cnt_blk f)) 0x3C00] @
             (if pm1b_cnt_blk f = 0 then [] else [Out16 (ucast (pm1b_cnt_blk f)) 0x3C00]) @ [Out16 0xB004 0x2000, Out16 0x604 0x2000], m') \<and>
           evolves m root L (6 + 3 * length addrs) m' L')"
proof -
  from find_table[OF assms, of "bytes_of ''FACP''"] obtain sdt m1 m' L' where t: "get_sdt mem (Some (ucast r)) m = Inr (sdt, m1)"
    "get_entry_of_signatrue mem sdt (bytes_of ''FACP'') m1 = Inr (map_option ucast (find (\<lambda>a. signatrue (hdr a) = bytes_of ''FACP'') addrs), m')"
    "evolves m root L (6 + 3 * length addrs) m' L'" by blast
  have c: "SLP_TYP_S5 OR SLP_EN = 0x3C00" by (simp add: SLP_TYP_S5_def SLP_EN_def)
  show ?thesis
  proof (cases "find (\<lambda>a. signatrue (hdr a) = bytes_of ''FACP'') addrs")
    case None
    then show ?thesis using t(1,2) by (simp add: shutdown_def fadt_get_def)
  next
    case (Some a)
    have "shutdown mem (Some (ucast r)) m h =
           Inr (h @ [Out16 (ucast (pm1a_cnt_blk f)) 0x3C00] @
             (if pm1b_cnt_blk f = 0 then [] else [Out16 (ucast (pm1b_cnt_blk f)) 0x3C00]) @ [Out16 0xB004 0x2000, Out16 0x604 0x2000], m')"
      if "read_fadt mem (unat a) = Inr f" for f
      using t(1,2) that by (simp add: shutdown_def fadt_get_def Some unat_ucast_u32 c outw_def Let_def)
    then show ?thesis using t(3) Some by auto
  qed
qed

text \<open>A root pointer at address 0, the root table behind it, and a fixed table at 76.\<close>

definition example_firmware :: memory where
  "example_firmware = map Some
     ((replicate 16 0 @ le_enc 4 36 @ replicate 16 0) @
      (bytes_of ''RSDT'' @ [40, 0, 0, 0] @ replicate 28 0) @ le_enc 4 76 @
      (bytes_of ''FACP'' @ replicate 60 0 @ le_enc 4 0x604 @ replicate 208 0))"

lemma stored_read: "stored m a bs \<Longrightarrow> i + k \<le> length bs \<Longrightarrow> read_bytes m (a + i) k = Inr (take k (drop i bs))"
  using stored_append[of m "a + i" "take k (drop i bs)" "drop k (drop i bs)"] stored_append[of m a "take i bs" "drop i bs"]
  unfolding append_take_drop_id by (intro read_stored) simp_all

lemma example_firmware_reads:
  "read_bytes example_firmware 0 36 = Inr (replicate 16 0 @ le_enc 4 36 @ replicate 16 0)"
  "read_bytes example_firmware 36 36 = Inr (bytes_of ''RSDT'' @ [40, 0, 0, 0] @ replicate 28 0)"
  "stored example_firmware 72 (le_enc 4 76)"
  "read_bytes example_firmware 76 276 = Inr (bytes_of ''FACP'' @ replicate 60 0 @ le_enc 4 0x604 @ replicate 208 0)"
  "read_bytes example_firmware 76 36 = Inr (bytes_of ''FACP'' @ replicate 32 0)"
proof -
  let ?b = "replicate 16 0 @ le_enc 4 36 @ replicate 16 0 @ bytes_of ''RSDT'' @ [40, 0, 0, 0] @ replicate 28 0 @ le_enc 4 76 @
    bytes_of ''FACP'' @ replicate 60 0 @ le_enc 4 0x604 @ replicate 208 0 :: u8 list"
  have s: "stored example_firmware 0 ?b" by (simp add: stored_def example_firmware_def)
  have l: "length (bytes_of ''RSDT'') = 4" "length (bytes_of ''FACP'') = 4" by (simp_all add: bytes_of_def)
  show "read_bytes example_firmware 0 36 = Inr (replicate 16 0 @ le_enc 4 36 @ replicate 16 0)"
    "read_bytes example_firmware 36 36 = Inr (bytes_of ''RSDT'' @ [40, 0, 0, 0] @ replicate 28 0)"
    "read_bytes example_firmware 76 276 = Inr (bytes_of ''FACP'' @ replicate 60 0 @ le_enc 4 0x604 @ replicate 208 0)"
    "read_bytes example_firmware 76 36 = Inr (bytes_of ''FACP'' @ replicate 32 0)"
    using stored_read[OF s, of 0 36] stored_read[OF s, of 36 36] stored_read[OF s, of 76 276] stored_read[OF s, of 76 36] l by simp_all
  show "stored example_firmware 72 (le_enc 4 76)" using s unfolding stored_append by (simp add: l)
qed

lemma example_firmware_at: "firmware_at example_firmware 0 [76] (\<lambda>_. decode_acpi_header (bytes_of ''FACP'' @ replicate 32 0))"
proof -
  let ?h = "decode_acpi_header (bytes_of ''RSDT'' @ [40, 0, 0, 0] @ replicate 28 0)"
  have "rsdt_addr (decode_rsdp (replicate 16 0 @ le_enc 4 36 @ replicate 16 0)) = 36" by (simp add: decode_rsdp_def field_def le_val_enc)
  moreover have "unat (acpi_len ?h) = 40" by (simp add: decode_acpi_header_def field_def bytes_of_def)
  ultimately show ?thesis
    using example_firmware_reads
    by (simp add: firmware_at_def read_acpi_header_def)
qed

theorem shutdown_correct_witness:
  "\<exists>m'. shutdown example_firmware (Some 0) example_machine [] = Inr ([Out16 0x604 0x3C00, Out16 0xB004 0x2000, Out16 0x604 0x2000], m')"
proof -
  let ?f = "decode_fadt (bytes_of ''FACP'' @ replicate 60 0 @ le_enc 4 0x604 @ replicate 208 0)"
  have "signatrue (decode_acpi_header (bytes_of ''FACP'' @ replicate 32 0)) = bytes_of ''FACP''" by (simp add: decode_acpi_header_def bytes_of_def)
  moreover have "read_fadt example_firmware 76 = Inr ?f" by (simp add: read_fadt_def example_firmware_reads)
  moreover have "pm1a_cnt_blk ?f = 0x604" "pm1b_cnt_blk ?f = 0" by (simp_all add: decode_fadt_def field_def bytes_of_def le_val_enc)
  moreover have "6 + 3 * length [76 :: u32] \<le> card (free_frames (frames example_machine))" using example_machine_frames by simp
  ultimately show ?thesis
    using shutdown_correct[OF example_machine_wf example_machine_root _ example_firmware_at, of "[]"] by auto
qed

end
