(* ===== verification/Apic.thy ===== *)
theory Apic
  imports Acpi_Props
begin

text \<open>
  \<open>kernel/src/arch/x86_64/interrupts/apic.rs\<close>: the local APIC and the I/O APIC. What the code does to the devices is the list of its writes to their memory-mapped registers,
  in order, each an address and a value. The contents of the model-specific register and the id the local APIC reports are parameters.
\<close>

section \<open>Entries\<close>

record lvt_entry =
  lvt_vector :: u8
  lvt_flags :: u16

definition TIMER_PERIODIC :: u16 where "TIMER_PERIODIC = push_bit 9 1"

definition lvt_new :: "u8 \<Rightarrow> u16 \<Rightarrow> lvt_entry" where
  "lvt_new entry flags = \<lparr>lvt_vector = entry, lvt_flags = flags\<rparr>"

text \<open>\<open>transmute\<close> of the packed struct: the vector, the flags, and a byte of zeros.\<close>

definition encode_u32 :: "lvt_entry \<Rightarrow> u32" where
  "encode_u32 e = ucast (lvt_vector e) OR push_bit 8 (ucast (lvt_flags e))"

record ioredtbl =
  red_entry :: lvt_entry
  dest :: u8

definition ioredtbl_new :: "lvt_entry \<Rightarrow> u8 \<Rightarrow> ioredtbl" where
  "ioredtbl_new entry d = \<lparr>red_entry = entry, dest = d\<rparr>"

definition ioredtbl_bits :: "ioredtbl \<Rightarrow> u64" where
  "ioredtbl_bits t = ucast (encode_u32 (red_entry t)) OR push_bit 56 (ucast (dest t))"

definition into_regs :: "ioredtbl \<Rightarrow> u32 \<times> u32" where
  "into_regs t = (let combined = ioredtbl_bits t in (ucast combined, ucast (drop_bit 31 combined)))"

text \<open>The reserved fields are not kept.\<close>

definition from_regs :: "u32 \<Rightarrow> u32 \<Rightarrow> ioredtbl" where
  "from_regs lower higher =
     (let combined = ucast lower OR push_bit 31 (ucast higher) :: u64 in
      \<lparr>red_entry = \<lparr>lvt_vector = ucast combined, lvt_flags = ucast (drop_bit 8 combined)\<rparr>, dest = ucast (drop_bit 56 combined)\<rparr>)"

section \<open>Registers\<close>

type_synonym mmio = "(usize \<times> u32) list"

definition get_local_apic_reg :: "usize \<Rightarrow> u16 \<Rightarrow> usize rust" where
  "get_local_apic_reg addr reg = add_w addr (ucast reg)"

definition write_ioapic_val_to_reg :: "usize \<Rightarrow> u8 \<Rightarrow> u32 \<Rightarrow> mmio rust" where
  "write_ioapic_val_to_reg ioapic_addr reg v =
     rbind (add_w ioapic_addr 0x10) (\<lambda>win. Inr [(ioapic_addr, ucast reg), (win, v)])"

definition write_ioapic_irq :: "usize \<Rightarrow> u8 \<Rightarrow> ioredtbl \<Rightarrow> mmio rust" where
  "write_ioapic_irq ioapic_addr n table =
     rbind (mul_w n 2) (\<lambda>n2.
     rbind (add_w 0x10 n2) (\<lambda>offset1.
     rbind (add_w offset1 1) (\<lambda>offset2.
     let (lower, higher) = into_regs table in
     rbind (write_ioapic_val_to_reg ioapic_addr offset1 lower) (\<lambda>w1.
     rbind (write_ioapic_val_to_reg ioapic_addr offset2 higher) (\<lambda>w2. Inr (w1 @ w2))))))"

definition enable_apic_keyboard :: "usize \<Rightarrow> u8 \<Rightarrow> mmio rust" where
  "enable_apic_keyboard ioapic_addr apic_id = write_ioapic_irq ioapic_addr 1 (ioredtbl_new (lvt_new 0x21 0) apic_id)"

definition enable_apic_timer :: "usize \<Rightarrow> mmio rust" where
  "enable_apic_timer local_apic_addr =
     rbind (get_local_apic_reg local_apic_addr 0x320) (\<lambda>addr.
     rbind (get_local_apic_reg local_apic_addr 0x380) (\<lambda>init.
     rbind (get_local_apic_reg local_apic_addr 0x3E0) (\<lambda>divide.
     Inr [(addr, encode_u32 (lvt_new 0x20 TIMER_PERIODIC)), (divide, 0xB), (init, 0xFFFFFF)])))"

definition get_local_apic_addr :: "u64 \<Rightarrow> machine \<Rightarrow> (usize \<times> machine) rust" where
  "get_local_apic_addr msr m =
     (let address = msr AND 0xFFFFF000 in
      rbind (identity_map_writeable address m) (\<lambda>m'. Inr (address, m')))"

definition send_eoi :: "u64 \<Rightarrow> machine \<Rightarrow> (mmio \<times> machine) rust" where
  "send_eoi msr m =
     rbind (get_local_apic_addr msr m) (\<lambda>(address, m').
     rbind (get_local_apic_reg address 0xB0) (\<lambda>eoi_reg. Inr ([(eoi_reg, 0)], m')))"

text \<open>The address is the third field of the record of the I/O APIC, at offset four.\<close>

definition get_io_apic_addr :: "memory \<Rightarrow> nat \<Rightarrow> machine \<Rightarrow> (usize \<times> machine) rust option" where
  "get_io_apic_addr mem madt m =
     map_option (\<lambda>r.
       rbind r (\<lambda>rec.
       rbind (unwrap rec) (\<lambda>rec.
       rbind (read_le mem (rec + 4) 4) (\<lambda>(a :: u32).
       let addr = ucast a in
       rbind (identity_map_writeable addr m) (\<lambda>m'. Inr (addr, m'))))))
     (get_record_of_type mem madt 1)"

definition enable_apic_interrupts :: "memory \<Rightarrow> u64 option \<Rightarrow> u64 \<Rightarrow> u8 \<Rightarrow> machine \<Rightarrow> (mmio \<times> machine) rust option" where
  "enable_apic_interrupts mem rsdp_addr msr apic_id m =
     (case rbind (get_local_apic_addr msr m) (\<lambda>(local_apic_addr, m1).
           rbind (get_local_apic_reg local_apic_addr 0xF0) (\<lambda>sivr.
           rbind (get_sdt mem rsdp_addr m1) (\<lambda>(sdt, m2).
           rbind (madt_get mem sdt m2) (\<lambda>(madt, m3). Inr (local_apic_addr, sivr, madt, m3))))) of
        Inl p \<Rightarrow> Some (Inl p)
      | Inr (local_apic_addr, sivr, madt, m3) \<Rightarrow>
          map_option (\<lambda>r.
            rbind r (\<lambda>(ioapic_addr, m4).
            rbind (get_local_apic_reg local_apic_addr 0x20) (\<lambda>_.
            rbind (enable_apic_timer local_apic_addr) (\<lambda>w1.
            rbind (enable_apic_keyboard ioapic_addr apic_id) (\<lambda>w2.
            Inr ((sivr, 0x1ff) # w1 @ w2, m4))))))
          (get_io_apic_addr mem (unat madt) m3))"

section \<open>The I/O APIC\<close>

text \<open>
  The device behind the two registers: a write to the first selects one of its registers, a write sixteen bytes above goes to the
  selected one.
\<close>

record ioapic =
  io_sel :: u32
  io_regs :: "u32 \<Rightarrow> u32"

fun ioapic_writes :: "usize \<Rightarrow> mmio \<Rightarrow> ioapic \<Rightarrow> ioapic" where
  "ioapic_writes base [] d = d"
| "ioapic_writes base ((a, v) # ws) d =
     ioapic_writes base ws
       (if a = base then d\<lparr>io_sel := v\<rparr>
        else if a = base + 0x10 then d\<lparr>io_regs := (io_regs d)(io_sel d := v)\<rparr>
        else d)"

text \<open>The fields of a redirection entry that the device reads: vector and mask in the lower register, destination in the upper.\<close>

definition red_vector :: "u32 \<Rightarrow> u8" where "red_vector lower = ucast lower"
definition red_masked :: "u32 \<Rightarrow> bool" where "red_masked lower \<longleftrightarrow> bit lower 16"
definition red_dest :: "u32 \<Rightarrow> u8" where "red_dest higher = ucast (drop_bit 24 higher)"

lemma into_regs_fst: "fst (into_regs t) = encode_u32 (red_entry t)"
  unfolding into_regs_def Let_def ioredtbl_bits_def fst_conv
  by (rule bit_word_eqI) (auto simp: bit_simps)

lemma into_regs_dest: "red_dest (snd (into_regs (ioredtbl_new e d))) = push_bit 1 d"
proof (rule bit_word_eqI)
  fix n
  assume n: "n < LENGTH(8)"
  have rhs: "bit (push_bit 1 d) n \<longleftrightarrow> 1 \<le> n \<and> bit d (n - 1)" using n by (simp only: bit_push_bit_iff) simp
  show "bit (red_dest (snd (into_regs (ioredtbl_new e d)))) n = bit (push_bit 1 d) n"
    using n unfolding rhs red_dest_def into_regs_def Let_def ioredtbl_bits_def ioredtbl_new_def encode_u32_def
    by (auto simp: bit_simps dest: bit_imp_le_length)
qed

text \<open>Splitting an entry and putting it together again loses the highest bit of the destination.\<close>

lemma from_into_regs:
  "from_regs (fst (into_regs t)) (snd (into_regs t)) = t\<lparr>dest := dest t AND 0x7F\<rparr>"
proof -
  have c: "ucast (fst (into_regs t)) OR push_bit 31 (ucast (snd (into_regs t))) = ioredtbl_bits t AND mask 63"
    unfolding into_regs_def Let_def fst_conv snd_conv by (rule bit_word_eqI) (auto simp: bit_simps)
  have m: "(0x7F :: u8) = mask 7" by (simp add: mask_eq_exp_minus_1)
  have "ucast (ioredtbl_bits t AND mask 63) = lvt_vector (red_entry t)" "ucast (drop_bit 8 (ioredtbl_bits t AND mask 63)) = lvt_flags (red_entry t)"
    "ucast (drop_bit 56 (ioredtbl_bits t AND mask 63)) = dest t AND 0x7F"
    unfolding ioredtbl_bits_def encode_u32_def m by (rule bit_word_eqI, auto simp: bit_simps dest: bit_imp_le_length)+
  then show ?thesis unfolding from_regs_def c Let_def by simp
qed

text \<open>
  C37: the keyboard interrupt is programmed as vector 0x21, unmasked, but the upper half of the redirection entry is taken from bit 31 instead of bit 32 on: the interrupt is routed to twice the id
  of the processor, which is the processor itself only if its id is zero.
\<close>
theorem keyboard_irq_destination:
  assumes "unat ioapic_addr + 0x10 < 2 ^ 64"
  shows "\<exists>ws. enable_apic_keyboard ioapic_addr apic_id = Inr ws \<and>
    (let regs = io_regs (ioapic_writes ioapic_addr ws d) in
     red_vector (regs 0x12) = 0x21 \<and> \<not> red_masked (regs 0x12) \<and> red_dest (regs 0x13) = 2 * apic_id \<and>
     (red_dest (regs 0x13) = apic_id \<longleftrightarrow> apic_id = 0))"
proof -
  let ?t = "ioredtbl_new (lvt_new 0x21 0) apic_id"
  obtain lo hi where r: "into_regs ?t = (lo, hi)" by fastforce
  have lo: "lo = 0x21" using into_regs_fst[of ?t] r by (simp add: ioredtbl_new_def lvt_new_def encode_u32_def)
  have hi: "red_dest hi = 2 * apic_id" using into_regs_dest[of "lvt_new 0x21 0" apic_id] r by (simp add: push_bit_eq_mult)
  have w: "enable_apic_keyboard ioapic_addr apic_id =
      Inr [(ioapic_addr, 0x12), (ioapic_addr + 0x10, lo), (ioapic_addr, 0x13), (ioapic_addr + 0x10, hi)]"
    using assms by (simp add: enable_apic_keyboard_def write_ioapic_irq_def mul_w_def add_w_def r write_ioapic_val_to_reg_def)
  have "2 * apic_id = apic_id \<longleftrightarrow> apic_id = 0" by (metis add_cancel_right_left mult_2)
  moreover have "\<not> red_masked 0x21" by (simp add: red_masked_def)
  ultimately show ?thesis using hi by (simp add: w lo red_vector_def Let_def)
qed

theorem keyboard_irq_destination_witness:
  "\<exists>ws. enable_apic_keyboard 0xFEC00000 1 = Inr ws \<and>
    red_dest (io_regs (ioapic_writes 0xFEC00000 ws \<lparr>io_sel = 0, io_regs = (\<lambda>_. 0)\<rparr>) 0x13) = 2"
  using keyboard_irq_destination[of "0xFEC00000" 1 "\<lparr>io_sel = 0, io_regs = (\<lambda>_. 0)\<rparr>"] by (auto simp: Let_def)

end
