(* ===== verification/Boot.thy ===== *)
theory Boot
  imports Frame_Init Scheduling Vfs_Props Terminal_Props Elf Descriptors Power_Control Apic
begin

text \<open>
  Starting the kernel: \<open>kernel/src/limine.rs\<close>, which reads the answers of the boot loader, \<open>arch::init\<close> of \<open>kernel/src/arch/x86_64/mod.rs\<close>, and
  \<open>kinit\<close> of \<open>kernel/src/main.rs\<close>, which brings the components up one after the other and enters the first process.

  The answers of the boot loader, the memory with the kernel image and the firmware tables, the page tables at entry and the devices are
  parameters. Apart from the accesses to the devices, what the components write to the serial console on the way is left out.
\<close>

section \<open>The boot loader\<close>

text \<open>The first frame buffer's \<open>memory_model\<close> is RGB or something the kernel does not know.\<close>

record limine_framebuffer =
  fb_rgb :: bool
  fb_bpp :: u16
  fb_pitch :: u64
  fb_width :: u64
  fb_height :: u64

record limine =
  hhdm_response :: "u64 option"
  rsdp_response :: "u64 option"
  kernel_file_response :: "(nat \<times> u64) option"
  mmap_response :: "mmap_entry list option"
  framebuffer_response :: "limine_framebuffer list option"

definition get_phy_offset :: "limine \<Rightarrow> usize rust" where
  "get_phy_offset b = unwrap (hhdm_response b)"

definition rsdp_addr :: "limine \<Rightarrow> u64 option" where
  "rsdp_addr b = rsdp_response b"

definition kernel_image_info :: "limine \<Rightarrow> (nat \<times> usize) rust" where
  "kernel_image_info b = unwrap (kernel_file_response b)"

definition mmap_request :: "limine \<Rightarrow> mmap_entry list rust" where
  "mmap_request b = unwrap (mmap_response b)"

fun sum_lengths :: "mmap_entry list \<Rightarrow> usize \<Rightarrow> usize rust" where
  "sum_lengths [] n = Inr n"
| "sum_lengths (e # es) n = rbind (add_w n (entry_length e)) (sum_lengths es)"

definition MEMORY_SIZE :: "limine \<Rightarrow> usize rust" where
  "MEMORY_SIZE b = rbind (mmap_request b) (\<lambda>es. sum_lengths es 0)"

fun largest_end :: "mmap_entry list \<Rightarrow> usize \<Rightarrow> usize rust" where
  "largest_end [] n = Inr n"
| "largest_end (e # es) n =
     rbind (add_w (entry_base e) (entry_length e)) (\<lambda>end. largest_end es (if end > n then end else n))"

definition MEMORY_END :: "limine \<Rightarrow> usize rust" where
  "MEMORY_END b =
     rbind (mmap_request b) (\<lambda>es. rbind (largest_end es 0) (\<lambda>n. Inr (max 0x100000000 n)))"

definition get_phy_offset_end :: "limine \<Rightarrow> usize rust" where
  "get_phy_offset_end b = rbind (get_phy_offset b) (\<lambda>off. rbind (MEMORY_END b) (add_w off))"

text \<open>The bytes of the frame buffer are whatever the device holds; \<open>Terminal::init\<close> overwrites them.\<close>

definition get_framebuffer :: "(nat \<Rightarrow> u8) \<Rightarrow> limine \<Rightarrow> (u8 list \<times> frame_buffer_info) rust" where
  "get_framebuffer screen b =
     rbind (unwrap (framebuffer_response b)) (\<lambda>buffers.
     rbind (unwrap (case buffers of [] \<Rightarrow> None | f # _ \<Rightarrow> Some f)) (\<lambda>first.
     rbind (if fb_rgb first then Inr Rgb else Inl ExplicitPanic) (\<lambda>format.
     rbind (align_up (ucast (fb_bpp first)) 8) (\<lambda>bits.
     let bytes_pp = bits div 8 in
     rbind (div_w (fb_pitch first) bytes_pp) (\<lambda>strd.
     let inf = \<lparr>stride = strd, bytes_per_pixel = bytes_pp, pixel_format = format\<rparr> in
     rbind (rassert (bytes_per_pixel inf = 4)) (\<lambda>_.
     rbind (mul_w (fb_width first) (fb_height first)) (\<lambda>wh.
     rbind (mul_w wh (ucast (fb_bpp first))) (\<lambda>whb.
     Inr (map screen [0..<unat (whb div 8)], inf)))))))))"

section \<open>The image of the kernel\<close>

text \<open>The two loops of \<open>Elf::debug\<close>, which name every symbol and every section; the dump of the structures before them is left out.\<close>

fun debug_syms :: "memory \<Rightarrow> elf \<Rightarrow> sym list \<Rightarrow> string list rust" where
  "debug_syms m e [] = Inr []"
| "debug_syms m e (s # rest) =
     rbind (string_table_index m e (name_index s)) (\<lambda>name.
     rbind (debug_syms m e rest) (\<lambda>out.
     Inr ((''sym '' @ fmt_dec (name_index s) @ '': `'' @ name @ ''`'' @ [CHR 0x0A]) # out)))"

fun debug_sections :: "memory \<Rightarrow> elf \<Rightarrow> section_header list \<Rightarrow> string list rust" where
  "debug_sections m e [] = Inr []"
| "debug_sections m e (s # rest) =
     rbind (section_names_table_index m e (sh_name_index s)) (\<lambda>name.
     rbind (debug_sections m e rest) (\<lambda>out.
     Inr ((''section '' @ fmt_dec (sh_name_index s) @ '': '' @ [CHR 0x27] @ name @ [CHR 0x27, CHR 0x0A]) # out)))"

definition elf_debug :: "memory \<Rightarrow> elf \<Rightarrow> string list rust" where
  "elf_debug m e =
     rbind (section_names_table e) (\<lambda>_.
     rbind (symtable m e) (\<lambda>t.
     rbind (unwrap t) (\<lambda>syms.
     rbind (debug_syms m e syms) (\<lambda>a.
     rbind (debug_sections m e (sections e)) (\<lambda>b. Inr (a @ b))))))"

section \<open>Bringing the machine up\<close>

text \<open>What the boot finds and cannot choose: memory, devices, the model-specific register, the id of the local APIC, and the addresses the linker chose.\<close>

record platform =
  pl_memory :: memory
  pl_device :: device
  pl_msr :: u64
  pl_apic_id :: u8
  pl_tss :: u64
  pl_handler :: "nat \<Rightarrow> u64"
  pl_screen :: "nat \<Rightarrow> u8"

record hardware =
  hw_segments :: segments
  hw_ports :: io_log
  hw_mmio :: mmio

definition arch_init :: "platform \<Rightarrow> u64 option \<Rightarrow> hardware \<Rightarrow> machine \<Rightarrow> (hardware \<times> machine) rust option" where
  "arch_init pl rsdp hw m =
     (let ports = init_serial (hw_ports hw) in
      case rbind (init_idt (pl_handler pl) (init_gdt (pl_tss pl) (hw_segments hw))) (\<lambda>segs.
           rbind (get_sdt (pl_memory pl) rsdp m) (\<lambda>(sdt, m1).
           rbind (fadt_get (pl_memory pl) sdt m1) (\<lambda>(a, m2).
           rbind (read_fadt (pl_memory pl) (unat a)) (\<lambda>f. Inr (segs, f, m2))))) of
        Inl p \<Rightarrow> Some (Inl p)
      | Inr (segs, f, m2) \<Rightarrow>
          Option.bind (enable_acpi (pl_device pl) f ports) (\<lambda>r. case r of
            Inl p \<Rightarrow> Some (Inl p)
          | Inr ports' \<Rightarrow>
              map_option (\<lambda>r. rbind r (\<lambda>(w, m3).
                Inr (\<lparr>hw_segments = segs, hw_ports = ports', hw_mmio = hw_mmio hw @ w\<rparr>, m3)))
              (enable_apic_interrupts (pl_memory pl) rsdp (pl_msr pl) (pl_apic_id pl) m2)))"

section \<open>The kernel\<close>

text \<open>The global variables, after the boot.\<close>

record os =
  os_elf :: elf
  os_rsdp :: "u64 option"
  os_hardware :: hardware
  os_kernel :: kernel
  os_vfs :: vfs
  os_terminal :: terminal
  os_scheduler :: scheduler

text \<open>The part before \<open>arch::init\<close>: the image is parsed and listed, and the frame allocator is made. The page tables are the ones of the boot loader.\<close>

definition kernel_new :: "limine \<Rightarrow> platform \<Rightarrow> machine \<Rightarrow> (elf \<times> machine) rust" where
  "kernel_new b pl m0 =
     rbind (get_phy_offset b) (\<lambda>phy.
     rbind (kernel_image_info b) (\<lambda>(img, _).
     rbind (get_phy_offset_end b) (\<lambda>_.
     rbind (MEMORY_SIZE b) (\<lambda>_.
     rbind (parse (pl_memory pl) img) (\<lambda>r.
     rbind (case r of Inl _ \<Rightarrow> Inl UnwrapFailed | Inr e \<Rightarrow> Inr e) (\<lambda>e.
     rbind (elf_debug (pl_memory pl) e) (\<lambda>_.
     rbind (mmap_request b) (\<lambda>es.
     rbind (region_allocator_new es phy) (\<lambda>ra. Inr (e, m0\<lparr>frames := ra, phy_offset := phy\<rparr>))))))))))"

text \<open>The part behind it: heap, file system and terminal.\<close>

definition services_init :: "limine \<Rightarrow> platform \<Rightarrow> machine \<Rightarrow> (kernel \<times> vfs \<times> terminal) rust" where
  "services_init b pl m =
     rbind (get_phy_offset_end b) (\<lambda>heap_start.
     rbind (memory_init heap_start linked_list_allocator_new m) (\<lambda>(h, m').
     rbind (vfs_init vfs_new) (\<lambda>v.
     rbind (get_framebuffer (pl_screen pl) b) (\<lambda>(buf, inf).
     Inr (\<lparr>heap = h, mach = m'\<rparr>, v, terminal_init buf inf)))))"

text \<open>The processes, and the context of the first one, with which \<open>restore_cpu_status\<close> leaves the boot.\<close>

definition processes_init :: "usize \<Rightarrow> usize \<Rightarrow> kernel \<Rightarrow> (scheduler \<times> kernel) rust option" where
  "processes_init kmain shell k =
     Option.bind (scheduler_init kmain (bytes_of ''kernel'') k) (\<lambda>r. case r of
       Inl p \<Rightarrow> Some (Inl p)
     | Inr (s, k1) \<Rightarrow> create_process shell (bytes_of ''shell'') s k1)"

definition kinit :: "limine \<Rightarrow> platform \<Rightarrow> usize \<Rightarrow> usize \<Rightarrow> hardware \<Rightarrow> machine \<Rightarrow>
    ((registers \<times> interrupt_frame) \<times> os) rust option" where
  "kinit b pl kmain shell hw m0 =
     (case kernel_new b pl m0 of
        Inl p \<Rightarrow> Some (Inl p)
      | Inr (e, m1) \<Rightarrow>
          Option.bind (arch_init pl (rsdp_addr b) hw m1) (\<lambda>r. case r of
            Inl p \<Rightarrow> Some (Inl p)
          | Inr (hw', m2) \<Rightarrow>
              (case services_init b pl m2 of
                 Inl p \<Rightarrow> Some (Inl p)
               | Inr (k, v, t) \<Rightarrow>
                   map_option (\<lambda>r. rbind r (\<lambda>(s, k').
                     rbind (idx (processes s) (current_process s)) (\<lambda>p.
                     Inr (restore_cpu_status (pcontext p),
                          \<lparr>os_elf = e, os_rsdp = rsdp_addr b, os_hardware = hw', os_kernel = k', os_vfs = v,
                           os_terminal = t, os_scheduler = s\<rparr>))))
                   (processes_init kmain shell k))))"

end
