(* ===== verification/Keyboard_Irq.thy ===== *)
theory Keyboard_Irq
  imports Serial Apic Terminal_Props
begin

text \<open>
  From the keyboard to the line: the interrupt handler of \<open>kernel/src/arch/x86_64/interrupts/handlers.rs\<close> reads a byte from the keyboard controller, the driver decodes it, and
  \<open>__navi_key_pressed\<close> of \<open>main.rs\<close> hands the key to the terminal if there is one; the handler ends by telling the local APIC. The contents of the model-specific register are a parameter.
\<close>

section \<open>The handler\<close>

record irq_state =
  irq_kb :: keyboard
  irq_term :: "terminal option"
  irq_machine :: machine
  irq_ports :: io_log
  irq_mmio :: mmio

definition navi_key_pressed :: "font \<Rightarrow> key \<Rightarrow> terminal option \<Rightarrow> terminal option rust option" where
  "navi_key_pressed fnt key TERMINAL =
     (case TERMINAL of
        None \<Rightarrow> Some (Inr None)
      | Some t \<Rightarrow> map_option (\<lambda>r. rbind r (\<lambda>t'. Inr (Some t'))) (on_key_pressed fnt key t))"

definition handle_ps2_keyboard :: "device \<Rightarrow> font \<Rightarrow> irq_state \<Rightarrow> irq_state rust option" where
  "handle_ps2_keyboard dev fnt s =
     (case inb dev 0x60 (irq_ports s) of (b, h) \<Rightarrow>
      case encode_ps2_set_1 b (irq_kb s) of
        Inl p \<Rightarrow> Some (Inl p)
      | Inr (None, kb) \<Rightarrow> Some (Inr (s\<lparr>irq_kb := kb, irq_ports := h\<rparr>))
      | Inr (Some key, kb) \<Rightarrow>
          map_option (\<lambda>r. rbind r (\<lambda>t. Inr (s\<lparr>irq_kb := kb, irq_ports := h, irq_term := t\<rparr>)))
            (navi_key_pressed fnt key (irq_term s)))"

definition keyboard_interrupt_handler :: "device \<Rightarrow> font \<Rightarrow> u64 \<Rightarrow> irq_state \<Rightarrow> irq_state rust option" where
  "keyboard_interrupt_handler dev fnt msr s =
     map_option (\<lambda>r. rbind r (\<lambda>s1.
       rbind (send_eoi msr (irq_machine s1)) (\<lambda>(w, m). Inr (s1\<lparr>irq_machine := m, irq_mmio := irq_mmio s1 @ w\<rparr>))))
     (handle_ps2_keyboard dev fnt s)"

text \<open>A number of keyboard interrupts in a row.\<close>

fun irqs :: "device \<Rightarrow> font \<Rightarrow> u64 \<Rightarrow> nat \<Rightarrow> irq_state \<Rightarrow> irq_state rust option" where
  "irqs dev fnt msr 0 s = Some (Inr s)"
| "irqs dev fnt msr (Suc n) s =
     (case keyboard_interrupt_handler dev fnt msr s of
        Some (Inr s1) \<Rightarrow> irqs dev fnt msr n s1
      | r \<Rightarrow> r)"

section \<open>The end of the interrupt\<close>

definition lapic_base :: "u64 \<Rightarrow> usize" where
  "lapic_base msr = msr AND 0xFFFFF000"

lemma bit_lapic_base: "bit (lapic_base msr) n \<longleftrightarrow> bit msr n \<and> 12 \<le> n \<and> n < 32"
proof -
  have "lapic_base msr = msr AND push_bit 12 (mask 20)"
    unfolding lapic_base_def by (rule arg_cong[where f = "(AND) msr"]) (simp add: mask_eq_exp_minus_1 push_bit_eq_mult)
  then show ?thesis by (auto simp: bit_simps)
qed

lemma lapic_page: "lapic_base msr AND NOT (mask 12) = lapic_base msr" "addr_ok (lapic_base msr)"
  unfolding addr_ok_def ADDR_MASK_eq
  by (rule bit_word_eqI, auto simp: bit_and_iff bit_not_iff bit_mask_iff bit_lapic_base)+

lemma lapic_reg: "get_local_apic_reg (lapic_base msr) 0xB0 = Inr (lapic_base msr + 0xB0)"
proof -
  have "lapic_base msr \<le> 0xFFFFF000" unfolding lapic_base_def by (rule word_and_le1)
  then have "unat (lapic_base msr) \<le> 0xFFFFF000" by (simp add: word_le_nat_alt)
  then show ?thesis by (simp add: get_local_apic_reg_def add_w_def)
qed

text \<open>The page of the local APIC is in the page tables, as \<open>enable_apic_interrupts\<close> leaves it.\<close>

definition lapic_mapped :: "u64 \<Rightarrow> machine \<Rightarrow> virt_addr \<Rightarrow> bool" where
  "lapic_mapped msr m root \<longleftrightarrow> pt_entry m root \<lparr>page_start = lapic_base msr\<rparr> \<noteq> None"

lemma send_eoi_spec:
  assumes wf: "wf_space m root L" and root: "current_root_table m = Inr root" and mapped: "lapic_mapped msr m root"
  shows "\<exists>m' L'. send_eoi msr m = Inr ([(lapic_base msr + 0xB0, 0)], m') \<and> evolves m root L 0 m' L' \<and> lapic_mapped msr m' root"
proof -
  from map_to_again[OF wf writeable_flags, of "\<lparr>start_address = lapic_base msr\<rparr>" "\<lparr>page_start = lapic_base msr\<rparr>"] mapped lapic_page(2)
  obtain m' L' where m': "map_to root \<lparr>page_start = lapic_base msr\<rparr> \<lparr>start_address = lapic_base msr\<rparr> (PRESENT OR WRITABLE) m = Inr (Inr (), m')"
    "evolves m root L 0 m' L'" "lapic_mapped msr m' root"
    by (auto simp: lapic_mapped_def)
  have "identity_map_writeable (lapic_base msr) m = Inr m'"
    using m'(1) by (simp add: identity_map_writeable_def root page_containing_eq frame_containing_address_eq lapic_page(1))
  then show ?thesis using m'(2,3)
    by (auto simp: send_eoi_def get_local_apic_addr_def lapic_reg lapic_base_def[symmetric] Let_def)
qed

section \<open>A run of interrupts\<close>

text \<open>The controller hands out the bytes \<open>bs\<close>, one for each read of its data port.\<close>

definition controller :: "u8 list \<Rightarrow> device" where
  "controller bs =
     \<lparr>answer8 = (\<lambda>h p. let n = count_list h (In8 0x60) in if p = 0x60 \<and> n < length bs then bs ! n else 0), answer16 = (\<lambda>h p. 0)\<rparr>"

fun keys_pressed :: "font \<Rightarrow> key list \<Rightarrow> terminal \<Rightarrow> terminal rust option" where
  "keys_pressed fnt [] t = Some (Inr t)"
| "keys_pressed fnt (k # ks) t =
     (case on_key_pressed fnt k t of Some (Inr t1) \<Rightarrow> keys_pressed fnt ks t1 | r \<Rightarrow> r)"

lemma keys_pressed_append:
  "keys_pressed fnt ks t = Some (Inr t1) \<Longrightarrow> keys_pressed fnt (ks @ ks') t = keys_pressed fnt ks' t1"
  by (induction ks arbitrary: t) (auto split: option.splits sum.splits)

text \<open>
  After \<open>n\<close> interrupts: \<open>n\<close> reads of the data port and \<open>n\<close> ends of interrupt, page tables that are as good as before, and not one more frame in use.
\<close>

definition irqs_done :: "u64 \<Rightarrow> virt_addr \<Rightarrow> (virt_addr \<rightharpoonup> nat) \<Rightarrow> nat \<Rightarrow> irq_state \<Rightarrow> irq_state \<Rightarrow> bool" where
  "irqs_done msr root L n s s' \<longleftrightarrow>
     irq_ports s' = irq_ports s @ replicate n (In8 0x60) \<and>
     irq_mmio s' = irq_mmio s @ replicate n (lapic_base msr + 0xB0, 0) \<and>
     (\<exists>L'. evolves (irq_machine s) root L 0 (irq_machine s') L') \<and> lapic_mapped msr (irq_machine s') root"

lemma irqs_done_Suc:
  assumes "evolves (irq_machine s) root L 0 (irq_machine s1) L1" and "irq_ports s1 = irq_ports s @ [In8 0x60]"
    and "irq_mmio s1 = irq_mmio s @ [(lapic_base msr + 0xB0, 0)]" and "irqs_done msr root L1 n s1 s'"
  shows "irqs_done msr root L (Suc n) s s'"
  using assms evolves_trans[OF assms(1)] by (fastforce simp: irqs_done_def)

lemma handler_spec:
  assumes "wf_space (irq_machine s) root L" and "current_root_table (irq_machine s) = Inr root" and "lapic_mapped msr (irq_machine s) root"
    and "irq_term s = Some t" and "answer8 dev (irq_ports s) 0x60 = b" and "encode_ps2_set_1 b (irq_kb s) = Inr (out, kb)"
    and "keys_pressed fnt (case out of None \<Rightarrow> [] | Some k \<Rightarrow> [k]) t = Some (Inr t1)"
  shows "\<exists>m' L'. keyboard_interrupt_handler dev fnt msr s =
      Some (Inr (s\<lparr>irq_kb := kb, irq_ports := irq_ports s @ [In8 0x60], irq_term := Some t1, irq_machine := m',
        irq_mmio := irq_mmio s @ [(lapic_base msr + 0xB0, 0)]\<rparr>)) \<and>
    evolves (irq_machine s) root L 0 m' L' \<and> lapic_mapped msr m' root"
proof -
  obtain m' L' where m': "send_eoi msr (irq_machine s) = Inr ([(lapic_base msr + 0xB0, 0)], m')"
    "evolves (irq_machine s) root L 0 m' L'" "lapic_mapped msr m' root" using send_eoi_spec[OF assms(1-3)] by blast
  have "handle_ps2_keyboard dev fnt s = Some (Inr (s\<lparr>irq_kb := kb, irq_ports := irq_ports s @ [In8 0x60], irq_term := Some t1\<rparr>))"
    using assms(4-7)
    by (cases out) (auto simp: handle_ps2_keyboard_def inb_def navi_key_pressed_def split: option.splits sum.splits)
  then show ?thesis using m' by (auto simp: keyboard_interrupt_handler_def)
qed

lemma irqs_feed:
  "feed bs (irq_kb s) = Inr (ks, kb') \<Longrightarrow> irq_term s = Some t \<Longrightarrow> keys_pressed fnt ks t = Some (Inr t') \<Longrightarrow>
    count_list (irq_ports s) (In8 0x60) = length pre \<Longrightarrow>
    wf_space (irq_machine s) root L \<Longrightarrow> current_root_table (irq_machine s) = Inr root \<Longrightarrow> lapic_mapped msr (irq_machine s) root \<Longrightarrow>
    \<exists>s'. irqs (controller (pre @ bs)) fnt msr (length bs) s = Some (Inr s') \<and> irq_kb s' = kb' \<and> irq_term s' = Some t' \<and>
      irqs_done msr root L (length bs) s s'"
proof (induction bs arbitrary: s ks t pre L)
  case Nil
  then show ?case using evolves_refl by (auto simp: irqs_done_def)
next
  case (Cons b bs)
  obtain out kb1 outs where e: "encode_ps2_set_1 b (irq_kb s) = Inr (out, kb1)" "feed bs kb1 = Inr (outs, kb')"
    "ks = (case out of None \<Rightarrow> [] | Some k \<Rightarrow> [k]) @ outs"
    using Cons.prems(1) by (auto simp: rbind_eq_Inr split: option.splits)
  have "\<exists>t1. keys_pressed fnt (case out of None \<Rightarrow> [] | Some k \<Rightarrow> [k]) t = Some (Inr t1) \<and> keys_pressed fnt outs t1 = Some (Inr t')"
    using Cons.prems(3) unfolding e(3) by (auto split: option.splits sum.splits)
  then obtain t1 where t1: "keys_pressed fnt (case out of None \<Rightarrow> [] | Some k \<Rightarrow> [k]) t = Some (Inr t1)" "keys_pressed fnt outs t1 = Some (Inr t')"
    by blast
  have "answer8 (controller (pre @ b # bs)) (irq_ports s) 0x60 = b"
    using Cons.prems(4) by (simp add: controller_def)
  from handler_spec[OF Cons.prems(5-7,2) this e(1) t1(1)] obtain m1 L1 where
    h: "keyboard_interrupt_handler (controller (pre @ b # bs)) fnt msr s =
      Some (Inr (s\<lparr>irq_kb := kb1, irq_ports := irq_ports s @ [In8 0x60], irq_term := Some t1, irq_machine := m1,
        irq_mmio := irq_mmio s @ [(lapic_base msr + 0xB0, 0)]\<rparr>))" (is "_ = Some (Inr ?s1)")
    and m1: "evolves (irq_machine s) root L 0 m1 L1" "lapic_mapped msr m1 root" by blast
  have "\<exists>s'. irqs (controller ((pre @ [b]) @ bs)) fnt msr (length bs) ?s1 = Some (Inr s') \<and> irq_kb s' = kb' \<and> irq_term s' = Some t' \<and>
      irqs_done msr root L1 (length bs) ?s1 s'"
    using e(2) t1(2) Cons.prems(4,6) evolves_wf[OF m1(1)] evolves_root[OF m1(1)] m1(2) by (intro Cons.IH) simp_all
  then obtain s' where s': "irqs (controller (pre @ b # bs)) fnt msr (length bs) ?s1 = Some (Inr s')" "irq_kb s' = kb'" "irq_term s' = Some t'"
      "irqs_done msr root L1 (length bs) ?s1 s'" by auto
  have "irqs_done msr root L (Suc (length bs)) s s'" by (rule irqs_done_Suc[OF _ _ _ s'(4)]) (simp_all add: m1(1))
  then show ?case using h s' by simp
qed

section \<open>Typing a line\<close>

text \<open>A stroke is a key with or without Shift. The bytes of a stroke, and the character the key map has for it.\<close>

type_synonym stroke = "bool \<times> u64 \<times> keycode"

fun stroke_bytes :: "stroke \<Rightarrow> u8 list" where
  "stroke_bytes (sh, sc, kc) =
     (if sh then make_bytes 0x2A @ make_bytes sc @ break_bytes sc @ break_bytes 0x2A else make_bytes sc @ break_bytes sc)"

fun stroke_key :: "stroke \<Rightarrow> key" where
  "stroke_key (sh, sc, kc) = \<lparr>code = kc, flags = (if sh then SHIFT else 0)\<rparr>"

fun stroke_char :: "stroke \<Rightarrow> u32" where
  "stroke_char (sh, sc, kc) = the (map_of key_table (kc, if sh then SHIFT else 0))"

fun stroke_ok :: "stroke \<Rightarrow> bool" where
  "stroke_ok (sh, sc, kc) \<longleftrightarrow> (sc, kc) \<in> set set1_table \<and> map_of key_table (kc, if sh then SHIFT else 0) \<noteq> None"

lemma default_codes:
  "\<forall>(k, f, c) \<in> set default_entries. k \<notin> {NULL, PrintScr, CapsLock, LastKey, PageUp, PageDown, Shift, Ctrl, Alt}"
  by (simp add: default_entries_def)

lemma stroke_code:
  assumes "stroke_ok (sh, sc, kc)"
  shows "kc \<notin> {NULL, PrintScr, CapsLock, LastKey, PageUp, PageDown, Shift, Ctrl, Alt}"
    and "\<exists>c. map_of key_table (kc, if sh then SHIFT else 0) = Some c \<and> c \<noteq> 0"
proof -
  obtain c where c: "map_of key_table (kc, if sh then SHIFT else 0) = Some c" using assms by auto
  note d = key_table_Some[OF this]
  show "kc \<notin> {NULL, PrintScr, CapsLock, LastKey, PageUp, PageDown, Shift, Ctrl, Alt}" using bspec[OF default_codes d] by simp
  show "\<exists>c. map_of key_table (kc, if sh then SHIFT else 0) = Some c \<and> c \<noteq> 0" using c bspec[OF default_chars d] by simp
qed

text \<open>Pressing a key and releasing it again leaves the driver as it was.\<close>

lemma feed_tap:
  assumes "(sc, kc) \<in> set set1_table" and "kc \<notin> {NULL, PrintScr, CapsLock}" and "idle kb" and "\<not> is_pressed kc kb"
    and "length (current_keys kb) < MAX_KEYS"
  shows "feed (make_bytes sc) kb = Inr ([process_keycode kc kb], press kc kb)"
    and "feed (break_bytes sc) (press kc kb) = Inr ([], kb)"
    and "feed (make_bytes sc @ break_bytes sc) kb = Inr ([process_keycode kc kb], kb)"
proof -
  show m: "feed (make_bytes sc) kb = Inr ([process_keycode kc kb], press kc kb)"
    using feed_make_press[OF assms(1-3), of 1] assms(5) by simp
  have p: "idle (press kc kb)" "length (current_keys (press kc kb)) \<le> MAX_KEYS" using assms(3,5) by (simp_all add: press_def idle_def)
  have "\<forall>k \<in> set (current_keys kb). code k \<noteq> kc" using assms(4) by (auto simp: is_pressed_iff)
  then have "remove_pressed_keycode kc (press kc kb) = kb"
    using assms(2) by (simp add: remove_pressed_keycode_def press_def remove_first_append)
  then show b: "feed (break_bytes sc) (press kc kb) = Inr ([], kb)" using feed_make_break(2)[OF assms(1) _ p] assms(2) by simp
  show "feed (make_bytes sc @ break_bytes sc) kb = Inr ([process_keycode kc kb], kb)" by (simp add: feed_append m b)
qed

lemma feed_stroke:
  assumes ok: "stroke_ok (sh, sc, kc)" and idle: "idle kb" and up: "current_keys kb = []"
  shows "\<exists>ks. feed (stroke_bytes (sh, sc, kc)) kb = Inr (ks, kb) \<and>
    ks = (if sh then [\<lparr>code = Shift, flags = 0\<rparr>, stroke_key (sh, sc, kc)] else [stroke_key (sh, sc, kc)])"
proof -
  note kc = stroke_code(1)[OF ok]
  have t: "(sc, kc) \<in> set set1_table" "kc \<notin> {NULL, PrintScr, CapsLock}" using ok kc by auto
  have none: "\<not> is_pressed k kb" for k by (simp add: is_pressed_iff up)
  have p: "process_keycode k kb = \<lparr>code = k, flags = 0\<rparr>" for k by (simp add: process_keycode_def none)
  have room: "length (current_keys kb) < MAX_KEYS" by (simp add: up MAX_KEYS_def)
  show ?thesis
  proof (cases sh)
    case False
    then show ?thesis using feed_tap(3)[OF t idle none room] by (simp add: p)
  next
    case True
    have s: "(0x2A, Shift) \<in> set set1_table" "Shift \<notin> {NULL, PrintScr, CapsLock}" by (simp_all add: set1_table_def)
    let ?kb = "press Shift kb"
    have held: "is_pressed k ?kb \<longleftrightarrow> k = Shift" for k by (auto simp: is_pressed_iff press_def up p)
    have "process_keycode kc ?kb = \<lparr>code = kc, flags = SHIFT\<rparr>" using kc by (simp add: process_keycode_def held)
    moreover have "idle ?kb" "length (current_keys ?kb) < MAX_KEYS" using idle by (simp_all add: press_def idle_def up MAX_KEYS_def)
    moreover have "\<not> is_pressed kc ?kb" using kc held by simp
    ultimately have "feed (make_bytes sc @ break_bytes sc) ?kb = Inr ([\<lparr>code = kc, flags = SHIFT\<rparr>], ?kb)"
      using feed_tap(3)[OF t, of ?kb] by simp
    then have "feed (make_bytes 0x2A @ (make_bytes sc @ break_bytes sc) @ break_bytes 0x2A) kb =
        Inr ([\<lparr>code = Shift, flags = 0\<rparr>, \<lparr>code = kc, flags = SHIFT\<rparr>], kb)"
      using feed_tap(1,2)[OF s idle none room] by (simp only: feed_append[of _ "_ @ _"] feed_append[of "_ @ _"]) (simp add: p)
    with True show ?thesis by simp
  qed
qed

lemma stroke_pressed:
  assumes ok: "stroke_ok (sh, sc, kc)" and mode: "mode t = Stdin" and put: "stdin_putc fnt (stroke_char (sh, sc, kc)) t = Inr t'"
  shows "keys_pressed fnt (if sh then [\<lparr>code = Shift, flags = 0\<rparr>, stroke_key (sh, sc, kc)] else [stroke_key (sh, sc, kc)]) t = Some (Inr t')"
proof -
  obtain c where c: "map_of key_table (kc, if sh then SHIFT else 0) = Some c" "c \<noteq> 0" using stroke_code(2)[OF ok] by blast
  have "map_of key_table (Shift, 0) = None" by (simp add: key_table_def default_entries_def)
  then have "on_key_pressed fnt \<lparr>code = Shift, flags = 0\<rparr> t = Some (Inr t)" by (simp add: on_key_pressed_def map_key_lookup mode)
  moreover have "on_key_pressed fnt (stroke_key (sh, sc, kc)) t = Some (Inr t')"
  proof -
    have "SHIFT \<noteq> CTRL OR SHIFT" "0 \<noteq> CTRL OR SHIFT" by (simp_all add: CTRL_def SHIFT_def)
    then show ?thesis using stroke_code(1)[OF ok] c put mode by (auto simp: on_key_pressed_def map_key_lookup)
  qed
  ultimately show ?thesis by (cases sh) simp_all
qed

lemma feed_strokes:
  "\<forall>x \<in> set ss. stroke_ok x \<Longrightarrow> idle kb \<Longrightarrow> current_keys kb = [] \<Longrightarrow> mode t = Stdin \<Longrightarrow>
    type_chars fnt (map stroke_char ss) t = Inr t' \<Longrightarrow>
    \<exists>ks. feed (concat (map stroke_bytes ss)) kb = Inr (ks, kb) \<and> keys_pressed fnt ks t = Some (Inr t')"
proof (induction ss arbitrary: t)
  case (Cons x ss)
  obtain sh sc kc where x: "x = (sh, sc, kc)" by (cases x)
  obtain t1 where t1: "stdin_putc fnt (stroke_char x) t = Inr t1" "type_chars fnt (map stroke_char ss) t1 = Inr t'"
    using Cons.prems(5) by (auto simp: rbind_eq_Inr)
  have m1: "mode t1 = Stdin" using type_chars_edited[of fnt "[stroke_char x]" t t1] t1(1) Cons.prems(4) by (simp add: edited_def)
  let ?k = "if sh then [\<lparr>code = Shift, flags = 0\<rparr>, stroke_key x] else [stroke_key x]"
  have f: "feed (stroke_bytes x) kb = Inr (?k, kb)" using feed_stroke[of sh sc kc kb] Cons.prems(1-3) unfolding x by simp
  have k: "keys_pressed fnt ?k t = Some (Inr t1)" using stroke_pressed[of sh sc kc t fnt t1] Cons.prems(1,4) t1(1) unfolding x by simp
  obtain ks where ks: "feed (concat (map stroke_bytes ss)) kb = Inr (ks, kb)" "keys_pressed fnt ks t1 = Some (Inr t')"
    using Cons.IH[OF _ Cons.prems(2,3) m1 t1(2)] Cons.prems(1) by auto
  show ?case using f ks keys_pressed_append[OF k, of ks]
    by (intro exI[of _ "?k @ ks"]) (simp add: feed_append del: stroke_bytes.simps)
qed simp

definition return_stroke :: stroke where "return_stroke = (False, 0x1C, Return)"

lemma return_stroke: "stroke_ok return_stroke" "stroke_char return_stroke = 10"
  by (simp_all add: return_stroke_def set1_table_def key_table_def default_entries_def)


text \<open>The example machine with the page of the local APIC mapped.\<close>

lemma example_lapic: "\<exists>m L. wf_space m 0 L \<and> current_root_table m = Inr 0 \<and> lapic_mapped msr m 0"
proof -
  from map_to_spec[OF example_machine_wf writeable_flags, of "\<lparr>start_address = lapic_base msr\<rparr>" "\<lparr>page_start = lapic_base msr\<rparr>"]
    lapic_page(2)[of msr] example_machine_frames
  obtain m L where m: "evolves example_machine 0 [0 \<mapsto> 4] 3 m L" "pt_entry m 0 \<lparr>page_start = lapic_base msr\<rparr> \<noteq> None"
    by (auto simp: map_to_post_def)
  then show ?thesis using evolves_wf[OF m(1)] evolves_root[OF m(1)] example_machine_root by (auto simp: lapic_mapped_def)
qed


end
