(* ===== verification/Elf_Props.thy ===== *)
theory Elf_Props
  imports Elf
begin

text \<open>
  Properties of the ELF reader: what is laid out as the format says is read back, symbols are found by address, and the stack trace names every frame of a
  well-formed chain.
\<close>

section \<open>Layout\<close>

definition encode_header :: "elf_header \<Rightarrow> u8 list" where
  "encode_header h = magic h @ le_enc 1 (unat (class_w h)) @ le_enc 1 (unat (endianness h)) @ le_enc 1 (unat (version h)) @
     le_enc 1 (unat (osabi h)) @ le_enc 1 (unat (abiver h)) @ padding h @ le_enc 2 (unat (kind h)) @ le_enc 2 (unat (insturction_set h)) @
     le_enc 4 (unat (version_2 h)) @ le_enc 8 (unat (entry_point h)) @ le_enc 8 (unat (program_header_offset h)) @
     le_enc 8 (unat (section_header_table_offset h)) @ le_enc 4 (unat (h_flags h)) @ le_enc 2 (unat (h_size h)) @
     le_enc 2 (unat (program_header_entry_size h)) @ le_enc 2 (unat (program_header_entries h)) @
     le_enc 2 (unat (section_table_entry_size h)) @ le_enc 2 (unat (section_table_entries h)) @
     le_enc 2 (unat (sections_names_section_offset h))"

definition encode_section :: "section_header \<Rightarrow> u8 list" where
  "encode_section s = le_enc 4 (unat (sh_name_index s)) @ le_enc 4 (unat (section_type s)) @ le_enc 8 (unat (sh_flags s)) @
     le_enc 8 (unat (sh_addr s)) @ le_enc 8 (unat (sh_offset s)) @ le_enc 8 (unat (sh_size s)) @ le_enc 4 (unat (sh_link s)) @
     le_enc 4 (unat (sh_info s)) @ le_enc 8 (unat (sh_alignment s)) @ le_enc 8 (unat (entry_size s))"

text \<open>The symbol of the ELF64 format: the fields after the name are in another order than in \<open>Sym\<close>, and the size has eight bytes.\<close>

record elf64_sym =
  st_name :: u32
  st_info :: u8
  st_other :: u8
  st_shndx :: u16
  st_value :: u64
  st_size :: u64

definition encode_elf64_sym :: "elf64_sym \<Rightarrow> u8 list" where
  "encode_elf64_sym s = le_enc 4 (unat (st_name s)) @ le_enc 1 (unat (st_info s)) @ le_enc 1 (unat (st_other s)) @
     le_enc 2 (unat (st_shndx s)) @ le_enc 8 (unat (st_value s)) @ le_enc 8 (unat (st_size s))"

lemma unat_mod [simp]:
  "unat (a :: u8) mod 256 = unat a" "unat (b :: u16) mod 65536 = unat b" "unat (c :: u32) mod 4294967296 = unat c"
  "unat (d :: u64) mod 18446744073709551616 = unat d"
proof -
  have "unat a < 2 ^ LENGTH(8)" "unat b < 2 ^ LENGTH(16)" "unat c < 2 ^ LENGTH(32)" "unat d < 2 ^ LENGTH(64)" by (rule unsigned_less)+
  then show "unat a mod 256 = unat a" "unat b mod 65536 = unat b" "unat c mod 4294967296 = unat c"
    "unat d mod 18446744073709551616 = unat d" by simp_all
qed

lemma decode_encode_header:
  assumes "length (magic h) = 4" and "length (padding h) = 7"
  shows "decode_header (encode_header h) = h" and "length (encode_header h) = 64"
  using assms by (simp_all add: decode_header_def encode_header_def field_def le_val_enc del: le_enc.simps)

lemma decode_encode_section: "decode_section (encode_section s) = s" "length (encode_section s) = 64"
  by (simp_all add: decode_section_def encode_section_def field_def le_val_enc del: le_enc.simps)

lemma length_encode_sym [simp]: "length (encode_elf64_sym s) = 24"
  by (simp add: encode_elf64_sym_def del: le_enc.simps)

lemma le_enc_split: "le_enc (j + k) n = le_enc j n @ le_enc k (n div 256 ^ j)"
  by (induction j arbitrary: n) (simp_all add: div_mult2_eq)

lemma of_nat_mod_word [simp]:
  "(of_nat (n mod 256) :: u8) = of_nat n" "(of_nat (n mod 65536) :: u16) = of_nat n" "(of_nat (n mod 4294967296) :: u32) = of_nat n"
  by (simp_all add: word_of_nat_eq_iff take_bit_eq_mod)

text \<open>What \<open>Sym\<close> reads from a symbol of the format: name and value, and the low half of the size; the rest is the high half of the size.\<close>

lemma decode_elf64_sym:
  "decode_sym (encode_elf64_sym s) =
    \<lparr>name_index = st_name s, sym_value = st_value s, sym_size = ucast (st_size s), sym_info = of_nat (unat (st_size s) div 2 ^ 32),
     sym_other = of_nat (unat (st_size s) div 2 ^ 40), section_index = of_nat (unat (st_size s) div 2 ^ 48)\<rparr>"
proof -
  have e2: "le_enc 2 k = le_enc 1 k @ le_enc 1 (k div 256)" for k by (simp add: numeral_2_eq_2)
  have e4: "le_enc 4 k = le_enc 1 k @ le_enc 1 (k div 256) @ le_enc 2 (k div 65536)" for k
    using le_enc_split[of 2 2 k] e2[of k] by (simp del: le_enc.simps)
  have "le_enc 8 (unat (st_size s)) = le_enc 4 (unat (st_size s)) @ le_enc 4 (unat (st_size s) div 4294967296)"
    using le_enc_split[of 4 4 "unat (st_size s)"] by (simp del: le_enc.simps)
  then have "le_enc 8 (unat (st_size s)) = le_enc 4 (unat (st_size s)) @ le_enc 1 (unat (st_size s) div 2 ^ 32) @
      le_enc 1 (unat (st_size s) div 2 ^ 40) @ le_enc 2 (unat (st_size s) div 2 ^ 48)"
    unfolding e4[of "unat (st_size s) div 4294967296"] by (simp add: div_mult2_eq[symmetric] del: le_enc.simps)
  moreover have "(of_nat (unat (st_size s)) :: u32) = ucast (st_size s)" by simp
  ultimately show ?thesis
    by (simp add: decode_sym_def encode_elf64_sym_def field_def le_val_enc del: le_enc.simps)
qed

section \<open>Reading back\<close>

lemma read_array_stored:
  assumes "\<And>x. x \<in> set xs \<Longrightarrow> dec (enc x) = f x \<and> length (enc x) = k"
  shows "stored m a (concat (map enc xs)) \<Longrightarrow> read_array dec k m a (length xs) = Inr (map f xs)"
  using assms
proof (induction xs arbitrary: a)
  case (Cons x xs)
  then have x: "dec (enc x) = f x" "length (enc x) = k" by auto
  with Cons.prems(1) have "stored m a (enc x)" "stored m (a + k) (concat (map enc xs))" by (simp_all add: stored_append)
  with Cons.IH[OF this(2)] Cons.prems(2) x show ?case by (simp add: read_stored)
qed simp

text \<open>A header that the kernel accepts.\<close>

definition good_header :: "elf_header \<Rightarrow> bool" where
  "good_header h \<longleftrightarrow> length (magic h) = 4 \<and> length (padding h) = 7 \<and> verify h \<and> supported h = Inr ()"

lemma parse_stored:
  assumes len: "length (magic h) = 4" "length (padding h) = 7" and hd: "stored m p (encode_header h)"
    and tab: "stored m (ptr_offset p (section_header_table_offset h)) (concat (map encode_section secs))"
    and n: "unat (section_table_entries h) = length secs"
  shows "parse m p = Inr (if \<not> verify h then Inl NotAnElf
    else case supported h of Inl e \<Rightarrow> Inl e | Inr _ \<Rightarrow> Inr \<lparr>header_ptr = p, header = h, sections = secs\<rparr>)"
proof -
  have "read_bytes m p 64 = Inr (encode_header h)" using read_stored[OF hd] decode_encode_header[OF len] by simp
  moreover have "read_array decode_section 64 m (ptr_offset p (section_header_table_offset h)) (length secs) = Inr secs"
    using read_array_stored[OF _ tab, of decode_section id] decode_encode_section by simp
  ultimately show ?thesis by (simp add: parse_def decode_encode_header[OF len] n Let_def split: sum.splits)
qed



definition example_header :: elf_header where
  "example_header = \<lparr>magic = [0x7F, 0x45, 0x4C, 0x46], class_w = 2, endianness = 1, version = 1, osabi = 0, abiver = 0,
     padding = [0, 0, 0, 0, 0, 0, 0], kind = 2, insturction_set = 0x3E, version_2 = 1, entry_point = 0, program_header_offset = 0,
     section_header_table_offset = 64, h_flags = 0, h_size = 64, program_header_entry_size = 0, program_header_entries = 0,
     section_table_entry_size = 64, section_table_entries = 1, sections_names_section_offset = 0\<rparr>"

definition example_section :: section_header where
  "example_section = \<lparr>sh_name_index = 0, section_type = 2, sh_flags = 0, sh_addr = 0, sh_offset = 8, sh_size = 24, sh_link = 0, sh_info = 0,
     sh_alignment = 0, entry_size = 24\<rparr>"


section \<open>Looking up symbols\<close>

text \<open>The symbols of the image do not overlap, and no symbol is larger than four gigabytes or reaches past the end of the address space.\<close>

definition apart :: "elf64_sym \<Rightarrow> elf64_sym \<Rightarrow> bool" where
  "apart s t \<longleftrightarrow> unat (st_value s) + unat (st_size s) \<le> unat (st_value t) \<or> unat (st_value t) + unat (st_size t) \<le> unat (st_value s)"

definition good_sym :: "elf64_sym \<Rightarrow> bool" where
  "good_sym s \<longleftrightarrow> unat (st_size s) < 2 ^ 32 \<and> unat (st_value s) + unat (st_size s) < 2 ^ 64"

lemma sym_end:
  assumes "good_sym s"
  shows "add_w (sym_value (decode_sym (encode_elf64_sym s))) (ucast (sym_size (decode_sym (encode_elf64_sym s)))) =
      Inr (st_value s + st_size s)" and "unat (st_value s + st_size s) = unat (st_value s) + unat (st_size s)"
proof -
  have sz: "unat (st_size s) < 2 ^ 32" and en: "unat (st_value s) + unat (st_size s) < 2 ^ 64" using assms by (auto simp: good_sym_def)
  have "(ucast (ucast (st_size s) :: u32) :: u64) = st_size s"
    using sz by (intro word_unat_eq_iff[THEN iffD2]) (simp add: unsigned_ucast_eq unsigned_take_bit_eq take_bit_nat_eq_self)
  then show "add_w (sym_value (decode_sym (encode_elf64_sym s))) (ucast (sym_size (decode_sym (encode_elf64_sym s)))) =
      Inr (st_value s + st_size s)" using en by (simp add: decode_elf64_sym add_w_def)
  show "unat (st_value s + st_size s) = unat (st_value s) + unat (st_size s)" using en by (simp add: unat_add_small)
qed

lemma find_sym_inside:
  assumes "\<forall>t \<in> set pre. good_sym t \<and> apart t s" and "good_sym s"
    and "unat (st_value s) < unat v" and "unat v < unat (st_value s) + unat (st_size s)"
  shows "find_sym v (map (\<lambda>t. decode_sym (encode_elf64_sym t)) (pre @ s # post)) = Inr (Some (decode_sym (encode_elf64_sym s)))"
  using assms(1)
proof (induction pre)
  case Nil
  have "st_value s \<le> v" "v \<le> st_value s + st_size s" using assms(3,4) sym_end(2)[OF assms(2)] by (simp_all add: word_le_nat_alt)
  then show ?case using sym_end(1)[OF assms(2)] by (simp add: decode_elf64_sym)
next
  case (Cons t pre)
  then have t: "good_sym t" "apart t s" by simp_all
  have "\<not> (st_value t \<le> v \<and> v \<le> st_value t + st_size t)"
    using t(2) assms(3,4) sym_end(2)[OF t(1)] by (auto simp: apart_def word_le_nat_alt)
  then show ?case using Cons sym_end(1)[OF t(1)] by (auto simp: decode_elf64_sym)
qed

text \<open>The image holds the symbols \<open>syms\<close>, and the name of a symbol.\<close>

definition symbols_at :: "memory \<Rightarrow> elf \<Rightarrow> elf64_sym list \<Rightarrow> bool" where
  "symbols_at m e syms \<longleftrightarrow> (\<exists>t. find (\<lambda>s. section_type s = 2) (sections e) = Some t \<and> entry_size t = 24 \<and>
     unat (sh_size t) = 24 * length syms \<and> stored m (header_ptr e + unat (sh_offset t)) (concat (map encode_elf64_sym syms)))"

definition named :: "memory \<Rightarrow> elf \<Rightarrow> elf64_sym \<Rightarrow> string \<Rightarrow> bool" where
  "named m e s nm \<longleftrightarrow> st_name s \<noteq> 0 \<and> 0 \<notin> set (bytes_of nm) \<and> utf8_valid (bytes_of nm) \<and> (\<exists>t. string_table m e = Inr (Some t) \<and>
     stored m (header_ptr e + unat (sh_offset t) + unat (st_name s)) (bytes_of nm @ [0]))"

lemma symtable_stored:
  assumes "symbols_at m e syms"
  shows "symtable m e = Inr (Some (map (\<lambda>s. decode_sym (encode_elf64_sym s)) syms))"
proof -
  obtain t where t: "find (\<lambda>s. section_type s = 2) (sections e) = Some t" "entry_size t = 24" "unat (sh_size t) = 24 * length syms"
    "stored m (header_ptr e + unat (sh_offset t)) (concat (map encode_elf64_sym syms))" using assms by (auto simp: symbols_at_def)
  have "unat (sh_size t div 24) = length syms" using t(3) by (simp add: unat_div)
  moreover have "read_array decode_sym 24 m (header_ptr e + unat (sh_offset t)) (length syms) =
      Inr (map (\<lambda>s. decode_sym (encode_elf64_sym s)) syms)" by (rule read_array_stored[OF _ t(4)]) simp
  ultimately show ?thesis using t by (simp add: symtable_def div_w_def)
qed

definition inside :: "u64 \<Rightarrow> elf64_sym \<Rightarrow> bool" where
  "inside v s \<longleftrightarrow> unat (st_value s) < unat v \<and> unat v < unat (st_value s) + unat (st_size s)"

lemma frame_name_inside:
  assumes syms: "symbols_at m e syms" "\<forall>s \<in> set syms. good_sym s" "sorted_wrt apart syms"
    and s: "s \<in> set syms" "inside v s" "named m e s nm"
  shows "frame_name m (Some e) v = Inr nm"
proof -
  obtain pre post where pp: "syms = pre @ s # post" using s(1) by (auto dest: split_list)
  have "find_sym v (map (\<lambda>t. decode_sym (encode_elf64_sym t)) syms) = Inr (Some (decode_sym (encode_elf64_sym s)))"
    unfolding pp by (rule find_sym_inside) (use syms(2,3) s(2) in \<open>auto simp: pp inside_def sorted_wrt_append\<close>)
  then have "sym_from_value_range m e v = Inr (Some (decode_sym (encode_elf64_sym s)))"
    by (simp add: sym_from_value_range_def symtable_stored[OF syms(1)])
  moreover obtain t where "string_table m e = Inr (Some t)"
    "stored m (header_ptr e + unat (sh_offset t) + unat (st_name s)) (bytes_of nm @ [0])" using s(3) by (auto simp: named_def)
  ultimately show ?thesis using s(3) cstr_stored[of m _ "bytes_of nm"]
    by (auto simp: frame_name_def string_table_index_def decode_elf64_sym read_str_def named_def)
qed

section \<open>Stack traces\<close>

text \<open>A chain of stack frames: each holds the frame pointer of its caller and above it the return address; the outermost frame pointer is zero.\<close>

fun chain :: "memory \<Rightarrow> u64 \<Rightarrow> (u64 \<times> u64) list \<Rightarrow> bool" where
  "chain m fp [] \<longleftrightarrow> fp = 0"
| "chain m fp ((ret, fp') # fs) \<longleftrightarrow> fp \<noteq> 0 \<and> stored m (unat fp) (le_enc 8 (unat fp')) \<and>
     stored m (unat fp + 8) (le_enc 8 (unat ret)) \<and> chain m fp' fs"

lemma stack_trace_chain:
  assumes "chain m fp fs" and "\<forall>(ret, _) \<in> set fs. frame_name m krnl ret = Inr (nm ret)"
  shows "stack_trace m krnl fp out = Some (Inr (out @ map (\<lambda>(ret, _). (ret, nm ret)) fs))"
  using assms
proof (induction m fp fs arbitrary: out rule: chain.induct)
  case (1 m fp)
  then show ?case by (simp add: stack_trace.simps)
next
  case (2 m fp ret fp' fs)
  then have "read_le m (unat fp) 8 = Inr fp'" "read_le m (unat fp + 8) 8 = Inr ret" by (auto intro: read_le_stored)
  with 2 show ?case by (subst stack_trace.simps) simp
qed

text \<open>
  C24: a panic prints a complete stack trace: for a chain of frames that ends, whose return addresses lie inside functions of the symbol table of the
  image, the trace ends and lists every return address, innermost first, with the name of its function. The image is laid out as the
  ELF64 format says, its symbols do not overlap and are smaller than four gigabytes.
\<close>
theorem stack_trace_correct:
  assumes syms: "symbols_at m e syms" "\<forall>s \<in> set syms. good_sym s" "sorted_wrt apart syms"
    and frames: "chain m fp fs" and names: "\<forall>(ret, _) \<in> set fs. \<exists>s \<in> set syms. inside ret s \<and> named m e s (nm ret)"
  shows "stack_trace m (Some e) fp [] = Some (Inr (map (\<lambda>(ret, _). (ret, nm ret)) fs))"
proof -
  have "\<forall>(ret, _) \<in> set fs. frame_name m (Some e) ret = Inr (nm ret)"
    using names frame_name_inside[OF syms] by fastforce
  then show ?thesis using stack_trace_chain[OF frames] by simp
qed

definition example_sym :: elf64_sym where
  "example_sym = \<lparr>st_name = 1, st_info = 2, st_other = 0, st_shndx = 0, st_value = 0x1000, st_size = 16\<rparr>"

text \<open>A symbol table at 8, its strings at 32, the section names at 40 and a stack frame at 56.\<close>

definition example_memory :: memory where
  "example_memory = replicate 8 None @ map Some (encode_elf64_sym example_sym @ [0] @ bytes_of ''f'' @ [0, 0, 0, 0, 0, 0] @
     [0] @ bytes_of ''.strtab'' @ [0, 0, 0, 0, 0, 0, 0, 0] @ le_enc 8 0 @ le_enc 8 0x1004)"

definition example_elf :: elf where
  "example_elf = \<lparr>header_ptr = 0, header = example_header\<lparr>sections_names_section_offset := 2\<rparr>,
     sections = [example_section, example_section\<lparr>sh_name_index := 1, section_type := 3, sh_offset := 32\<rparr>,
       example_section\<lparr>section_type := 3, sh_offset := 40\<rparr>]\<rparr>"

lemma example_stored:
  "stored example_memory 8 (encode_elf64_sym example_sym)" "stored example_memory 33 (bytes_of ''f'' @ [0])"
  "stored example_memory 41 (bytes_of ''.strtab'' @ [0])" "stored example_memory 56 (le_enc 8 0)" "stored example_memory 64 (le_enc 8 0x1004)"
  by (simp_all add: example_memory_def stored_def bytes_of_def del: le_enc.simps)

lemma example_strtab:
  "string_table example_memory example_elf = Inr (Some (example_section\<lparr>sh_name_index := 1, section_type := 3, sh_offset := 32\<rparr>))"
proof -
  have "cstr_at (drop 41 example_memory) = Inr (bytes_of ''.strtab'')"
    by (rule cstr_stored[OF example_stored(3)]) (simp add: bytes_of_def)
  moreover have "utf8_valid (bytes_of ''.strtab'')" by (simp add: bytes_of_def)
  ultimately show ?thesis
    by (simp add: string_table_def example_elf_def example_section_def example_header_def section_names_table_index_def
        section_names_table_def idx_def read_str_def)
qed

theorem stack_trace_correct_witness:
  "stack_trace example_memory (Some example_elf) 56 [] = Some (Inr [(0x1004, ''f'')])"
proof -
  have 1: "symbols_at example_memory example_elf [example_sym]"
    using example_stored(1) by (simp add: symbols_at_def example_elf_def example_section_def)
  have 2: "\<forall>s \<in> set [example_sym]. good_sym s" "sorted_wrt apart [example_sym]" by (simp_all add: good_sym_def example_sym_def)
  have 3: "chain example_memory 56 [(0x1004, 0)]" using example_stored(4,5) by simp
  have "named example_memory example_elf example_sym ''f''"
    using example_stored(2) by (simp add: named_def example_strtab) (simp add: example_sym_def example_elf_def bytes_of_def)
  moreover have "inside 0x1004 example_sym" by (simp add: inside_def example_sym_def)
  ultimately have "\<forall>(ret, _) \<in> set [(0x1004, 0 :: u64)]. \<exists>s \<in> set [example_sym]. inside ret s \<and> named example_memory example_elf s ''f''"
    by simp
  from stack_trace_correct[OF 1 2 3 this] show ?thesis by simp
qed

end
