(* ===== verification/Boot_Props.thy ===== *)
theory Boot_Props
  imports Boot Keyboard_Irq Elf_Props
begin

text \<open>
  The boot: with the answers the boot protocol promises, the tables the firmware must provide and enough memory, \<open>kinit\<close> succeeds and establishes the invariants that the properties of the
  components start from.
\<close>

section \<open>Memory\<close>

lemma sum_lengths_spec:
  "unat n + (\<Sum>e \<leftarrow> es. unat (entry_length e)) < 2 ^ 64 \<Longrightarrow> \<exists>k. sum_lengths es n = Inr k"
proof (induction es arbitrary: n)
  case (Cons e es)
  then have "unat (n + entry_length e) = unat n + unat (entry_length e)" by (intro unat_add_small) simp
  with Cons show ?case by (simp add: add_w_def)
qed simp

lemma largest_end_spec:
  "\<forall>e \<in> set es. entry_end e < 2 ^ 64 \<Longrightarrow> \<exists>k. largest_end es n = Inr k \<and> unat k = Max (insert (unat n) (entry_end ` set es))"
proof (induction es arbitrary: n)
  case (Cons e es)
  have u: "unat (entry_base e + entry_length e) = entry_end e" "add_w (entry_base e) (entry_length e) = Inr (entry_base e + entry_length e)"
    using Cons.prems unat_add_small[of "entry_base e" "entry_length e"] by (simp_all add: add_w_def entry_end_def)
  let ?n = "if entry_base e + entry_length e > n then entry_base e + entry_length e else n"
  have n: "unat ?n = max (unat n) (entry_end e)" using u(1) by (auto simp: word_less_nat_alt)
  obtain k where k: "largest_end es ?n = Inr k" "unat k = Max (insert (unat ?n) (entry_end ` set es))" using Cons by auto
  have "Max (insert (max (unat n) (entry_end e)) (entry_end ` set es)) = Max (insert (unat n) (insert (entry_end e) (entry_end ` set es)))"
    by (cases "entry_end ` set es = {}") (simp_all add: max.assoc)
  then show ?case using k n u(2) by auto
qed simp

text \<open>The end of the higher-half map: the boot loader maps at least four gibibytes.\<close>

definition memory_top :: "mmap_entry list \<Rightarrow> nat" where
  "memory_top es = Max (insert (2 ^ 32) (entry_end ` set es))"

lemma phy_offset_end:
  assumes "hhdm_response b = Some phy" and "mmap_response b = Some es" and "unat phy + memory_top es < 2 ^ 64"
  shows "\<exists>e. get_phy_offset_end b = Inr e \<and> unat e = unat phy + memory_top es"
proof -
  have fin: "finite (insert (2 ^ 32) (entry_end ` set es))" by simp
  have "entry_end x \<le> memory_top es" if "x \<in> set es" for x unfolding memory_top_def using that fin by (intro Max_ge) auto
  then have "\<forall>x \<in> set es. entry_end x < 2 ^ 64" using assms(3) by fastforce
  from largest_end_spec[OF this, of 0] obtain k where k: "largest_end es 0 = Inr k" "unat k = Max (insert 0 (entry_end ` set es))" by auto
  have "unat (max 0x100000000 k) = max (2 ^ 32) (unat k)" by (simp add: max_def word_le_nat_alt)
  also have "\<dots> = memory_top es"
    unfolding memory_top_def k(2) by (cases "entry_end ` set es = {}") simp_all
  finally have m: "unat (max 0x100000000 k) = memory_top es" .
  then have "unat (phy + max 0x100000000 k) = unat phy + memory_top es" using assms(3) by (subst unat_add_small) simp_all
  then show ?thesis using k(1) m assms by (simp add: get_phy_offset_end_def get_phy_offset_def MEMORY_END_def mmap_request_def add_w_def)
qed

section \<open>The first part\<close>

text \<open>What the boot protocol and the linker promise: all answers are there, the memory map is sane, and the image of the kernel can be read.\<close>

definition limine_ok :: "limine \<Rightarrow> platform \<Rightarrow> usize \<Rightarrow> mmap_entry list \<Rightarrow> elf \<Rightarrow> bool" where
  "limine_ok b pl phy es e \<longleftrightarrow>
     hhdm_response b = Some phy \<and> mmap_response b = Some es \<and> mmap_ok es \<and>
     (\<exists>r \<in> set es. entry_usable r \<and> (\<forall>x \<in> set es. entry_usable x \<longrightarrow> entry_end x \<le> 32768 * unat (entry_length r))) \<and>
     (\<Sum>x \<leftarrow> es. unat (entry_length x)) < 2 ^ 64 \<and> unat phy + memory_top es + 37748736 + 16 < 2 ^ 64 \<and>
     (\<exists>img size dbg. kernel_file_response b = Some (img, size) \<and> parse (pl_memory pl) img = Inr (Inr e) \<and> elf_debug (pl_memory pl) e = Inr dbg)"

lemma memory_top_ge: "x \<in> set es \<Longrightarrow> entry_end x \<le> memory_top es"
  unfolding memory_top_def by (rule Max_ge) auto

lemma kernel_new_spec:
  assumes ok: "limine_ok b pl phy es e"
  shows "\<exists>ra. region_allocator_new es phy = Inr ra \<and> kernel_new b pl m0 = Inr (e, m0\<lparr>frames := ra, phy_offset := phy\<rparr>)"
proof -
  from ok obtain r where r: "r \<in> set es" "entry_usable r" "\<forall>x \<in> set es. entry_usable x \<longrightarrow> entry_end x \<le> 32768 * unat (entry_length r)"
    by (auto simp: limine_ok_def)
  have top: "unat phy + memory_top es < 2 ^ 64" using ok by (simp add: limine_ok_def)
  have "unat (entry_base x) + unat phy < 2 ^ 64" if "x \<in> set es" for x
    using memory_top_ge[OF that] top unfolding entry_end_def by linarith
  then obtain ra where ra: "region_allocator_new es phy = Inr ra"
    using region_allocator_new_spec[OF _ r, of phy] ok by (auto simp: limine_ok_def)
  obtain n where n: "sum_lengths es 0 = Inr n" using sum_lengths_spec[of 0 es] ok by (auto simp: limine_ok_def)
  obtain t where t: "get_phy_offset_end b = Inr t" using phy_offset_end[OF _ _ top, of b] ok by (auto simp: limine_ok_def)
  have b: "get_phy_offset b = Inr phy" "mmap_request b = Inr es" "MEMORY_SIZE b = Inr n"
    using ok n by (simp_all add: limine_ok_def get_phy_offset_def mmap_request_def MEMORY_SIZE_def)
  obtain img size dbg where "kernel_image_info b = Inr (img, size)" "parse (pl_memory pl) img = Inr (Inr e)" "elf_debug (pl_memory pl) e = Inr dbg"
    using ok by (auto simp: limine_ok_def kernel_image_info_def)
  then show ?thesis using ra t b by (simp add: kernel_new_def)
qed

section \<open>The processor and its interrupts\<close>

lemma identity_map_writeable_spec:
  assumes wf: "wf_space m root L" and root: "current_root_table m = Inr root" and fr: "3 \<le> card (free_frames (frames m))"
    and a: "addr_ok (addr AND NOT (mask 12))"
  shows "\<exists>m' L'. identity_map_writeable addr m = Inr m' \<and> evolves m root L 3 m' L'"
proof -
  from map_to_spec[OF wf writeable_flags, of "\<lparr>start_address = addr AND NOT (mask 12)\<rparr>" "\<lparr>page_start = addr AND NOT (mask 12)\<rparr>"] a fr
  show ?thesis
    by (auto simp: map_to_post_def identity_map_writeable_def root page_containing_eq frame_containing_address_eq)
qed

text \<open>
  What the firmware must provide: the tables, among them a fixed table \<open>f\<close> of a machine on which ACPI is on already (or cannot be switched), and a table of interrupt
  controllers that has a record of an I/O APIC with the address \<open>io\<close>.
\<close>

definition firmware_ok :: "platform \<Rightarrow> io_log \<Rightarrow> u32 \<Rightarrow> u32 list \<Rightarrow> fadt \<Rightarrow> u32 \<Rightarrow> bool" where
  "firmware_ok pl ports r addrs f io \<longleftrightarrow>
     (\<exists>hdr a c rs j. firmware_at (pl_memory pl) r addrs hdr \<and>
        find (\<lambda>x. signatrue (hdr x) = bytes_of ''FACP'') addrs = Some a \<and> read_fadt (pl_memory pl) (unat a) = Inr f \<and>
        find (\<lambda>x. signatrue (hdr x) = bytes_of ''APIC'') addrs = Some c \<and> madt_at (pl_memory pl) (unat c) rs \<and>
        j < length rs \<and> rs ! j ! 0 = 1 \<and> (\<forall>k < j. rs ! k ! 0 \<noteq> 1) \<and>
        read_le (pl_memory pl) (unat c + 44 + length (concat (take j rs)) + 4) 4 = Inr io) \<and>
     (smi_cmd f = 0 \<or> answer16 (pl_device pl) (init_serial ports) (ucast (pm1a_cnt_blk f)) AND 1 = 1)"

lemma enable_acpi_on:
  "smi_cmd f = 0 \<or> answer16 dev h (ucast (pm1a_cnt_blk f)) AND 1 = 1 \<Longrightarrow> \<exists>w. enable_acpi dev f h = Some (Inr (h @ w)) \<and> length w \<le> 1"
  by (auto simp: enable_acpi_def inw_def)

lemma lapic_regs: "r < 0x1000 \<Longrightarrow> get_local_apic_reg (lapic_base msr) r = Inr (lapic_base msr + ucast r)"
proof -
  assume r: "r < 0x1000"
  have "lapic_base msr \<le> 0xFFFFF000" unfolding lapic_base_def by (rule word_and_le1)
  then have "unat (lapic_base msr) \<le> 0xFFFFF000" by (simp add: word_le_nat_alt)
  moreover have "unat (ucast r :: usize) = unat r" using unsigned_less[where 'a = nat, of r] by (simp add: unsigned_ucast_eq unsigned_take_bit_eq take_bit_nat_eq_self)
  moreover have "unat r < 0x1000" using r by (simp add: word_less_nat_alt)
  ultimately show ?thesis by (simp add: get_local_apic_reg_def add_w_def)
qed

text \<open>The writes to the registers of the local APIC: it is switched on with a spurious vector, and the timer is made periodic and started.\<close>

definition lapic_writes :: "u64 \<Rightarrow> mmio" where
  "lapic_writes msr =
     [(lapic_base msr + 0xF0, 0x1FF), (lapic_base msr + 0x320, encode_u32 (lvt_new 0x20 TIMER_PERIODIC)),
      (lapic_base msr + 0x3E0, 0xB), (lapic_base msr + 0x380, 0xFFFFFF)]"

lemma enable_apic_interrupts_spec:
  assumes wf: "wf_space m root L" and root: "current_root_table m = Inr root" and fr: "12 + 3 * length addrs \<le> card (free_frames (frames m))"
    and fw: "firmware_ok pl ports r addrs f io"
  shows "\<exists>m' L' ws. enable_apic_interrupts (pl_memory pl) (Some (ucast r)) (pl_msr pl) apic_id m = Some (Inr (lapic_writes (pl_msr pl) @ ws, m')) \<and>
    enable_apic_keyboard (ucast io) apic_id = Inr ws \<and> evolves m root L (12 + 3 * length addrs) m' L'"
proof -
  obtain hdr c rs j where fw: "firmware_at (pl_memory pl) r addrs hdr"
    "find (\<lambda>x. signatrue (hdr x) = bytes_of ''APIC'') addrs = Some c" "madt_at (pl_memory pl) (unat c) rs"
    "j < length rs" "rs ! j ! 0 = 1" "\<forall>k < j. rs ! k ! 0 \<noteq> 1"
    "read_le (pl_memory pl) (unat c + 44 + length (concat (take j rs)) + 4) 4 = Inr io"
    using fw unfolding firmware_ok_def by blast
  let ?b = "lapic_base (pl_msr pl)"
  have "3 \<le> card (free_frames (frames m))" using fr by simp
  from identity_map_writeable_spec[OF wf root this, of ?b] obtain m1 L1 where
    m1: "identity_map_writeable ?b m = Inr m1" "evolves m root L 3 m1 L1" by (auto simp: lapic_page)
  have root1: "current_root_table m1 = Inr root" and fr1: "6 + 3 * length addrs \<le> card (free_frames (frames m1))"
    using evolves_root[OF m1(2)] root evolves_card[OF m1(2), of "9 + 3 * length addrs"] fr by simp_all
  from find_table[OF evolves_wf[OF m1(2)] root1 fr1 fw(1), of "bytes_of ''APIC''"] obtain sdt m2 m3 L3 where
    t: "get_sdt (pl_memory pl) (Some (ucast r)) m1 = Inr (sdt, m2)"
      "get_entry_of_signatrue (pl_memory pl) sdt (bytes_of ''APIC'') m2 = Inr (map_option ucast (Some c), m3)"
      "evolves m1 root L1 (6 + 3 * length addrs) m3 L3" unfolding fw(2) by blast
  have root3: "current_root_table m3 = Inr root" and fr3: "3 \<le> card (free_frames (frames m3))"
    using evolves_root[OF t(3)] root1 evolves_card[OF t(3), of 3] evolves_card[OF m1(2), of "9 + 3 * length addrs"] fr by simp_all
  from identity_map_writeable_spec[OF evolves_wf[OF t(3)] root3 fr3 addr_ok_u32[of io]] obtain m4 L4 where
    m4: "identity_map_writeable (ucast io) m3 = Inr m4" "evolves m3 root L3 3 m4 L4" by blast
  have rec: "get_record_of_type (pl_memory pl) (unat c) 1 = Some (Inr (Some (unat c + 44 + length (concat (take j rs)))))"
    using madt_record_first[OF fw(3-6)] .
  have "unat (ucast io :: usize) < 2 ^ LENGTH(32)" unfolding unat_ucast_u32 by (rule unsigned_less)
  then have "\<exists>ws. enable_apic_keyboard (ucast io) apic_id = Inr ws"
    by (auto simp: enable_apic_keyboard_def write_ioapic_irq_def mul_w_def add_w_def write_ioapic_val_to_reg_def split: prod.splits)
  then obtain ws where ws: "enable_apic_keyboard (ucast io) apic_id = Inr ws" by blast
  have "enable_apic_interrupts (pl_memory pl) (Some (ucast r)) (pl_msr pl) apic_id m = Some (Inr (lapic_writes (pl_msr pl) @ ws, m4))"
    using m1(1) t(1,2) rec fw(7) m4(1) ws
    by (simp add: enable_apic_interrupts_def get_local_apic_addr_def lapic_base_def[symmetric] lapic_regs madt_get_def get_io_apic_addr_def
        unat_ucast_u32 enable_apic_timer_def lapic_writes_def Let_def)
  moreover have "evolves m root L (12 + 3 * length addrs) m4 L4"
    using evolves_trans[OF evolves_trans[OF m1(2) t(3)] m4(2)] by simp
  ultimately show ?thesis using ws by blast
qed

lemma arch_init_spec:
  assumes wf: "wf_space m root L" and root: "current_root_table m = Inr root" and fr: "18 + 6 * length addrs \<le> card (free_frames (frames m))"
    and fw: "firmware_ok pl (hw_ports hw) r addrs f io"
  shows "\<exists>m' L' w ws. arch_init pl (Some (ucast r)) hw m =
      Some (Inr (\<lparr>hw_segments = (init_gdt (pl_tss pl) (hw_segments hw))\<lparr>idtr_limit := IDT_LIMIT, idtr_table := map (gate_for (pl_handler pl)) [0..<256]\<rparr>,
        hw_ports = init_serial (hw_ports hw) @ w, hw_mmio = hw_mmio hw @ lapic_writes (pl_msr pl) @ ws\<rparr>, m')) \<and>
    length w \<le> 1 \<and> enable_apic_keyboard (ucast io) (pl_apic_id pl) = Inr ws \<and> evolves m root L (18 + 6 * length addrs) m' L'"
proof -
  obtain hdr a where t: "firmware_at (pl_memory pl) r addrs hdr" "find (\<lambda>x. signatrue (hdr x) = bytes_of ''FACP'') addrs = Some a"
    "read_fadt (pl_memory pl) (unat a) = Inr f" and on: "smi_cmd f = 0 \<or> answer16 (pl_device pl) (init_serial (hw_ports hw)) (ucast (pm1a_cnt_blk f)) AND 1 = 1"
    using fw unfolding firmware_ok_def by blast
  have "6 + 3 * length addrs \<le> card (free_frames (frames m))" using fr by simp
  from find_table[OF wf root this t(1), of "bytes_of ''FACP''"] obtain sdt m1 m2 L2 where
    m2: "get_sdt (pl_memory pl) (Some (ucast r)) m = Inr (sdt, m1)"
      "get_entry_of_signatrue (pl_memory pl) sdt (bytes_of ''FACP'') m1 = Inr (map_option ucast (Some a), m2)"
      "evolves m root L (6 + 3 * length addrs) m2 L2" unfolding t(2) by blast
  obtain w where w: "enable_acpi (pl_device pl) f (init_serial (hw_ports hw)) = Some (Inr (init_serial (hw_ports hw) @ w))" "length w \<le> 1"
    using enable_acpi_on[OF on] by blast
  have root2: "current_root_table m2 = Inr root" and fr2: "12 + 3 * length addrs \<le> card (free_frames (frames m2))"
    using evolves_root[OF m2(3)] root evolves_card[OF m2(3), of "12 + 3 * length addrs"] fr by simp_all
  from enable_apic_interrupts_spec[OF evolves_wf[OF m2(3)] root2 fr2 fw, of "pl_apic_id pl"] obtain m3 L3 ws where
    m3: "enable_apic_interrupts (pl_memory pl) (Some (ucast r)) (pl_msr pl) (pl_apic_id pl) m2 = Some (Inr (lapic_writes (pl_msr pl) @ ws, m3))"
      "enable_apic_keyboard (ucast io) (pl_apic_id pl) = Inr ws" "evolves m2 root L2 (12 + 3 * length addrs) m3 L3" by blast
  have "evolves m root L (18 + 6 * length addrs) m3 L3" using evolves_trans[OF m2(3) m3(3)] by simp
  then show ?thesis using m2(1,2) t(3) w m3(1,2)
    by (auto simp: arch_init_def init_idt_def IDT_eq fadt_get_def unat_ucast_u32 Let_def)
qed

section \<open>Heap, file system and terminal\<close>

definition framebuffer_ok :: "limine \<Rightarrow> bool" where
  "framebuffer_ok b \<longleftrightarrow> (\<exists>fb fbs. framebuffer_response b = Some (fb # fbs) \<and> fb_rgb fb \<and> fb_bpp fb = 32 \<and>
     unat (fb_width fb) * unat (fb_height fb) * 32 < 2 ^ 64)"

lemma get_framebuffer_spec:
  assumes "framebuffer_ok b"
  shows "\<exists>buf inf. get_framebuffer scr b = Inr (buf, inf) \<and> 8 * length buf < 2 ^ 64"
proof -
  obtain fb fbs where fb: "framebuffer_response b = Some (fb # fbs)" "fb_rgb fb" "fb_bpp fb = 32"
    "unat (fb_width fb) * unat (fb_height fb) * 32 < 2 ^ 64" using assms by (auto simp: framebuffer_ok_def)
  let ?wh = "fb_width fb * fb_height fb"
  have "unat (fb_width fb) * unat (fb_height fb) < 2 ^ 64" using fb(4) by linarith
  then have wh: "mul_w (fb_width fb) (fb_height fb) = Inr ?wh" "unat ?wh = unat (fb_width fb) * unat (fb_height fb)"
    using unat_mul_small[of "fb_width fb" "fb_height fb"] by (simp_all add: mul_w_def)
  have whb: "mul_w ?wh 32 = Inr (?wh * 32)" "unat (?wh * 32) = unat ?wh * 32"
    using fb(4) wh(2) unat_mul_small[of ?wh 32] by (simp_all add: mul_w_def)
  have "align_up (32 :: usize) 8 = Inr 32" by (simp add: align_up_def add_w_def sub_w_def)
  then have "get_framebuffer scr b = Inr (map scr [0..<unat (?wh * 32 div 8)], \<lparr>stride = fb_pitch fb div 4, bytes_per_pixel = 4, pixel_format = Rgb\<rparr>)"
    using fb(1-3) wh(1) whb(1) by (simp add: get_framebuffer_def div_w_def rassert_def)
  moreover have "8 * unat (?wh * 32 div 8) < 2 ^ 64" using fb(4) whb(2) wh(2) by (simp add: unat_div)
  ultimately show ?thesis by auto
qed

lemma services_init_spec:
  assumes wf: "wf_space m root L" and root: "current_root_table m = Inr root" and fr: "36868 \<le> card (free_frames (frames m))"
    and hhdm: "hhdm_response b = Some phy" and map: "mmap_response b = Some es" and top: "unat phy + memory_top es + 37748736 + 16 < 2 ^ 64"
    and fb: "framebuffer_ok b"
  shows "\<exists>n m' L' v t. services_init b pl m = Inr (\<lparr>heap = \<lparr>free_list = [n], heap_end = start_addr n + n_size n\<rparr>, mach = m'\<rparr>, v, t) \<and>
    evolves m root L 36868 m' L' \<and> node_ok n \<and> 37748720 \<le> unat (n_size n) \<and>
    heap_run (\<lparr>free_list = [n], heap_end = start_addr n + n_size n\<rparr>, m') {} \<and> vfs_run v \<and> term_run fnt t"
proof -
  have "unat phy + memory_top es < 2 ^ 64" using top by simp
  from phy_offset_end[OF hhdm map this] obtain s where s: "get_phy_offset_end b = Inr s" "unat s = unat phy + memory_top es" by blast
  have top': "unat s + 37748736 + 16 < 2 ^ 64" using top s(2) by simp
  have n: "(unat s + 37748736) div 4096 + 1 - unat s div 4096 = 9217" by simp
  from wf root top' show ?thesis
  proof (cases rule: init_heap_run[where h = linked_list_allocator_new])
    case (fail m')
    then show ?thesis using fr unfolding n range_mapped_def by simp
  next
    case (ok m' a)
    let ?n = "\<lparr>start_addr = a, n_size = s + INIT_HEAP_SIZE - a\<rparr>"
    have se: "unat (s + INIT_HEAP_SIZE) = unat s + 37748736" using top' by (simp add: unat_add_small)
    then have le: "a \<le> s + INIT_HEAP_SIZE" using ok(4) by (simp add: word_le_nat_alt)
    then have sz: "unat (s + INIT_HEAP_SIZE - a) = unat s + 37748736 - unat a" using se by (simp add: unat_sub_small)
    have a8: "8 dvd unat a" using ok(2) by (rule dvd_trans[rotated]) simp
    have nok: "node_ok ?n" using a8 sz ok(3,4) top' by (simp add: node_ok_def)
    have end_n: "start_addr ?n + n_size ?n = s + INIT_HEAP_SIZE" by simp
    have mem: "memory_init s linked_list_allocator_new m = Inr (\<lparr>free_list = [?n], heap_end = s + INIT_HEAP_SIZE\<rparr>, m')"
      using ok(1) by (simp add: memory_init_def linked_list_allocator_new_def)
    have run: "heap_run (\<lparr>free_list = [?n], heap_end = s + INIT_HEAP_SIZE\<rparr>, m') {}"
      using ok(6) by (intro heap_run.init[of s INIT_HEAP_SIZE]) (simp add: linked_list_allocator_new_def)
    obtain v where v: "vfs_init vfs_new = Inr v" by (auto simp: vfs_init_def mount_def vfs_new_def bt_contains_def bt_get_def)
    obtain buf inf where buf: "get_framebuffer (pl_screen pl) b = Inr (buf, inf)" "8 * length buf < 2 ^ 64" using get_framebuffer_spec[OF fb] by blast
    have "services_init b pl m = Inr (\<lparr>heap = \<lparr>free_list = [?n], heap_end = s + INIT_HEAP_SIZE\<rparr>, mach = m'\<rparr>, v, terminal_init buf inf)"
      using s(1) mem v buf(1) by (simp add: services_init_def)
    moreover obtain L' where "evolves m root L 36868 m' L'" using ok(5) unfolding n range_mapped_def by auto
    moreover have "37748720 \<le> unat (n_size ?n)" using sz ok(4) by simp
    ultimately show ?thesis using nok run vfs_run.init[OF v] term_run.boot[OF buf(2), of fnt inf] end_n by metis
  qed
qed

section \<open>The first processes\<close>

lemma stack_alloc:
  assumes n: "node_ok n" and sz: "16384 + 16 \<le> unat (n_size n)" and run: "heap_run (\<lparr>free_list = [n], heap_end = e\<rparr>, m) B"
  shows "\<exists>n'. alloc_stack \<lparr>heap = \<lparr>free_list = [n], heap_end = e\<rparr>, mach = m\<rparr> =
      Some (Inr (start_addr n + STACK_SIZE, \<lparr>heap = \<lparr>free_list = [n'], heap_end = e\<rparr>, mach = m\<rparr>)) \<and>
    node_ok n' \<and> unat (n_size n') = unat (n_size n) - 16384 \<and>
    heap_run (\<lparr>free_list = [n'], heap_end = e\<rparr>, m) (insert (start_addr n, STACK_LAYOUT) B)"
proof -
  have al: "size_align STACK_LAYOUT = Inr (0x4000, 8)" by (simp add: STACK_LAYOUT_def STACK_SIZE_def heap_eval)
  let ?a = "start_addr n"
  have s8: "8 dvd unat ?a" "unat ?a + unat (n_size n) < 2 ^ 64" using n by (simp_all add: node_ok_def)
  have e: "end_addr n = Inr (?a + n_size n)" "unat (?a + n_size n) = unat ?a + unat (n_size n)"
    using s8(2) by (simp_all add: end_addr_def add_w_def unat_add_small)
  have u: "unat (?a + 0x4000) = unat ?a + 16384" using s8(2) sz by (subst unat_add_small) simp_all
  then have le: "?a + 0x4000 \<le> ?a + n_size n" using e(2) sz by (simp add: word_le_nat_alt)
  have d: "unat (n_size n - 0x4000) = unat (n_size n) - 16384" using sz by (subst unat_sub_small) (simp_all add: word_le_nat_alt)
  have up: "align_up ?a (2 ^ 3) = Inr ?a" using s8 sz by (intro align_up_idem) auto
  have "can_hold n 0x4000 8 = Inr (Inr ?a)"
    using up u le d sz s8(2) unfolding can_hold_def
    by (simp add: checked_add_def e sub_w_def SIZE_OF_NODE_def word_less_nat_alt not_less word_le_nat_alt)
  then have fit: "find_fit 0x4000 8 [n] = Inr (Some (n, ?a, []))" by simp
  have p: "placed n ?a 0x4000 3" using s8 sz by (simp add: placed_def)
  obtain r where r: "carve n ?a 0x4000 \<lparr>free_list = [], heap_end = e\<rparr> = Inr \<lparr>free_list = [r], heap_end = e\<rparr>" "node_ok r"
    "unat (n_size r) = unat (n_size n) - 16384"
    using n p s8(1) by (cases rule: carve_spec[where h = "\<lparr>free_list = [], heap_end = e\<rparr>"]) (use sz in auto)
  have a: "alloc_mut STACK_LAYOUT \<lparr>free_list = [n], heap_end = e\<rparr> m = Some (Inr (?a, \<lparr>free_list = [r], heap_end = e\<rparr>, m))"
    using fit r(1) by (simp add: alloc_mut_def al find_free_node.simps)
  have "layout_ok STACK_LAYOUT" by (auto simp: layout_ok_def STACK_LAYOUT_def STACK_SIZE_def intro!: exI[of _ 0])
  moreover have "fits_now STACK_LAYOUT \<lparr>free_list = [n], heap_end = e\<rparr>" using fit by (simp add: fits_now_def al)
  ultimately have "heap_run (\<lparr>free_list = [r], heap_end = e\<rparr>, m) (insert (?a, STACK_LAYOUT) B)" using heap_run.alloc[OF run _ _ a] by blast
  then show ?thesis using a r by (auto simp: alloc_stack_def)
qed

lemma process_create_spec:
  assumes n: "node_ok n" and sz: "16384 + 16 \<le> unat (n_size n)" and run: "heap_run (\<lparr>free_list = [n], heap_end = e\<rparr>, m) B"
    and wf: "wf_space m root L" and root: "current_root_table m = Inr root" and fr: "1 \<le> card (free_frames (frames m))"
  shows "\<exists>p n' m'. process_create fn i name \<lparr>heap = \<lparr>free_list = [n], heap_end = e\<rparr>, mach = m\<rparr> =
      Some (Inr (p, \<lparr>heap = \<lparr>free_list = [n'], heap_end = e\<rparr>, mach = m'\<rparr>)) \<and>
    node_ok n' \<and> unat (n_size n') = unat (n_size n) - 16384 \<and> evolves m root L 1 m' L \<and>
    heap_run (\<lparr>free_list = [n'], heap_end = e\<rparr>, m') (insert (start_addr n, STACK_LAYOUT) B) \<and>
    pcontext p = cpu_status_default\<lparr>rsp := start_addr n + STACK_SIZE, rip := fn, rflags := 0x202, ss := 0x10, cs := 0x8, ctx_cr3 := ctx_cr3 (pcontext p)\<rparr> \<and>
    pname p = take 64 name @ replicate (64 - length name) 0"
proof -
  obtain n' where n': "alloc_stack \<lparr>heap = \<lparr>free_list = [n], heap_end = e\<rparr>, mach = m\<rparr> =
      Some (Inr (start_addr n + STACK_SIZE, \<lparr>heap = \<lparr>free_list = [n'], heap_end = e\<rparr>, mach = m\<rparr>))"
    "node_ok n'" "unat (n_size n') = unat (n_size n) - 16384"
    "heap_run (\<lparr>free_list = [n'], heap_end = e\<rparr>, m) (insert (start_addr n, STACK_LAYOUT) B)"
    using stack_alloc[OF n sz run] by blast
  have "free_frames (frames m) \<noteq> {}" using fr by auto
  from allocate_pml4_evolves[OF wf root this] obtain p m' where
    p: "allocate_pml4 m = Inr (Inr p, m')" "evolves m root L 1 m' L" "unat p + unat (phy_offset m') < 2 ^ 64" by blast
  have "heap_run (\<lparr>free_list = [n'], heap_end = e\<rparr>, m') (insert (start_addr n, STACK_LAYOUT) B)" using n'(4) by (rule heap_run.other)
  then show ?thesis using n' p by (auto simp: process_create_def name_field_eq add_w_def Let_def)
qed

lemma processes_init_spec:
  assumes n: "node_ok n" and sz: "2 * 16384 + 16 \<le> unat (n_size n)" and run: "heap_run (\<lparr>free_list = [n], heap_end = e\<rparr>, m) {}"
    and wf: "wf_space m root L" and root: "current_root_table m = Inr root" and fr: "2 \<le> card (free_frames (frames m))"
  shows "\<exists>p q k a b. processes_init kmain shell \<lparr>heap = \<lparr>free_list = [n], heap_end = e\<rparr>, mach = m\<rparr> =
      Some (Inr (\<lparr>processes = [p, q], current_process = 0, next_pid = 2\<rparr>, k)) \<and>
    sched_run \<lparr>processes = [p, q], current_process = 0, next_pid = 2\<rparr> \<and> evolves m root L 2 (mach k) L \<and>
    heap_run (heap k, mach k) {(a, STACK_LAYOUT), (b, STACK_LAYOUT)} \<and>
    pcontext p = cpu_status_default\<lparr>rsp := a + STACK_SIZE, rip := kmain, rflags := 0x202, ss := 0x10, cs := 0x8, ctx_cr3 := ctx_cr3 (pcontext p)\<rparr> \<and>
    pcontext q = cpu_status_default\<lparr>rsp := b + STACK_SIZE, rip := shell, rflags := 0x202, ss := 0x10, cs := 0x8, ctx_cr3 := ctx_cr3 (pcontext q)\<rparr> \<and>
    trim_trailing_zeros (pname p) = bytes_of ''kernel'' \<and> trim_trailing_zeros (pname q) = bytes_of ''shell''"
proof -
  have "16384 + 16 \<le> unat (n_size n)" "1 \<le> card (free_frames (frames m))" using sz fr by simp_all
  from process_create_spec[OF n this(1) run wf root this(2), of kmain 0 "bytes_of ''kernel''"] obtain p n1 m1 where
    p: "process_create kmain 0 (bytes_of ''kernel'') \<lparr>heap = \<lparr>free_list = [n], heap_end = e\<rparr>, mach = m\<rparr> =
      Some (Inr (p, \<lparr>heap = \<lparr>free_list = [n1], heap_end = e\<rparr>, mach = m1\<rparr>))"
      "node_ok n1" "unat (n_size n1) = unat (n_size n) - 16384" "evolves m root L 1 m1 L"
      "heap_run (\<lparr>free_list = [n1], heap_end = e\<rparr>, m1) {(start_addr n, STACK_LAYOUT)}"
      "pcontext p = cpu_status_default\<lparr>rsp := start_addr n + STACK_SIZE, rip := kmain, rflags := 0x202, ss := 0x10, cs := 0x8, ctx_cr3 := ctx_cr3 (pcontext p)\<rparr>"
      "pname p = take 64 (bytes_of ''kernel'') @ replicate (64 - length (bytes_of ''kernel'')) 0" by blast
  have sz1: "16384 + 16 \<le> unat (n_size n1)" and root1: "current_root_table m1 = Inr root" and fr1: "1 \<le> card (free_frames (frames m1))"
    using p(3) sz evolves_root[OF p(4)] root evolves_card[OF p(4), of 1] fr by simp_all
  from process_create_spec[OF p(2) sz1 p(5) evolves_wf[OF p(4)] root1 fr1, of shell 1 "bytes_of ''shell''"] obtain q n2 m2 where
    q: "process_create shell 1 (bytes_of ''shell'') \<lparr>heap = \<lparr>free_list = [n1], heap_end = e\<rparr>, mach = m1\<rparr> =
      Some (Inr (q, \<lparr>heap = \<lparr>free_list = [n2], heap_end = e\<rparr>, mach = m2\<rparr>))"
      "evolves m1 root L 1 m2 L"
      "heap_run (\<lparr>free_list = [n2], heap_end = e\<rparr>, m2) {(start_addr n1, STACK_LAYOUT), (start_addr n, STACK_LAYOUT)}"
      "pcontext q = cpu_status_default\<lparr>rsp := start_addr n1 + STACK_SIZE, rip := shell, rflags := 0x202, ss := 0x10, cs := 0x8, ctx_cr3 := ctx_cr3 (pcontext q)\<rparr>"
      "pname q = take 64 (bytes_of ''shell'') @ replicate (64 - length (bytes_of ''shell'')) 0" by blast
  let ?k1 = "\<lparr>heap = \<lparr>free_list = [n1], heap_end = e\<rparr>, mach = m1\<rparr>" and ?k2 = "\<lparr>heap = \<lparr>free_list = [n2], heap_end = e\<rparr>, mach = m2\<rparr>"
  let ?s1 = "\<lparr>processes = [p], current_process = 0, next_pid = 1\<rparr>" and ?s2 = "\<lparr>processes = [p, q], current_process = 0, next_pid = 2\<rparr>"
  have s1: "scheduler_init kmain (bytes_of ''kernel'') \<lparr>heap = \<lparr>free_list = [n], heap_end = e\<rparr>, mach = m\<rparr> = Some (Inr (?s1, ?k1))"
    using p(1) by (simp add: scheduler_init_def)
  have s2: "create_process shell (bytes_of ''shell'') ?s1 ?k1 = Some (Inr (?s2, ?k2))"
    using q(1) by (simp add: create_process_def add_process_def add_w_def)
  have names: "trim_trailing_zeros (pname p) = bytes_of ''kernel''" "trim_trailing_zeros (pname q) = bytes_of ''shell''"
    unfolding p(7) q(5) using process_name_roundtrip[of "bytes_of ''kernel''"] process_name_roundtrip[of "bytes_of ''shell''"]
    by (simp_all add: name_field_eq bytes_of_def)
  have "sched_run ?s2" using sched_run.create[OF sched_run.init[OF s1] s2] .
  moreover have "evolves m root L 2 m2 L" using evolves_trans[OF p(4) q(2)] by (simp add: numeral_2_eq_2)
  moreover have "processes_init kmain shell \<lparr>heap = \<lparr>free_list = [n], heap_end = e\<rparr>, mach = m\<rparr> = Some (Inr (?s2, ?k2))"
    using s1 s2 by (simp add: processes_init_def)
  ultimately show ?thesis using p(6) q(3,4) names by (intro exI[of _ p] exI[of _ q] exI[of _ ?k2] exI[of _ "start_addr n"] exI[of _ "start_addr n1"])
    (simp add: insert_commute)
qed

section \<open>The boot\<close>

text \<open>The machine with the page tables of the boot loader, once the frame allocator is there.\<close>

definition boot_machine :: "mmap_entry list \<Rightarrow> usize \<Rightarrow> machine \<Rightarrow> machine" where
  "boot_machine es phy m0 = m0\<lparr>frames := projr (region_allocator_new es phy), phy_offset := phy\<rparr>"

text \<open>
  What the boot leaves behind: memory, heap, file system, terminal and scheduler in the states that the runs of these components start from, the tables of the processor and the interrupt controllers set, and
  two processes with stacks of their own.
\<close>

definition booted :: "platform \<Rightarrow> font \<Rightarrow> usize \<Rightarrow> usize \<Rightarrow> virt_addr \<Rightarrow> u32 \<Rightarrow> os \<Rightarrow> bool" where
  "booted pl fnt kmain shell root io s \<longleftrightarrow>
     (\<exists>L. wf_space (mach (os_kernel s)) root L) \<and> vfs_run (os_vfs s) \<and> term_run fnt (os_terminal s) \<and> sched_run (os_scheduler s) \<and>
     (\<exists>p q a b. os_scheduler s = \<lparr>processes = [p, q], current_process = 0, next_pid = 2\<rparr> \<and>
        heap_run (heap (os_kernel s), mach (os_kernel s)) {(a, STACK_LAYOUT), (b, STACK_LAYOUT)} \<and>
        rsp (pcontext p) = a + STACK_SIZE \<and> rip (pcontext p) = kmain \<and> rsp (pcontext q) = b + STACK_SIZE \<and> rip (pcontext q) = shell \<and>
        trim_trailing_zeros (pname p) = bytes_of ''kernel'' \<and> trim_trailing_zeros (pname q) = bytes_of ''shell'') \<and>
     gdtr_table (hw_segments (os_hardware s)) = GDT (pl_tss pl) \<and> IDT (pl_handler pl) = Inr (idtr_table (hw_segments (os_hardware s))) \<and>
     (\<exists>ws. enable_apic_keyboard (ucast io) (pl_apic_id pl) = Inr ws \<and> suffix ws (hw_mmio (os_hardware s)))"

lemma restore_context:
  "restore_cpu_status c = (g, f) \<Longrightarrow> insturaction f = rip c \<and> stack_pointer f = rsp c \<and> interrupt_frame.flags f = rflags c \<and>
    code_segment f = cs c \<and> stack_segment f = ss c \<and> g_cr3 g = ctx_cr3 c"
  by (auto simp: context_defs Let_def)


section \<open>A machine that boots\<close>

text \<open>The root pointer, the root table, a fixed table, a table of interrupt controllers and the image of the kernel, one behind the other.\<close>

definition boot_image :: "u8 list" where
  "boot_image = encode_header example_header @ encode_section (example_section\<lparr>sh_size := 0\<rparr>)"

definition boot_bytes :: "u8 list" where
  "boot_bytes =
     (replicate 16 0 @ le_enc 4 36 @ replicate 16 0) @ (bytes_of ''RSDT'' @ [44, 0, 0, 0] @ replicate 28 0) @ (le_enc 4 80 @ le_enc 4 356) @
     (bytes_of ''FACP'' @ replicate 272 0) @ (bytes_of ''APIC'' @ [64, 0, 0, 0] @ replicate 36 0) @ concat example_records @ boot_image"

definition boot_platform :: platform where
  "boot_platform = \<lparr>pl_memory = map Some boot_bytes, pl_device = example_uart, pl_msr = 0xFEE00900, pl_apic_id = 0, pl_tss = 0, pl_handler = (\<lambda>_. 0),
     pl_screen = (\<lambda>_. 0)\<rparr>"

definition boot_map :: "mmap_entry list" where
  "boot_map = [\<lparr>entry_base = 0x100000, entry_length = 0x10000000, entry_usable = True\<rparr>,
     \<lparr>entry_base = 0x20000000, entry_length = 0x10000000, entry_usable = True\<rparr>]"

definition boot_limine :: limine where
  "boot_limine = \<lparr>hhdm_response = Some 0xFFFF800000000000, rsdp_response = Some 0, kernel_file_response = Some (420, 128),
     mmap_response = Some boot_map,
     framebuffer_response = Some [\<lparr>fb_rgb = True, fb_bpp = 32, fb_pitch = 64, fb_width = 16, fb_height = 16\<rparr>]\<rparr>"

definition boot_elf :: elf where
  "boot_elf = \<lparr>header_ptr = 420, header = example_header, sections = [example_section\<lparr>sh_size := 0\<rparr>]\<rparr>"

definition boot_machine0 :: machine where
  "boot_machine0 = \<lparr>tables = (\<lambda>_. replicate ENTRY_COUNT 0), frames = \<lparr>bitmap = [], search_from = 0\<rparr>, cr3 = 0, phy_offset = 0\<rparr>"

lemma stored_all: "stored (map Some bs) 0 bs"
  by (simp add: stored_def)

lemma boot_stored:
  "stored (map Some boot_bytes) 0 (replicate 16 0 @ le_enc 4 36 @ replicate 16 0)"
  "stored (map Some boot_bytes) 36 (bytes_of ''RSDT'' @ [44, 0, 0, 0] @ replicate 28 0)"
  "stored (map Some boot_bytes) 72 (le_enc 4 80 @ le_enc 4 356)"
  "stored (map Some boot_bytes) 80 (bytes_of ''FACP'' @ replicate 272 0)"
  "stored (map Some boot_bytes) 356 (bytes_of ''APIC'' @ [64, 0, 0, 0] @ replicate 36 0)"
  "stored (map Some boot_bytes) 400 (concat example_records)"
  "stored (map Some boot_bytes) 420 boot_image"
proof -
  let ?m = "map Some boot_bytes"
  have l: "length (bytes_of ''RSDT'') = 4" "length (bytes_of ''FACP'') = 4" "length (bytes_of ''APIC'') = 4" "length (concat example_records) = 20"
    by (simp_all add: bytes_of_def example_records_def)
  have split: "stored m 0 (a @ b @ c @ d @ e @ f @ g) \<longleftrightarrow> stored m 0 a \<and> stored m (length a) b \<and> stored m (length a + length b) c \<and>
      stored m (length a + length b + length c) d \<and> stored m (length a + length b + length c + length d) e \<and>
      stored m (length a + length b + length c + length d + length e) f \<and>
      stored m (length a + length b + length c + length d + length e + length f) g" for m a b c d e f g
    by (simp only: stored_append add.assoc) (simp add: add.assoc)
  have "stored ?m 0 boot_bytes" by (rule stored_all)
  then show "stored ?m 0 (replicate 16 0 @ le_enc 4 36 @ replicate 16 0)" "stored ?m 36 (bytes_of ''RSDT'' @ [44, 0, 0, 0] @ replicate 28 0)"
    "stored ?m 72 (le_enc 4 80 @ le_enc 4 356)" "stored ?m 80 (bytes_of ''FACP'' @ replicate 272 0)"
    "stored ?m 356 (bytes_of ''APIC'' @ [64, 0, 0, 0] @ replicate 36 0)" "stored ?m 400 (concat example_records)" "stored ?m 420 boot_image"
    unfolding boot_bytes_def split by (simp_all add: l del: stored_append append_assoc)
qed

lemma boot_parses: "parse (map Some boot_bytes) 420 = Inr (Inr boot_elf)" "\<exists>d. elf_debug (map Some boot_bytes) boot_elf = Inr d"
proof -
  let ?m = "map Some boot_bytes" and ?s = "example_section\<lparr>sh_size := 0\<rparr>"
  have len: "length (magic example_header) = 4" "length (padding example_header) = 7" by (simp_all add: example_header_def)
  have p: "ptr_offset 420 (section_header_table_offset example_header) = 420 + 64" by (simp add: ptr_offset_def example_header_def)
  have hd: "stored ?m 420 (encode_header example_header)" "stored ?m (ptr_offset 420 (section_header_table_offset example_header)) (concat (map encode_section [?s]))"
    using boot_stored(7) unfolding p boot_image_def stored_append decode_encode_header(2)[OF len] by simp_all
  have n: "unat (section_table_entries example_header) = length [?s]" by (simp add: example_header_def)
  have "verify example_header" "supported example_header = Inr ()" by (simp_all add: verify_def supported_def example_header_def)
  then show "parse ?m 420 = Inr (Inr boot_elf)" using parse_stored[OF len hd n] by (simp add: boot_elf_def)
  show "\<exists>d. elf_debug ?m boot_elf = Inr d"
    by (simp add: elf_debug_def boot_elf_def section_names_table_def symtable_def div_w_def idx_def section_names_table_index_def
        example_header_def example_section_def)
qed

lemma boot_map_ok: "mmap_ok boot_map" "memory_top boot_map = 2 ^ 32"
  by (simp_all add: mmap_ok_def entry_ok_def entry_end_def boot_map_def memory_top_def)

lemma boot_limine_ok: "limine_ok boot_limine boot_platform 0xFFFF800000000000 boot_map boot_elf"
  using boot_parses boot_map_ok
  by (simp add: limine_ok_def boot_limine_def boot_platform_def) (simp add: boot_map_def entry_end_def)

lemma boot_framebuffer_ok: "framebuffer_ok boot_limine"
  by (simp add: framebuffer_ok_def boot_limine_def)

definition boot_hdr :: "u32 \<Rightarrow> acpi_header" where
  "boot_hdr a = decode_acpi_header (if a = 80 then bytes_of ''FACP'' @ replicate 32 0 else bytes_of ''APIC'' @ [64, 0, 0, 0] @ replicate 28 0)"

lemma boot_headers:
  "read_acpi_header (map Some boot_bytes) 80 = Inr (boot_hdr 80)" "read_acpi_header (map Some boot_bytes) 356 = Inr (boot_hdr 356)"
proof -
  let ?m = "map Some boot_bytes"
  have "bytes_of ''FACP'' @ replicate 272 0 = (bytes_of ''FACP'' @ replicate 32 0) @ replicate 240 0"
    "bytes_of ''APIC'' @ [64, 0, 0, 0] @ replicate 36 0 = (bytes_of ''APIC'' @ [64, 0, 0, 0] @ replicate 28 0) @ replicate 8 0"
    using replicate_add[of 32 240 "0 :: u8"] replicate_add[of 28 8 "0 :: u8"] by simp_all
  then have "stored ?m 80 (bytes_of ''FACP'' @ replicate 32 0)" "stored ?m 356 (bytes_of ''APIC'' @ [64, 0, 0, 0] @ replicate 28 0)"
    using boot_stored(4,5) by (simp_all only: stored_append)
  then show "read_acpi_header ?m 80 = Inr (boot_hdr 80)" "read_acpi_header ?m 356 = Inr (boot_hdr 356)"
    using read_stored by (simp_all add: read_acpi_header_def boot_hdr_def bytes_of_def)
qed

lemma boot_hdr_fields:
  "signatrue (boot_hdr 80) = bytes_of ''FACP''" "signatrue (boot_hdr 356) = bytes_of ''APIC''" "unat (acpi_len (boot_hdr 356)) = 64"
  by (simp_all add: boot_hdr_def decode_acpi_header_def field_def bytes_of_def)

lemma boot_madt: "madt_at (map Some boot_bytes) 356 example_records"
proof -
  have "pos example_records (length example_records) = 64" by (simp add: pos_def example_records_def)
  moreover have "\<forall>r \<in> set example_records. good_record r" by (simp add: good_record_def example_records_def)
  ultimately show ?thesis using boot_stored(6) boot_headers(2) boot_hdr_fields(3) by (simp add: madt_at_def)
qed

lemma boot_firmware_at: "firmware_at (map Some boot_bytes) 0 [80, 356] boot_hdr"
proof -
  let ?m = "map Some boot_bytes" and ?r = "replicate 16 0 @ le_enc 4 36 @ replicate 16 0 :: u8 list"
  have b: "read_bytes ?m 0 36 = Inr ?r" "read_bytes ?m 36 36 = Inr (bytes_of ''RSDT'' @ [44, 0, 0, 0] @ replicate 28 0)"
    using read_stored[OF boot_stored(1), of 36] read_stored[OF boot_stored(2), of 36] by (simp_all add: bytes_of_def)
  have "rsdt_addr (decode_rsdp ?r) = 36" by (simp add: decode_rsdp_def field_def le_val_enc)
  moreover have "unat (acpi_len (decode_acpi_header (bytes_of ''RSDT'' @ [44, 0, 0, 0] @ replicate 28 0))) = 44"
    by (simp add: decode_acpi_header_def field_def bytes_of_def)
  ultimately show ?thesis using b boot_stored(3) boot_headers by (simp add: firmware_at_def read_acpi_header_def[of _ 36])
qed

definition boot_fadt :: fadt where
  "boot_fadt = decode_fadt (bytes_of ''FACP'' @ replicate 272 0)"

lemma boot_firmware_ok: "firmware_ok boot_platform [] 0 [80, 356] boot_fadt 0xFEC00000"
proof -
  have "bytes_of ''FACP'' \<noteq> bytes_of ''APIC''" by (simp add: bytes_of_def)
  then have find: "find (\<lambda>x. signatrue (boot_hdr x) = bytes_of ''FACP'') [80, 356] = Some 80"
    "find (\<lambda>x. signatrue (boot_hdr x) = bytes_of ''APIC'') [80, 356] = Some 356" using boot_hdr_fields by simp_all
  have f: "read_fadt (map Some boot_bytes) 80 = Inr boot_fadt"
    using read_stored[OF boot_stored(4), of 276] by (simp add: read_fadt_def boot_fadt_def bytes_of_def)
  have "smi_cmd boot_fadt = 0" by (simp add: boot_fadt_def decode_fadt_def field_def bytes_of_def)
  moreover have "read_bytes (map Some boot_bytes) (400 + 12) 4 = Inr [0, 0, 192, 254]"
    using stored_read[OF boot_stored(6), of 12 4] by (simp add: example_records_def)
  then have "read_le (map Some boot_bytes) (unat (356 :: u32) + 44 + length (concat (take 1 example_records)) + 4) 4 = Inr (0xFEC00000 :: u32)"
    by (simp add: read_le_def example_records_def)
  moreover have "example_records ! 1 ! 0 = 1" "\<forall>k < 1. example_records ! k ! 0 \<noteq> 1" "1 < length example_records" by (simp_all add: example_records_def)
  ultimately show ?thesis
    unfolding firmware_ok_def using boot_firmware_at find f boot_madt
    by (intro conjI exI[of _ boot_hdr] exI[of _ 80] exI[of _ 356] exI[of _ example_records] exI[of _ 1]) (simp_all add: boot_platform_def)
qed

text \<open>Frame 0 holds the root table; whichever region holds the bitmap, the frames of the other are free.\<close>

lemma region_frames_range:
  assumes "unat (entry_base e) = B * 4096" and "unat (entry_length e) = K * 4096"
  shows "region_frames e = {B..<B + K}"
  using assms by (auto simp: region_frames_def entry_end_def)

lemma boot_allocator:
  "\<exists>ra. region_allocator_new boot_map 0xFFFF800000000000 = Inr ra \<and> ra_inv ra \<and> length (bitmap ra) \<le> 0x10000000 \<and>
    0 \<notin> free_frames ra \<and> 65536 \<le> card (free_frames ra)"
proof -
  let ?a = "\<lparr>entry_base = 0x100000, entry_length = 0x10000000, entry_usable = True\<rparr>" and ?b = "\<lparr>entry_base = 0x20000000, entry_length = 0x10000000, entry_usable = True\<rparr>"
  have set: "{e \<in> set boot_map. entry_usable e} = {?a, ?b}" by (auto simp: boot_map_def)
  have "?b \<in> set boot_map" "entry_usable ?b" "\<forall>e \<in> set boot_map. entry_usable e \<longrightarrow> entry_end e \<le> 32768 * unat (entry_length ?b)"
    "\<forall>e \<in> set boot_map. entry_usable e \<longrightarrow> unat (entry_base e) + unat (0xFFFF800000000000 :: usize) < 2 ^ 64"
    by (simp_all add: boot_map_def entry_end_def)
  from region_allocator_new_spec[OF boot_map_ok(1) this] obtain ra best where ra: "region_allocator_new boot_map 0xFFFF800000000000 = Inr ra" "ra_inv ra"
    "best \<in> set boot_map" "entry_usable best" "length (bitmap ra) \<le> unat (entry_length best)"
    "free_frames ra = (\<Union>e \<in> {e \<in> set boot_map. entry_usable e}. region_frames e) - region_frames best" by blast
  have r: "region_frames ?a = {256..<256 + 65536}" "region_frames ?b = {131072..<131072 + 65536}"
    by (rule region_frames_range; simp)+
  have best: "best = ?a \<or> best = ?b" using ra(3,4) set by blast
  then have "length (bitmap ra) \<le> 0x10000000" using ra(5) by (elim disjE) simp_all
  moreover have "{256..<256 + 65536} \<inter> {131072..<131072 + 65536 :: nat} = {}" by (simp add: ivl_disj_int)
  then have "free_frames ra = {131072..<131072 + 65536} \<or> free_frames ra = {256..<256 + 65536}"
    using best unfolding ra(6) set by (elim disjE) (simp_all only: r UN_insert UN_empty, blast+)
  then have "0 \<notin> free_frames ra \<and> card (free_frames ra) = 65536" by (elim disjE) simp_all
  ultimately show ?thesis using ra(1,2) by auto
qed

lemma boot_memory:
  defines "m \<equiv> boot_machine boot_map 0xFFFF800000000000 boot_machine0"
  shows "wf_space m 0xFFFF800000000000 [0xFFFF800000000000 \<mapsto> 4]" and "current_root_table m = Inr 0xFFFF800000000000"
    and "36888 + 6 * length [80, 356 :: u32] \<le> card (free_frames (frames m))"
proof -
  obtain ra where ra: "region_allocator_new boot_map 0xFFFF800000000000 = Inr ra" "ra_inv ra" "length (bitmap ra) \<le> 0x10000000"
    "0 \<notin> free_frames ra" "65536 \<le> card (free_frames ra)" using boot_allocator by blast
  have m: "m = boot_machine0\<lparr>frames := ra, phy_offset := 0xFFFF800000000000\<rparr>" by (simp add: m_def boot_machine_def ra(1))
  have "used_table m 0xFFFF800000000000" unfolding used_table_def by (rule exI[of _ 0]) (simp add: m ra(4))
  moreover have "wf_machine m" using ra(2,3) by (simp add: m wf_machine_def boot_machine0_def)
  moreover have "tables m t = replicate ENTRY_COUNT 0" for t by (simp add: m boot_machine0_def)
  ultimately show "wf_space m 0xFFFF800000000000 [0xFFFF800000000000 \<mapsto> 4]" by (intro empty_tables_wf)
  show "current_root_table m = Inr 0xFFFF800000000000"
    by (simp add: m current_root_table_def boot_machine0_def frame_containing_address_eq add_w_def)
  show "36888 + 6 * length [80, 356 :: u32] \<le> card (free_frames (frames m))" using ra(5) by (simp add: m)
qed

definition boot_hardware :: hardware where
  "boot_hardware = \<lparr>hw_segments = \<lparr>gdtr_limit = 0, gdtr_table = [], idtr_limit = 0, idtr_table = [], code_selector = 0, data_selectors = [], task_register = 0\<rparr>,
     hw_ports = [], hw_mmio = []\<rparr>"


end
