(* ===== verification/Timer_Irq.thy ===== *)
theory Timer_Irq
  imports Keyboard_Irq Scheduling
begin

text \<open>
  The timer interrupt, from \<open>context_switch_stub\<close> through \<open>context_switch\<close> of \<open>kernel/src/arch/x86_64/threading/mod.rs\<close> to \<open>restore_cpu_status\<close>, and runs of it: every process that is interrupted
  goes on where it was once the others have had their turn.
\<close>

section \<open>The interrupt\<close>

text \<open>
  The processor arrives with its registers \<open>g\<close>, the flags \<open>rf\<close> of the handler and the frame \<open>f\<close> it has pushed. The stub reads \<open>cr3\<close> from the processor; the page of the local APIC is mapped, if it has to be, in the
  address space that was interrupted, and the last instructions load the \<open>cr3\<close> of the process that goes on.
\<close>

definition timer_interrupt :: "u64 \<Rightarrow> registers \<Rightarrow> u64 \<Rightarrow> interrupt_frame \<Rightarrow> scheduler option \<Rightarrow> kernel \<Rightarrow>
    ((registers \<times> interrupt_frame) \<times> mmio \<times> scheduler option \<times> kernel) rust option" where
  "timer_interrupt msr g rf f SCHEDULER k =
     (let capture = context_capture (context_switch_stub (g\<lparr>g_cr3 := cr3 (mach k)\<rparr>) rf (frame_words f)) in
      map_option (\<lambda>r.
        rbind r (\<lambda>(c, sched, k1).
        rbind (send_eoi msr (mach k1)) (\<lambda>(w, m).
        let (g', f') = restore_cpu_status c in
        Inr ((g', f'), w, sched, k1\<lparr>mach := m\<lparr>cr3 := g_cr3 g'\<rparr>\<rparr>))))
      (context_switch capture SCHEDULER k))"

text \<open>
  A number of timer interrupts, each given by the registers, flags and frame it finds. The log has what was interrupted, with the \<open>cr3\<close> of that moment, and what goes on.
\<close>

type_synonym cpu_context = "registers \<times> interrupt_frame"

fun timer_irqs :: "u64 \<Rightarrow> (registers \<times> u64 \<times> interrupt_frame) list \<Rightarrow> scheduler option \<Rightarrow> kernel \<Rightarrow>
    ((cpu_context \<times> cpu_context) list \<times> mmio \<times> scheduler option \<times> kernel) rust option" where
  "timer_irqs msr [] sched k = Some (Inr ([], [], sched, k))"
| "timer_irqs msr ((g, rf, f) # evs) sched k =
     (case timer_interrupt msr g rf f sched k of
        None \<Rightarrow> None
      | Some (Inl p) \<Rightarrow> Some (Inl p)
      | Some (Inr (c, w, sched1, k1)) \<Rightarrow>
          map_option (\<lambda>r. rbind r (\<lambda>(log, ws, sched', k').
            Inr (((g\<lparr>g_cr3 := cr3 (mach k)\<rparr>, f), c) # log, w @ ws, sched', k')))
          (timer_irqs msr evs sched1 k1))"

section \<open>The end of the interrupt in a settled address space\<close>

text \<open>
  An address space in which the page of the local APIC is mapped the way \<open>identity_map_writeable\<close> maps it: every entry on the way has the flags already.
\<close>

definition settled_step :: "machine \<Rightarrow> virt_addr \<Rightarrow> nat \<Rightarrow> virt_addr \<Rightarrow> bool" where
  "settled_step m t i v \<longleftrightarrow> i < length (tables m t) \<and> child m t i = Some v \<and>
     unat (entry_addr (tables m t ! i)) + unat (phy_offset m) < 2 ^ 64 \<and>
     entry_new (PRESENT OR WRITABLE OR entry_flags (tables m t ! i)) (entry_addr (tables m t ! i)) = tables m t ! i"

definition settled :: "u64 \<Rightarrow> machine \<Rightarrow> virt_addr \<Rightarrow> bool" where
  "settled msr m root \<longleftrightarrow>
     (\<exists>i4 i3 i2 i1 t3 t2 t1. page_path \<lparr>page_start = lapic_base msr\<rparr> = [i4, i3, i2, i1] \<and>
        settled_step m root i4 t3 \<and> settled_step m t3 i3 t2 \<and> settled_step m t2 i2 t1 \<and>
        i1 < length (tables m t1) \<and> tables m t1 ! i1 = entry_new (PRESENT OR WRITABLE) (lapic_base msr))"

lemma settled_entry_map:
  assumes "settled_step m t i v"
  shows "entry_map t i (PRESENT OR WRITABLE) m = Inr (Inr v, m)"
  using assms unfolding settled_step_def
  by (auto simp: entry_map_def idx_def child_def entry_frame_mapped add_w_def write_table_def or.assoc split: if_splits)

lemma settled_map_to:
  assumes "settled msr m root"
  shows "map_to root \<lparr>page_start = lapic_base msr\<rparr> \<lparr>start_address = lapic_base msr\<rparr> (PRESENT OR WRITABLE) m = Inr (Inr (), m)"
proof -
  obtain o' j1 j2 j3 j4 where tr: "translate (lapic_base msr) = (o', j1, j2, j3, j4)" by (metis prod_cases5)
  then show ?thesis using assms unfolding settled_def page_path_def
    by (auto simp: map_to_def settled_entry_map idx_set_def write_table_def list_update_same_conv[THEN iffD2])
qed

text \<open>The address space that \<open>c\<close> in \<open>cr3\<close> selects.\<close>

definition space_ready :: "u64 \<Rightarrow> machine \<Rightarrow> phys_addr \<Rightarrow> bool" where
  "space_ready msr m c \<longleftrightarrow> (\<exists>root. current_root_table (m\<lparr>cr3 := c\<rparr>) = Inr root \<and> settled msr m root)"

lemma space_ready_cr3 [simp]: "space_ready msr (m\<lparr>cr3 := d\<rparr>) c = space_ready msr m c"
  by (simp add: space_ready_def settled_def settled_step_def child_def)

lemma send_eoi_settled:
  assumes "space_ready msr m (cr3 m)"
  shows "send_eoi msr m = Inr ([(lapic_base msr + 0xB0, 0)], m)"
proof -
  from assms obtain root where root: "current_root_table m = Inr root" "settled msr m root" by (auto simp: space_ready_def)
  have "identity_map_writeable (lapic_base msr) m = Inr m"
    using settled_map_to[OF root(2)] by (simp add: identity_map_writeable_def root(1) page_containing_eq frame_containing_address_eq lapic_page(1))
  then show ?thesis by (auto simp: send_eoi_def get_local_apic_addr_def lapic_reg lapic_base_def[symmetric] Let_def)
qed

text \<open>The first end of an interrupt that finds the page mapped settles the address space.\<close>

lemma settled_step_cong:
  "tables m' t = tables m t \<Longrightarrow> phy_offset m' = phy_offset m \<Longrightarrow> settled_step m' t i v = settled_step m t i v"
  by (simp add: settled_step_def child_def)

lemma entry_map_settles:
  assumes wf: "wf_space m root L" and t: "L t = Some l" "1 < l" and i: "i < ENTRY_COUNT" and c: "child m t i = Some v"
  shows "\<exists>m'. entry_map t i (PRESENT OR WRITABLE) m = Inr (Inr v, m') \<and> wf_space m' root L \<and> (\<forall>t' j. child m' t' j = child m t' j) \<and>
    L v = Some (l - 1) \<and> settled_step m' t i v \<and> (\<forall>t'. t' \<noteq> t \<longrightarrow> tables m' t' = tables m t') \<and> phy_offset m' = phy_offset m \<and> cr3 m' = cr3 m"
proof -
  let ?e = "tables m t ! i" and ?fl = "PRESENT OR WRITABLE"
  let ?e' = "entry_new (?fl OR entry_flags ?e) (entry_addr ?e)"
  let ?m' = "write_table t ((tables m t)[i := ?e']) m"
  have mapped: "entry_is_mapped ?e" and v: "v = entry_addr ?e + phy_offset m" using c by (auto simp: child_def split: if_splits)
  have len: "length (tables m t) = ENTRY_COUNT" using wf_spaceD(1)[OF wf] by (simp add: wf_machine_def)
  have nw: "unat (entry_addr ?e) + unat (phy_offset m) < 2 ^ 64" using child_add(1)[OF wf t i mapped] by (simp add: add_w_def split: if_splits)
  have run: "entry_map t i ?fl m = Inr (Inr v, ?m')"
    using i len mapped child_add(1)[OF wf t i mapped] by (simp add: entry_map_def idx_def entry_frame_mapped v)
  with entry_map_child[OF wf t i writeable_flags c]
  have w: "wf_space ?m' root L" "\<forall>t' j. child ?m' t' j = child m t' j" "L v = Some (l - 1)" by auto
  note ok = flags_ok_or[OF writeable_flags, of ?e] addr_ok_entry_addr[of ?e]
  have "entry_flags ?e' = ?fl OR entry_flags ?e" "entry_addr ?e' = entry_addr ?e" using entry_new_flags entry_new_addr ok by auto
  then have "settled_step ?m' t i v"
    using nw i len w(2)[rule_format, of t i] c unfolding settled_step_def by (simp add: write_table_def or.assoc or.left_commute)
  then show ?thesis using run w by (auto simp: write_table_def)
qed

lemma eoi_settles:
  assumes wf: "wf_space m root L" and root: "current_root_table m = Inr root" and mapped: "lapic_mapped msr m root"
  shows "\<exists>m'. send_eoi msr m = Inr ([(lapic_base msr + 0xB0, 0)], m') \<and> space_ready msr m' (cr3 m')"
proof -
  let ?pg = "\<lparr>page_start = lapic_base msr\<rparr>" and ?fl = "PRESENT OR WRITABLE"
  obtain o' i1 i2 i3 i4 where tr: "translate (lapic_base msr) = (o', i1, i2, i3, i4)" by (metis prod_cases5)
  have path: "page_path ?pg = [unat i4, unat i3, unat i2] @ [unat i1]" by (simp add: page_path_def tr)
  then have lt: "unat i4 < ENTRY_COUNT" "unat i3 < ENTRY_COUNT" "unat i2 < ENTRY_COUNT" "unat i1 < ENTRY_COUNT"
    using page_path_lt[of ?pg] by auto
  obtain t3 t2 t1 where c: "child m root (unat i4) = Some t3" "child m t3 (unat i3) = Some t2" "child m t2 (unat i2) = Some t1"
    using mapped unfolding lapic_mapped_def pt_entry_def path walk_follow by (auto split: option.splits)
  from entry_map_settles[OF wf wf_spaceD(2)[OF wf] _ lt(1) c(1)] obtain m1 where
    m1: "entry_map root (unat i4) ?fl m = Inr (Inr t3, m1)" "wf_space m1 root L" "L t3 = Some 3" "settled_step m1 root (unat i4) t3"
      "phy_offset m1 = phy_offset m" "cr3 m1 = cr3 m" and c1: "\<forall>t j. child m1 t j = child m t j" by auto
  from entry_map_settles[OF m1(2,3) _ lt(2), of t2] c(2) c1 obtain m2 where
    m2: "entry_map t3 (unat i3) ?fl m1 = Inr (Inr t2, m2)" "wf_space m2 root L" "L t2 = Some 2" "settled_step m2 t3 (unat i3) t2"
      "phy_offset m2 = phy_offset m1" "cr3 m2 = cr3 m1" and k2: "\<forall>t'. t' \<noteq> t3 \<longrightarrow> tables m2 t' = tables m1 t'" and c2: "\<forall>t j. child m2 t j = child m1 t j" by auto
  from entry_map_settles[OF m2(2,3) _ lt(3), of t1] c(3) c1 c2 obtain m3 where
    m3: "entry_map t2 (unat i2) ?fl m2 = Inr (Inr t1, m3)" "wf_space m3 root L" "L t1 = Some 1" "settled_step m3 t2 (unat i2) t1"
      "phy_offset m3 = phy_offset m2" "cr3 m3 = cr3 m2" and k3: "\<forall>t'. t' \<noteq> t2 \<longrightarrow> tables m3 t' = tables m2 t'" by auto
  have len: "length (tables m3 t1) = ENTRY_COUNT" using wf_spaceD(1)[OF m3(2)] by (simp add: wf_machine_def)
  have ne: "root \<noteq> t3" "root \<noteq> t2" "root \<noteq> t1" "t3 \<noteq> t2" "t3 \<noteq> t1" "t2 \<noteq> t1" using wf_spaceD(2)[OF wf] m1(3) m2(3) m3(3) by auto
  let ?m' = "write_table t1 ((tables m3 t1)[unat i1 := entry_new ?fl (lapic_base msr)]) m3"
  have "settled_step ?m' root (unat i4) t3" "settled_step ?m' t3 (unat i3) t2" "settled_step ?m' t2 (unat i2) t1"
    using m1(4,5) m2(4,5) m3(4,5) k2 k3 ne settled_step_cong[of ?m' root m1] settled_step_cong[of ?m' t3 m2] settled_step_cong[of ?m' t2 m3]
    by (simp_all add: write_table_def)
  then have st: "settled msr ?m' root" unfolding settled_def using path len lt(4) by (auto simp: write_table_def)
  have "map_to root ?pg \<lparr>start_address = lapic_base msr\<rparr> ?fl m = Inr (Inr (), ?m')"
    using m1(1) m2(1) m3(1) len lt(4) by (simp add: map_to_def tr idx_set_def)
  then have "identity_map_writeable (lapic_base msr) m = Inr ?m'"
    by (simp add: identity_map_writeable_def root page_containing_eq frame_containing_address_eq lapic_page(1))
  moreover have "current_root_table ?m' = Inr root" using root m1 m2 m3 by (simp add: current_root_table_def write_table_def)
  ultimately show ?thesis using st
    by (auto simp: send_eoi_def get_local_apic_addr_def lapic_reg lapic_base_def[symmetric] Let_def space_ready_def)
qed

section \<open>Taking turns\<close>

text \<open>No process waits for burying, and all but the current one wait for their turn.\<close>

definition all_alive :: "scheduler \<Rightarrow> bool" where
  "all_alive s \<longleftrightarrow> current_process s < length (processes s) \<and> status (processes s ! current_process s) \<noteq> WaitingForBurying \<and>
     (\<forall>i < length (processes s). i \<noteq> current_process s \<longrightarrow> status (processes s ! i) = Waiting)"

definition next_turn :: "cpu_status \<Rightarrow> scheduler \<Rightarrow> scheduler" where
  "next_turn c s =
     (let n = Suc (current_process s) mod length (processes s); ps = saved c s in
      s\<lparr>processes := ps[n := (ps ! n)\<lparr>status := Running\<rparr>], current_process := n\<rparr>)"

lemma next_index_mod: "cur < length ps \<Longrightarrow> next_index ps cur = Suc cur mod length ps"
  by (auto simp: next_index_def mod_Suc dest: le_antisym[OF Suc_leI])

lemma length_saved [simp]: "length (saved c s) = length (processes s)" by (simp add: saved_def)

lemma saved_alive:
  "all_alive s \<Longrightarrow> i < length (processes s) \<Longrightarrow> status (saved c s ! i) = Waiting"
  by (auto simp: all_alive_def saved_def save_current_def nth_list_update)

lemma saved_context:
  "i < length (processes s) \<Longrightarrow> pcontext (saved c s ! i) = (if i = current_process s then c else pcontext (processes s ! i))"
  by (auto simp: saved_def save_current_def Let_def nth_list_update)

lemma saved_pid: "i < length (processes s) \<Longrightarrow> pid (saved c s ! i) = pid (processes s ! i)"
  by (cases "current_process s < length (processes s)") (auto simp: saved_def save_current_def Let_def nth_list_update)

lemma switch_alive:
  assumes "all_alive s"
  shows "switch c s k = Some (Inr (pcontext (saved c s ! (Suc (current_process s) mod length (processes s))), next_turn c s, k))"
proof -
  let ?n = "Suc (current_process s) mod length (processes s)"
  have cur: "current_process s < length (processes s)" using assms by (simp add: all_alive_def)
  then have n: "?n < length (processes s)" by (intro mod_less_divisor) linarith
  have b: "bury_next (saved c s) (current_process s) k = Inr (saved c s, k)"
    using saved_alive[OF assms, of "Suc (current_process s)" c] by (auto simp: bury_next_def)
  have "switch_loop (saved c s) (current_process s) k = Some (Inr ((saved c s)[?n := (saved c s ! ?n)\<lparr>status := Running\<rparr>], ?n, k))"
    using saved_alive[OF assms n, of c] cur by (subst switch_loop.simps) (simp add: b next_index_mod)
  then show ?thesis using n by (simp add: switch_def saved_def[symmetric] Let_def next_turn_def)
qed

lemma next_turn_simps:
  assumes "all_alive s"
  shows "length (processes (next_turn c s)) = length (processes s)"
    and "current_process (next_turn c s) = Suc (current_process s) mod length (processes s)"
    and "all_alive (next_turn c s)"
    and "map pid (processes (next_turn c s)) = map pid (processes s)"
    and "i < length (processes s) \<Longrightarrow>
      pcontext (processes (next_turn c s) ! i) = (if i = current_process s then c else pcontext (processes s ! i))"
proof -
  have cur: "current_process s < length (processes s)" using assms by (simp add: all_alive_def)
  then have n: "Suc (current_process s) mod length (processes s) < length (processes s)" by (intro mod_less_divisor) linarith
  show "length (processes (next_turn c s)) = length (processes s)"
    "current_process (next_turn c s) = Suc (current_process s) mod length (processes s)" by (simp_all add: next_turn_def Let_def)
  show "all_alive (next_turn c s)" using n saved_alive[OF assms]
    by (auto simp: all_alive_def next_turn_def Let_def nth_list_update)
  show "map pid (processes (next_turn c s)) = map pid (processes s)"
    using saved_pid n by (intro nth_equalityI) (auto simp: next_turn_def Let_def nth_list_update)
  show "i < length (processes s) \<Longrightarrow>
      pcontext (processes (next_turn c s) ! i) = (if i = current_process s then c else pcontext (processes s ! i))"
    using saved_context[of i s c] n by (auto simp: next_turn_def Let_def nth_list_update)
qed

text \<open>
  The processes and the address spaces they are in, the current one in the \<open>cr3\<close> of the processor and the others in the \<open>cr3\<close> they were interrupted with.
\<close>

definition taking_turns :: "u64 \<Rightarrow> scheduler \<Rightarrow> kernel \<Rightarrow> bool" where
  "taking_turns msr s k \<longleftrightarrow> all_alive s \<and> space_ready msr (mach k) (cr3 (mach k)) \<and>
     (\<forall>i < length (processes s). i \<noteq> current_process s \<longrightarrow> space_ready msr (mach k) (ctx_cr3 (pcontext (processes s ! i))))"

lemma restore_cr3: "g_cr3 (fst (restore_cpu_status c)) = ctx_cr3 c"
  by (simp add: context_defs Let_def)

lemma timer_step:
  assumes t: "taking_turns msr s k"
  shows "\<exists>c s1 k1. timer_interrupt msr g rf f (Some s) k = Some (Inr (restore_cpu_status c, [(lapic_base msr + 0xB0, 0)], Some s1, k1)) \<and>
    k1 = k\<lparr>mach := (mach k)\<lparr>cr3 := ctx_cr3 c\<rparr>\<rparr> \<and> taking_turns msr s1 k1 \<and> length (processes s1) = length (processes s) \<and>
    map pid (processes s1) = map pid (processes s) \<and> current_process s1 = Suc (current_process s) mod length (processes s) \<and>
    c = pcontext (processes s1 ! current_process s1) \<and>
    (\<forall>i < length (processes s). restore_cpu_status (pcontext (processes s1 ! i)) =
       (if i = current_process s then (g\<lparr>g_cr3 := cr3 (mach k)\<rparr>, f) else restore_cpu_status (pcontext (processes s ! i))))"
proof -
  let ?cap = "context_capture (context_switch_stub (g\<lparr>g_cr3 := cr3 (mach k)\<rparr>) rf (frame_words f))"
  let ?n = "Suc (current_process s) mod length (processes s)" and ?s1 = "next_turn ?cap s"
  let ?c = "pcontext (processes ?s1 ! ?n)"
  have al: "all_alive s" and rd: "space_ready msr (mach k) (cr3 (mach k))" using t by (simp_all add: taking_turns_def)
  note nt = next_turn_simps[OF al, where c = ?cap]
  have n: "?n < length (processes s)" using al by (intro mod_less_divisor) (auto simp: all_alive_def)
  have cap: "restore_cpu_status ?cap = (g\<lparr>g_cr3 := cr3 (mach k)\<rparr>, f)"
    using cpu.restore_save[of rf "(g\<lparr>g_cr3 := cr3 (mach k)\<rparr>, f)"] by simp
  then have cap3: "ctx_cr3 ?cap = cr3 (mach k)" using restore_cr3[of ?cap] by simp
  have c: "?c = pcontext (saved ?cap s ! ?n)" using nt(5)[OF n] saved_context[OF n, of ?cap] by simp
  have "timer_interrupt msr g rf f (Some s) k =
      Some (Inr (restore_cpu_status ?c, [(lapic_base msr + 0xB0, 0)], Some ?s1, k\<lparr>mach := (mach k)\<lparr>cr3 := ctx_cr3 ?c\<rparr>\<rparr>))"
    using send_eoi_settled[OF rd] restore_cr3[of ?c]
    by (cases "restore_cpu_status ?c") (simp add: timer_interrupt_def context_switch_def switch_alive[OF al] c[symmetric] Let_def)
  moreover have "taking_turns msr ?s1 (k\<lparr>mach := (mach k)\<lparr>cr3 := ctx_cr3 ?c\<rparr>\<rparr>)"
    using t nt(1,2,3,5) n cap3 by (auto simp: taking_turns_def)
  ultimately show ?thesis using nt cap by auto
qed

definition interrupted_ok :: "phys_addr \<Rightarrow> (registers \<times> u64 \<times> interrupt_frame) list \<Rightarrow> (cpu_context \<times> cpu_context) list \<Rightarrow> bool" where
  "interrupted_ok c evs log \<longleftrightarrow> length log = length evs \<and>
     (\<forall>i < length evs. fst (log ! i) =
        ((fst (evs ! i))\<lparr>g_cr3 := if i = 0 then c else g_cr3 (fst (snd (log ! (i - 1))))\<rparr>, snd (snd (evs ! i))))"

definition resumed_ok :: "scheduler \<Rightarrow> (cpu_context \<times> cpu_context) list \<Rightarrow> bool" where
  "resumed_ok s log \<longleftrightarrow>
     (let n = length (processes s) in
      \<forall>j < length log. snd (log ! j) =
        (if Suc j < n then restore_cpu_status (pcontext (processes s ! ((current_process s + Suc j) mod n))) else fst (log ! (Suc j - n))))"

lemma interrupted_ok_Cons:
  "interrupted_ok (g_cr3 (fst y)) evs log \<Longrightarrow> interrupted_ok c ((g, rf, f) # evs) (((g\<lparr>g_cr3 := c\<rparr>, f), y) # log)"
proof -
  assume ok: "interrupted_ok (g_cr3 (fst y)) evs log"
  let ?evs = "(g, rf, f) # evs" and ?log = "((g\<lparr>g_cr3 := c\<rparr>, f), y) # log"
  have "fst (?log ! i) = ((fst (?evs ! i))\<lparr>g_cr3 := if i = 0 then c else g_cr3 (fst (snd (?log ! (i - 1))))\<rparr>, snd (snd (?evs ! i)))"
    if "i < length ?evs" for i
  proof (cases i)
    case (Suc j)
    then show ?thesis using ok that by (cases j) (simp_all add: interrupted_ok_def)
  qed simp
  then show ?thesis using ok by (simp add: interrupted_ok_def)
qed

lemma turn_back: "j < n \<Longrightarrow> cur < n \<Longrightarrow> (cur + Suc j) mod n = cur \<longleftrightarrow> Suc j = n" for cur j n :: nat
  by (cases "cur + Suc j < n") (auto simp: mod_if)

lemma resumed_ok_Cons:
  assumes s1: "length (processes s1) = length (processes s)" "current_process s1 = Suc (current_process s) mod length (processes s)"
    and cur: "current_process s < length (processes s)"
    and ctx: "\<forall>i < length (processes s). restore_cpu_status (pcontext (processes s1 ! i)) =
       (if i = current_process s then x else restore_cpu_status (pcontext (processes s ! i)))"
    and y: "y = restore_cpu_status (pcontext (processes s1 ! current_process s1))"
    and ok: "resumed_ok s1 log"
  shows "resumed_ok s ((x, y) # log)"
  unfolding resumed_ok_def Let_def
proof (intro allI impI)
  let ?n = "length (processes s)" and ?cur = "current_process s"
  have n0: "0 < ?n" using cur by linarith
  then have mod: "(?cur + Suc j) mod ?n < ?n" for j by (rule mod_less_divisor)
  fix j
  assume j: "j < length ((x, y) # log)"
  show "snd (((x, y) # log) ! j) = (if Suc j < ?n then restore_cpu_status (pcontext (processes s ! ((?cur + Suc j) mod ?n))) else fst (((x, y) # log) ! (Suc j - ?n)))"
  proof (cases j)
    case 0
    have "y = (if Suc 0 = ?n then x else restore_cpu_status (pcontext (processes s ! ((?cur + Suc 0) mod ?n))))"
      using ctx[rule_format, OF mod[of 0]] turn_back[OF n0 cur] s1(2) y by simp
    moreover have "\<not> Suc 0 < ?n \<longleftrightarrow> Suc 0 = ?n" using n0 by linarith
    ultimately show ?thesis using 0 by simp
  next
    case (Suc i)
    then have i: "snd (log ! i) = (if j < ?n then restore_cpu_status (pcontext (processes s1 ! ((?cur + Suc j) mod ?n))) else fst (log ! (j - ?n)))"
      using ok j s1 mod_add_left_eq[of "Suc ?cur" ?n "Suc i"] by (simp add: resumed_ok_def Let_def)
    show ?thesis
    proof (cases "j < ?n")
      case True
      have "snd (log ! i) = (if Suc j = ?n then x else restore_cpu_status (pcontext (processes s ! ((?cur + Suc j) mod ?n))))"
        using i True ctx[rule_format, OF mod[of j]] turn_back[OF True cur] by simp
      then show ?thesis using Suc True by auto
    next
      case False
      then show ?thesis using Suc i by (simp add: Suc_diff_le)
    qed
  qed
qed

lemma timer_irqs_spec:
  assumes "taking_turns msr s k"
  shows "\<exists>log s' k'. timer_irqs msr evs (Some s) k = Some (Inr (log, replicate (length evs) (lapic_base msr + 0xB0, 0), Some s', k')) \<and>
    interrupted_ok (cr3 (mach k)) evs log \<and> resumed_ok s log \<and> taking_turns msr s' k' \<and>
    map pid (processes s') = map pid (processes s) \<and> k' = k\<lparr>mach := (mach k)\<lparr>cr3 := cr3 (mach k')\<rparr>\<rparr>"
  using assms
proof (induction evs arbitrary: s k)
  case Nil
  then show ?case by (auto simp: interrupted_ok_def resumed_ok_def)
next
  case (Cons e evs)
  obtain g rf f where e: "e = (g, rf, f)" by (cases e)
  from timer_step[OF Cons.prems, of g rf f] obtain c s1 k1 where
    st: "timer_interrupt msr g rf f (Some s) k = Some (Inr (restore_cpu_status c, [(lapic_base msr + 0xB0, 0)], Some s1, k1))"
    and k1: "k1 = k\<lparr>mach := (mach k)\<lparr>cr3 := ctx_cr3 c\<rparr>\<rparr>" and t1: "taking_turns msr s1 k1"
    and s1: "length (processes s1) = length (processes s)" "map pid (processes s1) = map pid (processes s)"
      "current_process s1 = Suc (current_process s) mod length (processes s)" "c = pcontext (processes s1 ! current_process s1)"
    and ctx: "\<forall>i < length (processes s). restore_cpu_status (pcontext (processes s1 ! i)) =
       (if i = current_process s then (g\<lparr>g_cr3 := cr3 (mach k)\<rparr>, f) else restore_cpu_status (pcontext (processes s ! i)))"
    by blast
  from Cons.IH[OF t1] obtain log s' k' where
    run: "timer_irqs msr evs (Some s1) k1 = Some (Inr (log, replicate (length evs) (lapic_base msr + 0xB0, 0), Some s', k'))"
    and log: "interrupted_ok (cr3 (mach k1)) evs log" "resumed_ok s1 log" and t': "taking_turns msr s' k'"
    and s': "map pid (processes s') = map pid (processes s1)" and k': "k' = k1\<lparr>mach := (mach k1)\<lparr>cr3 := cr3 (mach k')\<rparr>\<rparr>" by blast
  let ?log = "((g\<lparr>g_cr3 := cr3 (mach k)\<rparr>, f), restore_cpu_status c) # log"
  have cur: "current_process s < length (processes s)" using Cons.prems by (simp add: taking_turns_def all_alive_def)
  have "interrupted_ok (cr3 (mach k)) (e # evs) ?log" unfolding e using log(1) k1 by (intro interrupted_ok_Cons) (simp add: restore_cr3)
  moreover have "resumed_ok s ?log" using s1 cur ctx log(2) by (intro resumed_ok_Cons) auto
  moreover have "k' = k\<lparr>mach := (mach k)\<lparr>cr3 := cr3 (mach k')\<rparr>\<rparr>" using k' k1 by (metis (no_types, lifting) kernel.surjective kernel.update_convs(2) machine.surjective machine.update_convs(3) select_convs(2))
  moreover have "timer_irqs msr (e # evs) (Some s) k =
      Some (Inr (?log, replicate (length (e # evs)) (lapic_base msr + 0xB0, 0), Some s', k'))"
    using st run by (simp add: e)
  ultimately show ?case using t' s' s1(2) by metis
qed


section \<open>Two processes\<close>

text \<open>Two address spaces that share the tables of the page of the local APIC.\<close>

definition turns_machine :: machine where
  "turns_machine = \<lparr>tables = (\<lambda>t. (replicate ENTRY_COUNT 0)
       [(if t = 0x2000 then 3 else if t = 0x3000 then 503 else 0) :=
         (if t = 0x2000 then 0x3003 else if t = 0x3000 then 0x4003 else if t = 0x4000 then 0xFEE00003 else 0x2003)]),
     frames = \<lparr>bitmap = [], search_from = 0\<rparr>, cr3 = 0x1000, phy_offset = 0\<rparr>"

definition turns_kernel :: kernel where
  "turns_kernel = \<lparr>heap = linked_list_allocator_new, mach = turns_machine\<rparr>"

definition turns_scheduler :: scheduler where
  "turns_scheduler = \<lparr>processes = [example_process 0 Running, (example_process 1 Waiting)\<lparr>pcontext := cpu_status_default\<lparr>ctx_cr3 := 0x5000\<rparr>\<rparr>],
     current_process = 0, next_pid = 2\<rparr>"

definition turns_regs :: "u64 \<Rightarrow> registers" where
  "turns_regs a = \<lparr>g_rax = a, g_rbx = a, g_rcx = a, g_rdx = a, g_rsi = a, g_rdi = a, g_rbp = a, g_r8 = a, g_r9 = a, g_r10 = a, g_r11 = a, g_r12 = a,
     g_r13 = a, g_r14 = a, g_r15 = a, g_cr3 = 0x1000\<rparr>"

definition turns_frame :: "u64 \<Rightarrow> interrupt_frame" where
  "turns_frame a = \<lparr>insturaction = a, code_segment = 8, flags = 0x202, stack_pointer = a, stack_segment = 0x10\<rparr>"

lemma turns_path: "page_path \<lparr>page_start = lapic_base 0xFEE00900\<rparr> = [0, 3, 503, 0]"
  by code_simp

lemma turns_settled:
  assumes "root = 0x1000 \<or> root = 0x5000"
  shows "settled 0xFEE00900 turns_machine root"
proof -
  have e: "tables turns_machine root ! 0 = 0x2003" "tables turns_machine 0x2000 ! 3 = 0x3003" "tables turns_machine 0x3000 ! 503 = 0x4003"
    "tables turns_machine 0x4000 ! 0 = 0xFEE00003" "\<And>t. length (tables turns_machine t) = 512" "phy_offset turns_machine = 0"
    using assms by (auto simp: turns_machine_def ENTRY_COUNT_def)
  have fl: "entry_flags 0x2003 = 3" "entry_flags 0x3003 = 3" "entry_flags 0x4003 = 3" "entry_addr 0x2003 = 0x2000" "entry_addr 0x3003 = 0x3000" "entry_addr 0x4003 = 0x4000"
    by code_simp+
  have "settled_step turns_machine root 0 0x2000" "settled_step turns_machine 0x2000 3 0x3000" "settled_step turns_machine 0x3000 503 0x4000"
    unfolding settled_step_def child_def entry_is_mapped_def e fl by (simp_all add: PRESENT_def WRITABLE_def entry_new_def)
  moreover have "entry_new (PRESENT OR WRITABLE) (lapic_base 0xFEE00900) = 0xFEE00003" by code_simp
  ultimately show ?thesis unfolding settled_def turns_path using e by fastforce
qed

lemma turns_ready: "taking_turns 0xFEE00900 turns_scheduler turns_kernel"
proof -
  have "current_root_table (turns_machine\<lparr>cr3 := c\<rparr>) = Inr c" if "c = 0x1000 \<or> c = 0x5000" for c
    using that by (auto simp: current_root_table_def frame_containing_address_eq add_w_def turns_machine_def mask_eq_exp_minus_1)
  then have "space_ready 0xFEE00900 turns_machine 0x1000" "space_ready 0xFEE00900 turns_machine 0x5000"
    using turns_settled by (auto simp: space_ready_def)
  moreover have "cr3 turns_machine = 0x1000" by (simp add: turns_machine_def)
  ultimately show ?thesis
    by (auto simp: taking_turns_def all_alive_def turns_scheduler_def turns_kernel_def example_process_def less_Suc_eq)
qed


end
