(* ===== verification/Shell.thy ===== *)
theory Shell
  imports Vfs Scheduler Raw_Bytes
begin

text \<open>
  \<open>kernel/src/terminal/mod.rs\<close>: the shell. A command line is split into words and the command named by the first word runs on the
  file system, on the scheduler and on the terminal.

  Of the terminal the shell keeps \<open>current_dir\<close>; everything else it does to it, and to the power controller, is the list
  \<open>calls\<close>, in order: \<open>WriteStr\<close> is one call of \<open>Terminal::write_str\<close>, which a formatting macro makes
  for every literal piece of its format string and for every argument. A line that a command reads with \<open>readln\<close> is an argument of the definitions.
  Strings are lists of UTF-8 bytes; the bytes that separate words and path components never occur inside another character.
\<close>

section \<open>State\<close>

datatype shell_call = WriteStr string | ClearScreen | Reboot | Shutdown

record shell =
  sh_vfs :: vfs
  sh_sched :: scheduler
  sh_dir :: string
  calls :: "shell_call list"

abbreviation nl :: string where "nl \<equiv> [CHR 0x0A]"

definition emit :: "shell_call list \<Rightarrow> shell \<Rightarrow> shell" where
  "emit xs s = s\<lparr>calls := calls s @ xs\<rparr>"

definition print_args :: "string list \<Rightarrow> shell \<Rightarrow> shell" where
  "print_args pieces s = emit (map WriteStr pieces) s"

text \<open>\<open>println!("{}...", args[0])\<close>, the message of every command that is called with the wrong number of arguments.\<close>

definition usage :: "string list \<Rightarrow> string \<Rightarrow> shell \<Rightarrow> shell rust" where
  "usage args msg s = rbind (idx args 0) (\<lambda>a. Inr (print_args [a, msg @ nl] s))"

text \<open>\<open>{:?}\<close> of an \<open>FSError\<close>, and \<open>{}\<close> of an unsigned integer.\<close>

fun debug_fs_error :: "fs_error \<Rightarrow> string" where
  "debug_fs_error OperationNotSupported = ''OperationNotSupported''"
| "debug_fs_error NotAFile = ''NotAFile''"
| "debug_fs_error NotADirectory = ''NotADirectory''"
| "debug_fs_error NoSuchAFileOrDirectory = ''NoSuchAFileOrDirectory''"
| "debug_fs_error InvaildDrive = ''InvaildDrive''"
| "debug_fs_error InvaildPath = ''InvaildPath''"

fun display_nat :: "nat \<Rightarrow> string" where
  "display_nat n = (if n < 10 then [char_of (48 + n)] else display_nat (n div 10) @ [char_of (48 + n mod 10)])"

declare display_nat.simps [simp del]

section \<open>Commands on the terminal\<close>

definition echo_cmd :: "string list \<Rightarrow> shell \<Rightarrow> shell rust" where
  "echo_cmd args s =
     (if length args \<noteq> 2 then Inr (print_args [''echo: expected 1 arg'' @ nl] s)
      else Inr (print_args [args ! 1, nl] s))"

definition help_text :: "string list" where
  \<open>help_text = [
     ''info:'',
     ''    scroll up using `page up` and scroll down using `page down`,'',
     ''    this shell supports string slices starting with '' @ [CHR 0x27, CHR 0x22, CHR 0x27],
     ''commands:'',
     ''    help, ?: displays this'',
     ''    echo `text`: echoes back text'',
     ''    clear: clears the screen'',
     '''',
     ''    shutdown: shutdowns qemu and bochs only for now'',
     ''    reboot: force-reboots the PC for now'',
     '''',
     ''    plist: list the avalible process'' @ [CHR 0x27] @ '' pids and names'',
     ''    pkill `pid`: kills a process with pid `pid`'',
     ''    pkillall `name`: kills all processs with name `name`'',
     '''',
     ''    touch `new_file_path`: creates a new empty file, the path of the new file would be equal to `new_file_path`'',
     ''    mkdir `new_dir_path`: creates a new empty directory, the path of the new directory would be equal to `new_dir_path` '',
     ''    ls: lists all files and directories in the current dir'',
     ''    cd `target_dir`: changes the current dir to `target_dir`'',
     '''',
     ''    cat `src_files`: echoes the contents of a file'',
     ''    write `target_file` `src_text`: writes `src_text` to `target_file`'']\<close>

definition help_cmd :: "string list \<Rightarrow> shell \<Rightarrow> shell rust" where
  "help_cmd args s =
     (if length args \<noteq> 1 then usage args '': expected 0 args'' s
      else Inr (print_args [concat (map (\<lambda>l. l @ nl) help_text)] s))"

text \<open>\<open>confirm.to_uppercase() == "Y"\<close> holds of the two one-letter strings only.\<close>

definition clear_cmd :: "string list \<Rightarrow> string \<Rightarrow> shell \<Rightarrow> shell rust" where
  "clear_cmd args confirm s =
     (if length args \<noteq> 1 then usage args '': expected 0 args'' s
      else let s1 = print_args [''you sure? y'' @ [CHR 0x5C] @ ''N: ''] s in
        Inr (if confirm \<in> {''y'', ''Y''} then emit [ClearScreen] s1 else s1))"

definition reboot_cmd :: "string list \<Rightarrow> shell \<Rightarrow> shell rust" where
  "reboot_cmd args s =
     (if length args \<noteq> 1 then usage args '': expected 0 args'' s else Inr (emit [Reboot] s))"

definition shutdown_cmd :: "string list \<Rightarrow> shell \<Rightarrow> shell rust" where
  "shutdown_cmd args s =
     (if length args \<noteq> 1 then usage args '': expected 0 args'' s else Inr (emit [Shutdown] s))"

section \<open>Commands on processes\<close>

fun plist_lines :: "(u64 \<times> u8 list) list \<Rightarrow> shell \<Rightarrow> shell rust" where
  "plist_lines [] s = Inr s"
| "plist_lines ((i, name) # ps) s =
     (let name' = rev (dropWhile (\<lambda>b. b = 0) (rev name)) in
      if utf8_valid name' then plist_lines ps (print_args [str_of name', '':  '', display_nat (unat i), nl] s)
      else Inl UnwrapFailed)"

definition plist_cmd :: "string list \<Rightarrow> shell \<Rightarrow> shell rust" where
  "plist_cmd args s =
     (if length args \<noteq> 1 then usage args '': expected 0 args'' s
      else let process_list = map (\<lambda>p. (pid p, pname p)) (processes (sh_sched s)) in
        plist_lines process_list
          (print_args [''name:  pid'' @ nl]
            (print_args [display_nat (length process_list), '' process(s) is currently running:'' @ nl] s)))"

text \<open>\<open>str::parse::<u64>\<close>: an optional plus sign, then at least one decimal digit; a value that does not fit is an error.\<close>

definition is_digit :: "char \<Rightarrow> bool" where
  "is_digit c \<longleftrightarrow> 48 \<le> (of_char c :: nat) \<and> (of_char c :: nat) \<le> 57"

definition digits_val :: "string \<Rightarrow> nat" where
  "digits_val ds = foldl (\<lambda>n c. 10 * n + (of_char c - 48)) 0 ds"

definition parse_u64 :: "string \<Rightarrow> u64 option" where
  "parse_u64 s =
     (let ds = (case s of c # rest \<Rightarrow> if c = CHR ''+'' then rest else s | [] \<Rightarrow> []) in
      if ds \<noteq> [] \<and> list_all is_digit ds \<and> digits_val ds < 2 ^ 64 then Some (of_nat (digits_val ds)) else None)"

definition monster :: "string list" where
  "monster = [''it looks like you are trying to kill us sadly this doesn'' @ [CHR 0x27] @
     ''t work duo to a bug which will never be fixed'' @ nl @ ''we will try to do that anyways you monster!'' @ nl]"

definition pkill_cmd :: "string list \<Rightarrow> shell \<Rightarrow> shell rust" where
  "pkill_cmd args s =
     (if length args \<noteq> 2 then usage args '': expected the pid'' s
      else case parse_u64 (args ! 1) of
        None \<Rightarrow> Inr (print_args [''couldn'' @ [CHR 0x27] @ ''t parse pid make sure it is a vaild number...'' @ nl] s)
      | Some i \<Rightarrow>
          let s1 = (if i = 0 then print_args monster s else s) in
          (case pkill i (sh_sched s1) of
             (Inr _, sch) \<Rightarrow> Inr (s1\<lparr>sh_sched := sch\<rparr>)
           | (Inl _, sch) \<Rightarrow>
               Inr (print_args [''couldn'' @ [CHR 0x27] @ ''t find a process with pid `'', display_nat (unat i), ''`'' @ nl]
                 (s1\<lparr>sh_sched := sch\<rparr>))))"

definition pkillall_cmd :: "string list \<Rightarrow> shell \<Rightarrow> shell rust" where
  "pkillall_cmd args s =
     (if length args \<noteq> 2 then usage args '': expected the process name'' s
      else case pkillall (bytes_of (args ! 1)) (sh_sched s) of
          (Inr _, sch) \<Rightarrow> Inr (s\<lparr>sh_sched := sch\<rparr>)
        | (Inl _, sch) \<Rightarrow>
            Inr (print_args [''couldn'' @ [CHR 0x27] @ ''t find a process with name `'', args ! 1, ''`'' @ nl]
              (s\<lparr>sh_sched := sch\<rparr>)))"

section \<open>Commands on files\<close>

text \<open>A colon before the first separator makes a path absolute.\<close>

fun has_drive :: "string \<Rightarrow> bool" where
  "has_drive [] \<longleftrightarrow> False"
| "has_drive (c # rest) \<longleftrightarrow> (if is_sep c then False else if c = CHR '':'' then True else has_drive rest)"

definition get_path :: "shell \<Rightarrow> string \<Rightarrow> string" where
  "get_path s path = (if has_drive path then path else sh_dir s @ path)"

text \<open>\<open>[..].join("/")\<close>\<close>

fun join_slash :: "string list \<Rightarrow> string" where
  "join_slash [] = []"
| "join_slash [p] = p"
| "join_slash (p # ps) = p @ CHR ''/'' # join_slash ps"

text \<open>The common body of \<open>mkdir\<close> and \<open>touch\<close>, which differ in the call and in the usage message.\<close>

definition create_cmd :: "(vfs \<Rightarrow> string \<Rightarrow> string \<Rightarrow> ((fs_error + unit) \<times> vfs) rust) \<Rightarrow> string \<Rightarrow>
    string list \<Rightarrow> shell \<Rightarrow> shell rust" where
  "create_cmd create_fn msg args s =
     (if length args \<noteq> 2 then usage args msg s
      else let spilt = split_path (get_path s (args ! 1));
               name = last spilt; path = join_slash (butlast spilt) in
        rbind (create_fn (sh_vfs s) path name) (\<lambda>(result, v).
        let s1 = s\<lparr>sh_vfs := v\<rparr> in
        Inr (case result of
               Inr _ \<Rightarrow> s1
             | Inl e \<Rightarrow> print_args [''failed touching `'', name, ''` in '', path, '', error: '', debug_fs_error e, nl] s1)))"

definition mkdir_cmd :: "string list \<Rightarrow> shell \<Rightarrow> shell rust" where
  "mkdir_cmd = create_cmd vfs_createdir '': expected just the new dir path''"

definition touch_cmd :: "string list \<Rightarrow> shell \<Rightarrow> shell rust" where
  "touch_cmd = create_cmd vfs_create '': expected just the new file path''"

text \<open>\<open>Result::unwrap\<close> of a call that may also panic.\<close>

definition unwrap_ok :: "('e + 'a) rust \<Rightarrow> 'a rust" where
  "unwrap_ok m = rbind m (\<lambda>r. case r of Inl _ \<Rightarrow> Inl UnwrapFailed | Inr x \<Rightarrow> Inr x)"

fun ls_lines :: "file_descriptor list \<Rightarrow> shell \<Rightarrow> shell rust" where
  "ls_lines [] s = Inr s"
| "ls_lines (f # fs) s =
     rbind (mounted (sh_vfs s) f) (\<lambda>root.
     rbind (fd_name root f) (\<lambda>name. ls_lines fs (print_args [name, nl] s)))"

definition ls_cmd :: "string list \<Rightarrow> shell \<Rightarrow> shell rust" where
  "ls_cmd args s =
     (if length args \<noteq> 1 then usage args '': expected 0 args'' s
      else
        rbind (unwrap_ok (vfs_open (sh_vfs s) (sh_dir s))) (\<lambda>dir.
        rbind (unwrap_ok (vfs_readdir (sh_vfs s) dir)) (\<lambda>fs. ls_lines fs s)))"

definition cd_cmd :: "string list \<Rightarrow> shell \<Rightarrow> shell rust" where
  "cd_cmd args s =
     (if length args \<noteq> 2 then usage args '': expected only the target directory.'' s
      else let path = get_path s (args ! 1) in
        rbind (verify_path_dir (sh_vfs s) path) (\<lambda>verify. Inr (case verify of
            Inl e \<Rightarrow> print_args [args ! 0, '': path error: '', debug_fs_error e, nl] s
          | Inr _ \<Rightarrow> s\<lparr>sh_dir := (if path \<noteq> [] \<and> last path = CHR ''/'' then path else path @ ''/'')\<rparr>)))"

definition cat_cmd :: "string list \<Rightarrow> shell \<Rightarrow> shell rust" where
  "cat_cmd args s =
     (if length args \<noteq> 2 then usage args '': expected only the target file'' s
      else
        rbind (vfs_open (sh_vfs s) (get_path s (args ! 1))) (\<lambda>res. case res of
          Inl e \<Rightarrow> Inr (print_args [args ! 0, '': failed to open file error: '', debug_fs_error e, nl] s)
        | Inr opened \<Rightarrow>
            rbind (mounted (sh_vfs s) opened) (\<lambda>root.
            rbind (fd_size root opened) (\<lambda>sz.
            rbind (vfs_read (sh_vfs s) opened (replicate (unat sz) 0)) (\<lambda>(rd, _, buffer).
            Inr (case rd of
                Inl e \<Rightarrow> print_args [args ! 0, '': failed to read file error: '', debug_fs_error e, nl] s
              | Inr _ \<Rightarrow> print_args [str_of buffer, nl] s))))))"

definition write_cmd :: "string list \<Rightarrow> shell \<Rightarrow> shell rust" where
  "write_cmd args s =
     (if length args \<noteq> 3 then usage args '': expected the file path then the textual data'' s
      else
        rbind (vfs_open (sh_vfs s) (get_path s (args ! 1))) (\<lambda>res. case res of
          Inl e \<Rightarrow> Inr (print_args [args ! 0, '': failed to open file error: '', debug_fs_error e, nl] s)
        | Inr opened \<Rightarrow>
            rbind (vfs_write (sh_vfs s) opened (bytes_of (args ! 2))) (\<lambda>(rd, _, v).
            let s1 = s\<lparr>sh_vfs := v\<rparr> in
            Inr (case rd of
                Inl e \<Rightarrow> print_args [args ! 0, '': failed to read file error: '', debug_fs_error e, nl] s1
              | Inr _ \<Rightarrow> s1))))"

section \<open>The command line\<close>

text \<open>
  \<open>split\<close> with a closure that remembers whether it is inside quotes: the words, and whether a quote is open at the end.
\<close>

fun split_command :: "bool \<Rightarrow> string \<Rightarrow> string list \<times> bool" where
  "split_command unterminated [] = ([[]], unterminated)"
| "split_command unterminated (c # rest) =
     (let unterminated' = (if unterminated \<and> c = CHR 0x22 then False else if c = CHR 0x22 then True else unterminated);
          (ws, e) = split_command unterminated' rest in
      if c = CHR '' '' \<and> \<not> unterminated' then ([] # ws, e)
      else (case ws of w # ws' \<Rightarrow> ((c # w) # ws', e) | [] \<Rightarrow> ([[c]], e)))"

definition process_command :: "string \<Rightarrow> string \<Rightarrow> shell \<Rightarrow> shell rust" where
  "process_command command confirm s =
     (let (args, unterminated) = split_command False command in
      if unterminated then Inr (print_args [''unterminated string '' @ [CHR 0x22] @ '' expected'' @ nl] s)
      else
        rbind (idx args 0) (\<lambda>cmd.
        if cmd = ''echo'' then echo_cmd args s
        else if cmd = ''?'' \<or> cmd = ''help'' then help_cmd args s
        else if cmd = ''clear'' then clear_cmd args confirm s
        else if cmd = ''reboot'' then reboot_cmd args s
        else if cmd = ''shutdown'' then shutdown_cmd args s
        else if cmd = ''plist'' then plist_cmd args s
        else if cmd = ''pkill'' then pkill_cmd args s
        else if cmd = ''pkillall'' then pkillall_cmd args s
        else if cmd = ''ls'' then ls_cmd args s
        else if cmd = ''touch'' then touch_cmd args s
        else if cmd = ''mkdir'' then mkdir_cmd args s
        else if cmd = ''cd'' then cd_cmd args s
        else if cmd = ''cat'' then cat_cmd args s
        else if cmd = ''write'' then write_cmd args s
        else if cmd = '''' then Inr s
        else Inr (print_args [''unknown command '', cmd, nl] s)))"

text \<open>One round of the loop of \<open>shell\<close>: the prompt, then the line that was read.\<close>

definition shell_round :: "string \<Rightarrow> string \<Rightarrow> shell \<Rightarrow> shell rust" where
  "shell_round line confirm s =
     (let prompt = [CHR 0x5C] @ ''[fg: (0, 255, 0) ||'' @ sh_dir s @ ''||]'' in
      process_command line confirm (print_args [prompt, '' # ''] s))"

end
