(* ===== verification/Shell_Props.thy ===== *)
theory Shell_Props
  imports Shell Vfs_Props Scheduling
begin

text \<open>
  Properties of the shell: how a line becomes words, what the commands on files do in the current directory, and that no
  line typed can break the state or, three commands apart, panic.
\<close>

section \<open>Words\<close>

text \<open>A word of a command line: no blank and no quote, or quoted from its first to its last character.\<close>

definition plain_word :: "string \<Rightarrow> bool" where
  "plain_word w \<longleftrightarrow> CHR '' '' \<notin> set w \<and> CHR 0x22 \<notin> set w"

definition quoted_word :: "string \<Rightarrow> bool" where
  "quoted_word w \<longleftrightarrow> (\<exists>u. w = CHR 0x22 # u @ [CHR 0x22] \<and> CHR 0x22 \<notin> set u)"

definition shell_word :: "string \<Rightarrow> bool" where
  "shell_word w \<longleftrightarrow> plain_word w \<or> quoted_word w"

fun unwords :: "string list \<Rightarrow> string" where
  "unwords [] = []"
| "unwords [w] = w"
| "unwords (w # ws) = w @ CHR '' '' # unwords ws"

lemma split_command_ne: "fst (split_command b s) \<noteq> []"
  by (induction b s rule: split_command.induct) (auto simp: Let_def split: list.splits prod.splits)

text \<open>A stretch of a line at whose characters the line is not split goes in front of the first word of the rest.\<close>

lemma split_command_plain:
  "plain_word w \<Longrightarrow> split_command False (w @ s) = (let (ws, e) = split_command False s in ((w @ hd ws) # tl ws, e))"
proof (induction w)
  case Nil
  then show ?case using split_command_ne[of False s] by (auto split: prod.splits)
next
  case (Cons c w)
  then show ?case by (auto simp: plain_word_def Let_def split: prod.splits)
qed

lemma split_command_inside:
  "CHR 0x22 \<notin> set u \<Longrightarrow> split_command True (u @ [CHR 0x22] @ s) =
    (let (ws, e) = split_command False s in ((u @ CHR 0x22 # hd ws) # tl ws, e))"
proof (induction u)
  case Nil
  then show ?case using split_command_ne[of False s] by (auto simp: Let_def split: prod.splits list.splits)
next
  case (Cons c u)
  then show ?case by (auto simp: Let_def split: prod.splits)
qed

lemma split_command_word:
  assumes "shell_word w"
  shows "split_command False (w @ s) = (let (ws, e) = split_command False s in ((w @ hd ws) # tl ws, e))"
proof (cases "plain_word w")
  case True
  then show ?thesis by (rule split_command_plain)
next
  case False
  with assms obtain u where w: "w = CHR 0x22 # u @ [CHR 0x22]" "CHR 0x22 \<notin> set u"
    by (auto simp: shell_word_def quoted_word_def)
  show ?thesis unfolding w(1) using split_command_inside[OF w(2), of s] by (auto simp: Let_def split: prod.splits)
qed

lemma split_unwords:
  "ws \<noteq> [] \<Longrightarrow> \<forall>w \<in> set ws. shell_word w \<Longrightarrow> split_command False (unwords ws) = (ws, False)"
proof (induction ws rule: unwords.induct)
  case (2 w)
  then show ?case using split_command_word[of w "[]"] by simp
next
  case (3 w v va)
  then show ?case using split_command_word[of w "CHR '' '' # unwords (v # va)"] by simp
qed simp

lemma command_words:
  assumes "ws \<noteq> []" and "\<forall>w \<in> set ws. shell_word w"
  shows "split_command False (unwords ws) = (ws, False)" and "idx ws 0 = Inr (hd ws)"
  using split_unwords[OF assms] assms(1) by (simp_all add: idx_def hd_conv_nth)

section \<open>Paths in the current directory\<close>

text \<open>A name that can be typed at the prompt and is looked up in the current directory.\<close>

definition file_name :: "string \<Rightarrow> bool" where
  "file_name w \<longleftrightarrow> plain_name w \<and> plain_word w \<and> CHR '':'' \<notin> set w"

lemma has_drive_colon: "CHR '':'' \<notin> set w \<Longrightarrow> \<not> has_drive w"
  by (induction w) auto

text \<open>A directory on a drive, and the current directory: its path, the tree it is in, and its children.\<close>

definition dir_on :: "vfs \<Rightarrow> string \<Rightarrow> string list \<Rightarrow> inode \<Rightarrow> (string \<times> inode) list \<Rightarrow> bool" where
  "dir_on v d comps root ents \<longleftrightarrow> on_drive v d root \<and> CHR '':'' \<notin> set d \<and> (\<forall>p \<in> set comps. plain_name p) \<and>
     (\<exists>n. node_at root comps = Some (Inode n Directory (Children ents)))"

definition at_dir :: "shell \<Rightarrow> string \<Rightarrow> string list \<Rightarrow> inode \<Rightarrow> (string \<times> inode) list \<Rightarrow> bool" where
  "at_dir s d comps root ents \<longleftrightarrow> dir_on (sh_vfs s) d comps root ents \<and> sh_dir s = join_path d comps @ ''/''"

lemma get_path_name:
  assumes "at_dir s d comps root ents" and "file_name w"
  shows "get_path s w = join_path d (comps @ [w])"
  using assms has_drive_colon[of w] by (simp add: at_dir_def get_path_def file_name_def join_path_def)

lemma get_path_dir: "sh_dir s' = sh_dir s \<Longrightarrow> get_path s' w = get_path s w"
  by (simp add: get_path_def)

lemma has_drive_join: "\<forall>c \<in> set d. \<not> is_sep c \<Longrightarrow> has_drive (d @ CHR '':'' # s)"
  by (induction d) (auto simp: is_sep_def)

lemma join_slash_comps: "join_slash (p # ps) = p @ concat (map (\<lambda>c. CHR ''/'' # c) ps)"
  by (induction ps arbitrary: p) auto

lemma split_name:
  assumes "\<forall>c \<in> set d. \<not> is_sep c" and "\<forall>p \<in> set comps. plain_name p" and "plain_name w"
  shows "last (split_path (join_path d (comps @ [w]))) = w"
    and "join_slash (butlast (split_path (join_path d (comps @ [w])))) = join_path d comps"
proof -
  have "split_path (join_path d (comps @ [w])) = (d @ '':'') # comps @ [w]"
    using assms by (intro split_join_path) auto
  then show "last (split_path (join_path d (comps @ [w]))) = w"
    "join_slash (butlast (split_path (join_path d (comps @ [w])))) = join_path d comps"
    by (simp_all add: butlast_append join_slash_comps, simp add: join_path_def)
qed

lemma reslove_trailing:
  "\<forall>c \<in> set comps. plain_name c \<Longrightarrow> reslove_loop root (comps @ [[]]) cur prev = reslove_loop root comps cur prev"
  by (induction comps arbitrary: cur prev) (auto simp: plain_name_def intro!: rbind_cong split: sum.splits)

lemma split_path_snoc: "split_path (s @ ''/'') = split_path s @ [[]]"
proof (induction s)
  case (Cons c s)
  then show ?case using split_path_ne[of s] by (auto split: list.splits)
qed (simp add: is_sep_def)

lemma open_trailing:
  assumes v: "on_drive v d root" "CHR '':'' \<notin> set d" and comps: "\<forall>p \<in> set comps. plain_name p"
    and nd: "node_at root comps = Some nd"
  shows "vfs_open v (join_path d comps @ ''/'') = Inr (Inr \<lparr>fd_mountpoint = d, fd_node = comps, read_pos = 0, write_pos = 0\<rparr>)"
proof -
  have nc: "\<forall>c \<in> set d. c \<noteq> CHR '':''" using v(2) by metis
  have o1: "vfs_open v (join_path d comps) = Inr (Inr \<lparr>fd_mountpoint = d, fd_node = comps, read_pos = 0, write_pos = 0\<rparr>)"
    using open_plain[OF v(1) nc comps] nd by simp
  have c: "split_path (join_path d comps) \<noteq> []" by (rule split_path_ne)
  have hd: "drive_of v (join_path d comps @ ''/'') = Inr (d, root)"
    using drive_of_join[OF v(1) comps] c by (simp add: drive_of_def get_from_path_def split_path_snoc)
  have m: "mountpoint_path (join_path d comps @ ''/'') = Inr (concat (map (\<lambda>c. CHR ''/'' # c) comps) @ ''/'')"
    "mountpoint_path (join_path d comps) = Inr (concat (map (\<lambda>c. CHR ''/'' # c) comps))"
    using nc by (simp_all add: mountpoint_path_def join_path_def dropWhile_append2)
  have sp: "split_path (concat (map (\<lambda>c. CHR ''/'' # c) comps)) = [] # comps"
    using split_path_comps[of "[]" comps] comps by simp
  show ?thesis
    using o1 unfolding vfs_open_def hd drive_of_join[OF v(1) comps] m
    by (simp add: ramfs_open_def reslove_path_def split_path_snoc sp reslove_trailing[OF comps])
qed

section \<open>Files in the current directory\<close>

lemma dir_onE:
  assumes "dir_on v d comps root ents"
  obtains n where "node_at root comps = Some (Inode n Directory (Children ents))" "bt_inv ents" "wf_children ents"
    "on_drive v d root" "bt_get v d = Some root" "wf_inode root" "\<forall>c \<in> set d. c \<noteq> CHR '':''"
    "\<forall>c \<in> set d. \<not> is_sep c" "\<forall>p \<in> set comps. plain_name p" "CHR '':'' \<notin> set d"
proof -
  obtain n where n: "node_at root comps = Some (Inode n Directory (Children ents))" using assms by (auto simp: dir_on_def)
  have r: "on_drive v d root" "wf_inode root" "bt_get v d = Some root" "\<forall>c \<in> set d. \<not> is_sep c"
    "\<forall>p \<in> set comps. plain_name p" "\<forall>c \<in> set d. c \<noteq> CHR '':''" "CHR '':'' \<notin> set d"
    using assms by (auto simp: dir_on_def on_drive_def)
  from wf_node_at[OF r(2) n] have "bt_inv ents" "wf_children ents" by simp_all
  from that[OF n this r(1,3,2,6,4,5,7)] show thesis .
qed

text \<open>The tree and the drives after \<open>node\<close> was put into a directory.\<close>

definition entry_root :: "string list \<Rightarrow> inode \<Rightarrow> (string \<times> inode) list \<Rightarrow> inode \<Rightarrow> inode" where
  "entry_root comps root ents node = set_ops root comps (Children (bt_insert (iname node) node ents))"

definition with_entry :: "shell \<Rightarrow> string \<Rightarrow> string list \<Rightarrow> inode \<Rightarrow> (string \<times> inode) list \<Rightarrow> inode \<Rightarrow> shell" where
  "with_entry s d comps root ents node = s\<lparr>sh_vfs := bt_insert d (entry_root comps root ents node) (sh_vfs s)\<rparr>"

lemma with_entry_simps [simp]:
  "calls (with_entry s d comps root ents node) = calls s" "sh_sched (with_entry s d comps root ents node) = sh_sched s"
  "sh_dir (with_entry s d comps root ents node) = sh_dir s"
  by (simp_all add: with_entry_def)

lemma with_entry_dir_on:
  assumes at: "dir_on (sh_vfs s) d comps root ents" and wf: "wf_inode node"
  shows "dir_on (sh_vfs (with_entry s d comps root ents node)) d comps (entry_root comps root ents node)
      (bt_insert (iname node) node ents)"
    and "node_at (entry_root comps root ents node) (comps @ [iname node]) = Some node"
proof -
  obtain n where n: "node_at root comps = Some (Inode n Directory (Children ents))" "bt_inv ents" "wf_children ents"
    "on_drive (sh_vfs s) d root" "bt_get (sh_vfs s) d = Some root" "wf_inode root"
    using at by (rule dir_onE)
  have "wf_inode (entry_root comps root ents node)" unfolding entry_root_def
    using n(2,3) wf by (intro wf_set_ops[OF n(6,1)]) (simp add: bt_inv_insert wf_children_insert)
  then show "dir_on (sh_vfs (with_entry s d comps root ents node)) d comps (entry_root comps root ents node)
      (bt_insert (iname node) node ents)"
    using at set_ops_same[OF n(1)]
    by (auto simp: dir_on_def with_entry_def entry_root_def on_drive_def bt_inv_insert bt_get_insert)
  show "node_at (entry_root comps root ents node) (comps @ [iname node]) = Some node"
    using set_ops_below[OF n(1)] by (simp add: entry_root_def bt_get_insert)
qed

lemma create_cmd_name:
  assumes at: "dir_on (sh_vfs s) d comps root ents" and w: "plain_name w" and path: "get_path s p = join_path d (comps @ [w])"
    and wf: "wf_inode node" "iname node = w"
    and fn: "\<And>v p. create_fn v p w = (case drive_of v p of Inl e \<Rightarrow> Inr (Inl e, v)
      | Inr (d, root) \<Rightarrow> rbind (insert_node root p node) (\<lambda>(r, root'). Inr (r, bt_insert d root' v)))"
  shows "create_cmd create_fn msg [c, p] s = Inr (with_entry s d comps root ents node)"
proof -
  obtain n where n: "node_at root comps = Some (Inode n Directory (Children ents))"
    "on_drive (sh_vfs s) d root" "wf_inode root" "\<forall>c \<in> set d. \<not> is_sep c" "\<forall>p \<in> set comps. plain_name p"
    using at by (rule dir_onE)
  have sp: "tl (split_path (join_path d comps)) = comps" using split_join_path[OF n(4,5)] by simp
  show ?thesis
    using insert_node_plain(1)[OF n(3,5) sp n(1) wf(1)] wf(2)
    by (simp add: create_cmd_def path split_name[OF n(4,5) w] fn drive_of_join[OF n(2,5)] with_entry_def entry_root_def)
qed

lemma touch_name:
  "dir_on (sh_vfs s) d comps root ents \<Longrightarrow> plain_name w \<Longrightarrow> get_path s p = join_path d (comps @ [w]) \<Longrightarrow>
    touch_cmd [c, p] s = Inr (with_entry s d comps root ents (new_file w []))"
  unfolding touch_cmd_def
  by (rule create_cmd_name, assumption, assumption, assumption)
     (simp add: new_file_def, simp add: new_file_def, simp only: vfs_create_def ramfs_create_def)

lemma mkdir_name:
  "dir_on (sh_vfs s) d comps root ents \<Longrightarrow> plain_name w \<Longrightarrow> get_path s p = join_path d (comps @ [w]) \<Longrightarrow>
    mkdir_cmd [c, p] s = Inr (with_entry s d comps root ents (new_dir w))"
  unfolding mkdir_cmd_def
  by (rule create_cmd_name, assumption, assumption, assumption)
     (simp add: new_dir_def bt_inv_def, simp add: new_dir_def, simp only: vfs_createdir_def ramfs_createdir_def)

lemma ls_lines_names:
  assumes "bt_get (sh_vfs s) d = Some root"
    and "\<forall>k \<in> set ks. \<exists>c. node_at root (comps @ [k]) = Some c \<and> iname c = k"
  shows "ls_lines (map (\<lambda>k. \<lparr>fd_mountpoint = d, fd_node = comps @ [k], read_pos = 0, write_pos = 0\<rparr>) ks) s =
    Inr (print_args (concat (map (\<lambda>k. [k, nl]) ks)) s)"
  using assms
proof (induction ks arbitrary: s)
  case (Cons k ks)
  then obtain c where c: "node_at root (comps @ [k]) = Some c" "iname c = k" by auto
  have "bt_get (sh_vfs (print_args [k, nl] s)) d = Some root" using Cons.prems(1) by (simp add: print_args_def emit_def)
  from Cons.IH[OF this] Cons.prems c show ?case
    by (simp add: mounted_def fd_name_def deref_def) (simp add: print_args_def emit_def)
qed (simp add: print_args_def emit_def)

lemma ls_prints:
  assumes at: "at_dir s d comps root ents"
  shows "ls_cmd [c] s = Inr (print_args (concat (map (\<lambda>k. [k, nl]) (map fst ents))) s)"
proof -
  obtain n where n: "node_at root comps = Some (Inode n Directory (Children ents))" "bt_inv ents" "wf_children ents"
    "bt_get (sh_vfs s) d = Some root" "on_drive (sh_vfs s) d root"
    "CHR '':'' \<notin> set d" "\<forall>p \<in> set comps. plain_name p"
    using at unfolding at_dir_def by (meson dir_onE)
  have "\<exists>c. node_at root (comps @ [k]) = Some c \<and> iname c = k" if "k \<in> fst ` set ents" for k
  proof -
    from that obtain c where "(k, c) \<in> set ents" by auto
    then have "bt_get ents k = Some c" using bt.entries_get[OF n(2)] by simp
    then show ?thesis using n(1) wf_children_get[OF n(3)] by (simp add: node_at_snoc)
  qed
  then have l: "ls_lines (map (\<lambda>k. \<lparr>fd_mountpoint = d, fd_node = comps @ [k], read_pos = 0, write_pos = 0\<rparr>) (map fst ents)) s =
      Inr (print_args (concat (map (\<lambda>k. [k, nl]) (map fst ents))) s)"
    using n(4) by (intro ls_lines_names) auto
  have m: "map (\<lambda>k. \<lparr>fd_mountpoint = d, fd_node = comps @ [k], read_pos = 0, write_pos = 0\<rparr>) (map fst ents) =
      map (\<lambda>(k, _). \<lparr>fd_mountpoint = d, fd_node = comps @ [k], read_pos = 0, write_pos = 0\<rparr>) ents" by auto
  show ?thesis
    using n(1,4) l[unfolded m] at open_trailing[OF n(5-7,1)]
    by (simp add: ls_cmd_def at_dir_def unwrap_ok_def vfs_readdir_def mounted_def ramfs_readdir_def deref_def)
qed

lemma command_ls: "process_command ''ls'' confirm s = ls_cmd [''ls''] s"
  by (simp add: process_command_def idx_def)

lemma command_two:
  assumes "plain_word w"
  shows "process_command (''touch '' @ w) confirm s = touch_cmd [''touch'', w] s"
    and "process_command (''mkdir '' @ w) confirm s = mkdir_cmd [''mkdir'', w] s"
    and "process_command (''cd '' @ w) confirm s = cd_cmd [''cd'', w] s"
    and "process_command (''cat '' @ w) confirm s = cat_cmd [''cat'', w] s"
  using split_unwords[of "[''touch'', w]"] split_unwords[of "[''mkdir'', w]"] split_unwords[of "[''cd'', w]"]
    split_unwords[of "[''cat'', w]"] assms
  by (simp_all add: process_command_def shell_word_def plain_word_def idx_def)

text \<open>
  C21: \<open>touch\<close> with a plain name makes an empty file of that name in the current directory without printing anything, and \<open>ls\<close> then
  prints the names in the directory in increasing order, the new one among them, one per line, and changes nothing else. The
  file replaces whatever had its name.
\<close>
theorem touch_then_ls:
  assumes "at_dir s d comps root ents" and "file_name w"
  shows "\<exists>s' root'. process_command (''touch '' @ w) confirm s = Inr s' \<and>
    at_dir s' d comps root' (bt_insert w (new_file w []) ents) \<and>
    calls s' = calls s \<and> sh_sched s' = sh_sched s \<and>
    process_command ''ls'' confirm' s' =
      Inr (s'\<lparr>calls := calls s @ map WriteStr (concat (map (\<lambda>k. [k, nl]) (map fst (bt_insert w (new_file w []) ents))))\<rparr>)"
proof -
  let ?s = "with_entry s d comps root ents (new_file w [])"
  have wf: "wf_inode (new_file w [])" "iname (new_file w []) = w" by (simp_all add: new_file_def)
  have on: "dir_on (sh_vfs s) d comps root ents" using assms(1) by (simp add: at_dir_def)
  have t: "process_command (''touch '' @ w) confirm s = Inr ?s"
    using assms command_two(1) touch_name[OF on _ get_path_name[OF assms]] by (simp add: file_name_def)
  have at: "at_dir ?s d comps (entry_root comps root ents (new_file w [])) (bt_insert w (new_file w []) ents)"
    using with_entry_dir_on(1)[OF on wf(1)] assms(1) unfolding at_dir_def wf(2) by simp
  show ?thesis using t at ls_prints[OF at] by (auto simp: command_ls print_args_def emit_def)
qed

definition example_shell :: shell where
  "example_shell = \<lparr>sh_vfs = example_vfs, sh_sched = \<lparr>processes = [], current_process = 0, next_pid = 0\<rparr>,
     sh_dir = ''ram:/'', calls = []\<rparr>"

lemma example_at_dir: "at_dir example_shell ''ram'' [] example_root [(''f'', Inode ''f'' File (Data [1, 2, 3]))]"
  using example_on_drive by (simp add: at_dir_def dir_on_def example_shell_def join_path_def)

lemma example_file_name: "file_name ''f''" "file_name ''g''"
  by (simp_all add: file_name_def plain_name_def plain_word_def is_sep_def)

theorem touch_then_ls_witness:
  "\<exists>s'. process_command ''touch g'' '''' example_shell = Inr s' \<and>
    process_command ''ls'' '''' s' = Inr (s'\<lparr>calls := map WriteStr [''f'', nl, ''g'', nl]\<rparr>)"
  using touch_then_ls[OF example_at_dir example_file_name(2), of "''''" "''''"]
  by (auto simp: example_shell_def)

section \<open>Writing and printing files\<close>

lemma command_write:
  assumes "plain_word w" and "shell_word t"
  shows "process_command (''write '' @ w @ '' '' @ t) confirm s = write_cmd [''write'', w, t] s"
  using split_unwords[of "[''write'', w, t]"] assms
  by (simp add: process_command_def shell_word_def plain_word_def idx_def)

text \<open>What \<open>write\<close> and \<open>cat\<close> do on a file that exists, whatever path they were given.\<close>

lemma write_opened:
  assumes o: "vfs_open (sh_vfs s) (get_path s p) =
      Inr (Inr \<lparr>fd_mountpoint = d, fd_node = q, read_pos = 0, write_pos = 0\<rparr>)"
    and v: "bt_get (sh_vfs s) d = Some root" and nd: "node_at root q = Some (Inode nm File (Data old))"
    and len: "length t < 2 ^ 64" "length old < 2 ^ 64"
  shows "write_cmd [c, p, t] s =
    Inr (s\<lparr>sh_vfs := bt_insert d (set_ops root q (Data (bytes_of t @ drop (length t) old))) (sh_vfs s)\<rparr>)"
proof -
  have l: "length (bytes_of t) = length t" by (simp add: bytes_of_def)
  have "unat (of_nat (length t) :: usize) = length t" using len(1) by (simp add: unat_of_nat_small)
  then show ?thesis
    using o v nd len(1) ops_write_start[of "bytes_of t" old] len
    by (simp add: write_cmd_def vfs_write_def mounted_def ramfs_write_def deref_def l add_w_def)
qed

lemma cat_opened:
  assumes o: "vfs_open (sh_vfs s) (get_path s p) =
      Inr (Inr \<lparr>fd_mountpoint = d, fd_node = q, read_pos = 0, write_pos = 0\<rparr>)"
    and v: "bt_get (sh_vfs s) d = Some root" and nd: "node_at root q = Some (Inode nm File (Data data))"
    and len: "length data < 2 ^ 64"
  shows "cat_cmd [c, p] s = Inr (print_args [str_of data, nl] s)"
proof -
  let ?fd = "\<lparr>fd_mountpoint = d, fd_node = q, read_pos = 0, write_pos = 0\<rparr>"
  have u: "unat (of_nat (length data) :: usize) = length data" using len by (simp add: unat_of_nat_small)
  have "deref root (fd_node ?fd) = Inr (Inode nm File (Data data))" using nd by (simp add: deref_def)
  from read_start[OF this _ len, of "replicate (length data) 0"] len
  have "ramfs_read root ?fd (replicate (length data) 0) =
      Inr (Inr (of_nat (length data)), ?fd\<lparr>read_pos := of_nat (length data)\<rparr>, data)" by simp
  then show ?thesis
    using o v nd u by (simp add: cat_cmd_def mounted_def fd_size_def deref_def vfs_read_def)
qed

text \<open>
  C19: \<open>write\<close> to a file of the current directory replaces the first bytes of the file with the text, which may be a quoted string and then keeps its
  quotes, and prints nothing; \<open>cat\<close> then prints the text followed by what the file held behind it.
\<close>
theorem write_then_cat:
  assumes at: "at_dir s d comps root ents" and w: "file_name w"
    and fl: "bt_get ents w = Some (Inode nm File (Data old))"
    and t: "shell_word t" "length t < 2 ^ 64"
  shows "\<exists>s'. process_command (''write '' @ w @ '' '' @ t) confirm s = Inr s' \<and> calls s' = calls s \<and>
    process_command (''cat '' @ w) confirm' s' =
      Inr (s'\<lparr>calls := calls s @ [WriteStr (t @ drop (length t) (str_of old)), WriteStr nl]\<rparr>)"
proof -
  let ?q = "comps @ [w]" let ?data = "bytes_of t @ drop (length t) old"
  let ?root = "set_ops root ?q (Data ?data)"
  let ?s = "s\<lparr>sh_vfs := bt_insert d ?root (sh_vfs s)\<rparr>"
  have dir: "dir_on (sh_vfs s) d comps root ents" using at by (simp add: at_dir_def)
  obtain n where n: "node_at root comps = Some (Inode n Directory (Children ents))" "on_drive (sh_vfs s) d root"
    "bt_get (sh_vfs s) d = Some root" "wf_inode root" "\<forall>c \<in> set d. c \<noteq> CHR '':''" "\<forall>p \<in> set comps. plain_name p"
    using dir by (rule dir_onE)
  have q: "\<forall>p \<in> set ?q. plain_name p" using n(6) w by (simp add: file_name_def)
  have nd: "node_at root ?q = Some (Inode nm File (Data old))" using n(1) fl by (simp add: node_at_snoc)
  have old: "length old < 2 ^ 64" using wf_node_at[OF n(4) nd] by simp
  have data: "length ?data < 2 ^ 64" using old t(2) by (simp add: bytes_of_def)
  have path: "get_path s w = join_path d ?q" using get_path_name[OF at w] .
  have pw: "plain_word w" using w by (simp add: file_name_def)
  have wr: "process_command (''write '' @ w @ '' '' @ t) confirm s = Inr ?s"
    using write_opened[OF _ n(3) nd t(2) old] open_plain[OF n(2,5) q] nd command_write[OF pw t(1)]
    by (simp add: path)
  have root': "wf_inode ?root" "node_at ?root ?q = Some (Inode nm File (Data ?data))"
    using wf_set_ops[OF n(4) nd, of "Data ?data"] data set_ops_same[OF nd] by simp_all
  then have on: "on_drive (sh_vfs ?s) d ?root" using n(2) by (simp add: on_drive_def bt_inv_insert bt_get_insert)
  have "get_path ?s w = join_path d ?q" using path get_path_dir[of ?s s] by simp
  then have "process_command (''cat '' @ w) confirm' ?s = Inr (print_args [str_of ?data, nl] ?s)"
    using cat_opened[OF _ _ root'(2) data] open_plain[OF on n(5) q] root'(2) on command_two(4)[OF pw]
    by (simp add: on_drive_def)
  moreover have "str_of ?data = t @ drop (length t) (str_of old)"
    using str_bytes[of t] by (simp add: str_of_def drop_map)
  ultimately show ?thesis using wr by (simp add: print_args_def emit_def)
qed

theorem write_then_cat_witness:
  "\<exists>s'. process_command ''write f hi'' '''' example_shell = Inr s' \<and>
    process_command ''cat f'' '''' s' = Inr (s'\<lparr>calls := [WriteStr (''hi'' @ [CHR 0x03]), WriteStr nl]\<rparr>)"
proof -
  have f: "bt_get [(''f'', Inode ''f'' File (Data [1, 2, 3]))] ''f'' = Some (Inode ''f'' File (Data [1, 2, 3]))"
    by (simp add: bt_get_def)
  have h: "shell_word ''hi''" "length ''hi'' < 2 ^ 64" by (simp_all add: shell_word_def plain_word_def)
  have "str_of [1, 2, 3] = [CHR 0x01, CHR 0x02, CHR 0x03]" by (simp add: str_of_def char_of_def bit_0)
  then show ?thesis
    using write_then_cat[OF example_at_dir example_file_name(1) f h, of "''''" "''''"] by (auto simp: example_shell_def)
qed

section \<open>Listing a directory that is gone\<close>

lemma cd_name:
  assumes v: "on_drive (sh_vfs s) d root" and comps: "\<forall>p \<in> set comps. plain_name p"
    and nd: "node_at root comps = Some (Inode n Directory (Children ents))" and path: "get_path s p = join_path d comps"
    and nl: "comps \<noteq> []"
  shows "cd_cmd [c, p] s = Inr (s\<lparr>sh_dir := join_path d comps @ ''/''\<rparr>)"
proof -
  have "\<forall>c \<in> set d. \<not> is_sep c" "wf_inode root" using v by (auto simp: on_drive_def)
  with split_join_path comps have "tl (split_path (join_path d comps)) = comps" "wf_inode root" by auto
  then have "verify_path_dir (sh_vfs s) (join_path d comps) = Inr (Inr ())"
    using reslove_plain[of root comps "[]" root "[]"] nd comps
    by (simp add: verify_path_dir_def drive_of_join[OF v comps] reslove_path_def deref_def is_dir_def)
  moreover have "last (join_path d comps) \<noteq> CHR ''/''"
  proof -
    obtain ps w where pw: "comps = ps @ [w]" using nl by (cases comps rule: rev_cases) auto
    then have "w \<noteq> []" "last w \<in> set w" "\<forall>c \<in> set w. \<not> is_sep c" using comps by (auto simp: plain_name_def)
    then show ?thesis by (auto simp: pw join_path_def is_sep_def)
  qed
  ultimately show ?thesis by (simp add: cd_cmd_def path)
qed

lemma ls_file:
  assumes "on_drive (sh_vfs s) d root" and "CHR '':'' \<notin> set d" and "\<forall>p \<in> set comps. plain_name p"
    and "node_at root comps = Some nd" and "iops nd = Data data" and "sh_dir s = join_path d comps @ ''/''"
  shows "ls_cmd [c] s = Inl UnwrapFailed"
  using open_trailing[OF assms(1-4)] assms
  by (simp add: ls_cmd_def unwrap_ok_def vfs_readdir_def mounted_def on_drive_def ramfs_readdir_def deref_def)

text \<open>
  The current directory can be replaced by a file under its own name, and \<open>ls\<close> then panics: make a directory, enter it, \<open>touch\<close> its absolute path, \<open>ls\<close>.
  (The shell runs in the kernel, so this halts the machine.)
\<close>
lemma ls_panics_in_replaced_dir:
  assumes at: "at_dir s d comps root ents" and w: "file_name w" and typed: "plain_word (join_path d (comps @ [w]))"
  shows "\<exists>s1 s2 s3. process_command (''mkdir '' @ w) confirm s = Inr s1 \<and>
    process_command (''cd '' @ w) confirm s1 = Inr s2 \<and>
    process_command (''touch '' @ join_path d (comps @ [w])) confirm s2 = Inr s3 \<and>
    process_command ''ls'' confirm s3 = Inl UnwrapFailed"
proof -
  let ?q = "comps @ [w]" let ?dir = "new_dir w" let ?fl = "new_file w []"
  let ?s1 = "with_entry s d comps root ents ?dir" let ?r1 = "entry_root comps root ents ?dir" let ?e1 = "bt_insert w ?dir ents"
  let ?s2 = "?s1\<lparr>sh_dir := join_path d ?q @ ''/''\<rparr>"
  let ?s3 = "with_entry ?s2 d comps ?r1 ?e1 ?fl" let ?r3 = "entry_root comps ?r1 ?e1 ?fl"
  have on: "dir_on (sh_vfs s) d comps root ents" using at by (simp add: at_dir_def)
  have pw: "plain_word w" "plain_name w" using w by (simp_all add: file_name_def)
  have wf: "wf_inode ?dir" "iname ?dir = w" "wf_inode ?fl" "iname ?fl = w" by (simp_all add: new_dir_def new_file_def bt_inv_def)
  have sep: "\<forall>c \<in> set d. \<not> is_sep c" using on by (rule dir_onE)
  have q: "\<forall>p \<in> set ?q. plain_name p" using on pw(2) by (simp add: dir_on_def)
  have 1: "process_command (''mkdir '' @ w) confirm s = Inr ?s1"
    using mkdir_name[OF on pw(2) get_path_name[OF at w]] command_two(2)[OF pw(1)] by simp
  note on1 = with_entry_dir_on[OF on wf(1), unfolded wf(2)]
  have "get_path ?s1 w = join_path d ?q" using get_path_name[OF at w] get_path_dir[of ?s1 s] by simp
  then have 2: "process_command (''cd '' @ w) confirm ?s1 = Inr ?s2"
    using cd_name[OF _ q on1(2)[unfolded new_dir_def]] on1(1) command_two(3)[OF pw(1)]
    by (simp add: dir_on_def new_dir_def)
  have on2: "dir_on (sh_vfs ?s2) d comps ?r1 ?e1" using on1(1) by simp
  have abs: "get_path ?s2 (join_path d ?q) = join_path d ?q"
    using has_drive_join[OF sep] by (simp add: get_path_def join_path_def)
  have 3: "process_command (''touch '' @ join_path d ?q) confirm ?s2 = Inr ?s3"
    using touch_name[OF on2 pw(2) abs] command_two(1)[OF typed] by simp
  note on3 = with_entry_dir_on[OF on2 wf(3), unfolded wf(4)]
  have "process_command ''ls'' confirm ?s3 = Inl UnwrapFailed"
    unfolding command_ls
  proof (rule ls_file[OF _ _ q on3(2)])
    show "on_drive (sh_vfs ?s3) d ?r3" "CHR '':'' \<notin> set d" using on3(1) by (simp_all add: dir_on_def)
    show "iops ?fl = Data []" by (simp add: new_file_def)
  qed simp
  with 1 2 3 show ?thesis by blast
qed

lemma ls_panics_in_replaced_dir_example:
  "\<exists>s1 s2 s3. process_command ''mkdir g'' '''' example_shell = Inr s1 \<and> process_command ''cd g'' '''' s1 = Inr s2 \<and>
    process_command ''touch ram:/g'' '''' s2 = Inr s3 \<and> process_command ''ls'' '''' s3 = Inl UnwrapFailed"
  using ls_panics_in_replaced_dir[OF example_at_dir example_file_name(2), of "''''"]
  by (simp add: join_path_def plain_word_def)

section \<open>Every line at the prompt\<close>

lemma reslove_loop_ok:
  assumes wf: "wf_inode root"
  shows "node_at root cur \<noteq> None \<Longrightarrow> node_at root prev \<noteq> None \<Longrightarrow>
    \<exists>r. reslove_loop root ps cur prev = Inr r \<and> (\<forall>p. r = Inr p \<longrightarrow> node_at root p \<noteq> None)"
proof (induction ps arbitrary: cur prev)
  case (Cons c ps)
  from Cons.prems(1) obtain n where n: "node_at root cur = Some n" by blast
  have "node_at root (cur @ [c]) \<noteq> None" if "is_dir n" "ops_contains (iops n) c"
    using that n wf_directory[OF wf_node_at[OF wf n]] by (auto simp: node_at_snoc bt_contains_def)
  moreover have "\<exists>x. ops_get (iops n) c = Inr (Some x)" if "is_dir n" "ops_contains (iops n) c"
    using that wf_directory[OF wf_node_at[OF wf n]] by (auto simp: bt_contains_def)
  ultimately show ?case using Cons n by (fastforce simp: deref_def)
qed simp

lemma reslove_path_ok:
  "wf_inode root \<Longrightarrow> \<exists>r. reslove_path root path = Inr r \<and> (\<forall>p. r = Inr p \<longrightarrow> node_at root p \<noteq> None)"
  unfolding reslove_path_def by (rule reslove_loop_ok) simp_all

lemma insert_node_ok: "wf_inode root \<Longrightarrow> \<exists>r. insert_node root path node = Inr r"
  using reslove_path_ok[of root path]
  by (fastforce simp: insert_node_def deref_def split: sum.splits option.splits)

lemma drive_of_colon: "drive_of v path = Inr x \<Longrightarrow> CHR '':'' \<in> set path"
  by (auto simp: drive_of_def get_from_path_def Let_def hd_split_path ends_with_colon_def
      split: if_splits sum.splits option.splits dest!: last_in_set set_takeWhileD)

lemma drive_of_get: "drive_of v path = Inr (d, root) \<Longrightarrow> bt_get v d = Some root"
  by (auto simp: drive_of_def get_from_path_def Let_def get_with_name_mut_def split: if_splits sum.splits option.splits)

lemma vfs_open_ok:
  assumes "vfs_inv v"
  shows "\<exists>r. vfs_open v path = Inr r \<and> (\<forall>fd. r = Inr fd \<longrightarrow> read_pos fd = 0 \<and> write_pos fd = 0 \<and>
    (\<exists>root n. bt_get v (fd_mountpoint fd) = Some root \<and> node_at root (fd_node fd) = Some n \<and> wf_inode n))"
proof (cases "drive_of v path")
  case (Inr x)
  obtain d root where x: "x = (d, root)" by (cases x)
  have wf: "wf_inode root" using drive_of_wf[OF assms] Inr x by blast
  obtain p where p: "mountpoint_path path = Inr p" using drive_of_colon[OF Inr] by (simp add: mountpoint_path_def)
  obtain r where r: "reslove_path root p = Inr r" "\<forall>q. r = Inr q \<longrightarrow> node_at root q \<noteq> None"
    using reslove_path_ok[OF wf] by blast
  have g: "bt_get v d = Some root" using drive_of_get Inr x by blast
  show ?thesis
  proof (cases r)
    case (Inr q)
    with r(2) obtain n where "node_at root q = Some n" by blast
    with Inr r(1) g wf_node_at[OF wf this] show ?thesis
      using \<open>drive_of v path = Inr x\<close> x p by (auto simp: vfs_open_def ramfs_open_def)
  qed (use Inr x p r(1) in \<open>auto simp: vfs_open_def ramfs_open_def\<close>)
qed (simp add: vfs_open_def)

lemma vfs_create_ok:
  assumes "vfs_inv v"
  shows "\<exists>r. vfs_create v path name = Inr r" and "\<exists>r. vfs_createdir v path name = Inr r"
proof -
  have ok: "\<exists>r. (case drive_of v path of Inl e \<Rightarrow> Inr (Inl e, v)
      | Inr (d, root) \<Rightarrow> rbind (insert_node root path node) (\<lambda>(r, root'). Inr (r, bt_insert d root' v))) = Inr r" for node
  proof (cases "drive_of v path")
    case (Inr x)
    obtain d root where x: "x = (d, root)" by (cases x)
    have "wf_inode root" using drive_of_wf[OF assms] Inr x by blast
    then obtain r root' where "insert_node root path node = Inr (r, root')" using insert_node_ok by fast
    then show ?thesis using Inr x by simp
  qed simp
  show "\<exists>r. vfs_create v path name = Inr r" "\<exists>r. vfs_createdir v path name = Inr r"
    unfolding vfs_create_def ramfs_create_def vfs_createdir_def ramfs_createdir_def by (rule ok)+
qed

lemma verify_path_dir_ok:
  assumes "vfs_inv v" shows "\<exists>r. verify_path_dir v path = Inr r"
proof (cases "drive_of v path")
  case (Inr x)
  obtain d root where x: "x = (d, root)" by (cases x)
  have wf: "wf_inode root" using drive_of_wf[OF assms] Inr x by blast
  show ?thesis using reslove_path_ok[OF wf, of path] Inr x
    by (auto simp: verify_path_dir_def deref_def qbind_def split: sum.splits)
qed (simp add: verify_path_dir_def)

lemma vfs_write_ok:
  assumes "bt_get v (fd_mountpoint fd) = Some root" and "node_at root (fd_node fd) = Some n" and "wf_inode n"
    and "write_pos fd = 0" and "length buf < 2 ^ 64"
  shows "\<exists>r. vfs_write v fd buf = Inr r"
proof (cases "iops n")
  case (Data old)
  then have "length old < 2 ^ 64" using assms(3) by (cases n) auto
  from ops_write_start[OF assms(5) this] Data assms show ?thesis
    by (simp add: vfs_write_def mounted_def ramfs_write_def deref_def add_w_def unat_of_nat_small)
qed (use assms in \<open>simp_all add: vfs_write_def mounted_def ramfs_write_def deref_def\<close>)

lemma split_command_length: "w \<in> set (fst (split_command b s)) \<Longrightarrow> length w \<le> length s"
proof (induction b s arbitrary: w rule: split_command.induct)
  case (2 b c rest)
  then show ?case by (fastforce simp: Let_def split: prod.splits list.splits if_splits)
qed simp

text \<open>What holds in every state of the shell.\<close>

definition shell_inv :: "shell \<Rightarrow> bool" where
  "shell_inv s \<longleftrightarrow> vfs_inv (sh_vfs s) \<and> sched_inv (sh_sched s) \<and> sh_dir s \<noteq> [] \<and> last (sh_dir s) = CHR ''/''"

lemma print_args_simps [simp]:
  "sh_vfs (print_args ps s) = sh_vfs s" "sh_sched (print_args ps s) = sh_sched s" "sh_dir (print_args ps s) = sh_dir s"
  "sh_vfs (emit xs s) = sh_vfs s" "sh_sched (emit xs s) = sh_sched s" "sh_dir (emit xs s) = sh_dir s"
  by (simp_all add: print_args_def emit_def)

lemma usage_eq: "args \<noteq> [] \<Longrightarrow> usage args msg s = Inr (print_args [hd args, msg @ nl] s)"
  by (simp add: usage_def idx_def hd_conv_nth)

text \<open>A computation that, if it does not panic, ends in a state with the invariant.\<close>

definition inv_after :: "shell rust \<Rightarrow> bool" where
  "inv_after m \<longleftrightarrow> (\<forall>s. m = Inr s \<longrightarrow> shell_inv s)"

lemma inv_after_simps [simp]: "inv_after (Inl p)" "inv_after (Inr s) = shell_inv s"
  by (simp_all add: inv_after_def)

lemma inv_after_rbind: "(\<And>x. m = Inr x \<Longrightarrow> inv_after (f x)) \<Longrightarrow> inv_after (rbind m f)"
  by (auto simp: inv_after_def rbind_eq_Inr)

lemma shell_inv_cong:
  "sh_vfs s' = sh_vfs s \<Longrightarrow> sh_sched s' = sh_sched s \<Longrightarrow> sh_dir s' = sh_dir s \<Longrightarrow> shell_inv s' = shell_inv s"
  by (simp add: shell_inv_def)

lemma shell_inv_print [simp]: "shell_inv (print_args ps s) = shell_inv s" "shell_inv (emit xs s) = shell_inv s"
  by (simp_all add: shell_inv_def)

lemma shell_inv_update:
  "shell_inv s \<Longrightarrow> vfs_inv v \<Longrightarrow> shell_inv (s\<lparr>sh_vfs := v\<rparr>)"
  "shell_inv s \<Longrightarrow> sched_inv sch \<Longrightarrow> shell_inv (s\<lparr>sh_sched := sch\<rparr>)"
  "shell_inv s \<Longrightarrow> d \<noteq> [] \<Longrightarrow> last d = CHR ''/'' \<Longrightarrow> shell_inv (s\<lparr>sh_dir := d\<rparr>)"
  by (simp_all add: shell_inv_def)

lemma create_cmd_inv:
  assumes "shell_inv s" and "args \<noteq> []" and f: "\<And>v p n r v'. vfs_inv v \<Longrightarrow> f v p n = Inr (r, v') \<Longrightarrow> vfs_inv v'"
  shows "inv_after (create_cmd f msg args s)"
  unfolding create_cmd_def Let_def
  using assms(1,2) f[of "sh_vfs s"]
  by (auto simp: usage_eq shell_inv_def intro!: inv_after_rbind shell_inv_update split: sum.splits)

lemma create_cmd_ok:
  assumes "args \<noteq> []" and "\<And>p n. \<exists>r. f (sh_vfs s) p n = Inr r"
  shows "\<exists>s'. create_cmd f msg args s = Inr s'"
proof (cases "length args = 2")
  case True
  obtain r v where "f (sh_vfs s) (join_slash (butlast (split_path (get_path s (args ! 1))))) (last (split_path (get_path s (args ! 1)))) = Inr (r, v)"
    using assms(2) by fast
  with True show ?thesis by (simp add: create_cmd_def Let_def)
qed (simp add: create_cmd_def usage_eq[OF assms(1)])

lemma ls_lines_inv: "shell_inv s \<Longrightarrow> inv_after (ls_lines fs s)"
  by (induction fs s rule: ls_lines.induct) (auto intro!: inv_after_rbind)

lemma plist_lines_inv: "shell_inv s \<Longrightarrow> inv_after (plist_lines ps s)"
  by (induction ps s rule: plist_lines.induct) (auto simp: Let_def)

lemma pkill_cmds_inv:
  assumes "shell_inv s" and "args \<noteq> []"
  shows "inv_after (pkill_cmd args s)" and "inv_after (pkillall_cmd args s)"
  using assms
  by (auto simp: pkill_cmd_def pkillall_cmd_def usage_eq Let_def shell_inv_def split: option.splits prod.splits sum.splits
      dest: pkill_inv pkillall_inv)

lemma cd_cmd_inv: "shell_inv s \<Longrightarrow> args \<noteq> [] \<Longrightarrow> inv_after (cd_cmd args s)"
  by (auto simp: cd_cmd_def usage_eq Let_def intro!: inv_after_rbind shell_inv_update split: sum.splits)

lemma write_cmd_inv: "shell_inv s \<Longrightarrow> args \<noteq> [] \<Longrightarrow> inv_after (write_cmd args s)"
  by (auto simp: write_cmd_def usage_eq Let_def intro!: inv_after_rbind shell_inv_update split: sum.splits)
     (auto simp: shell_inv_def dest: vfs_write_inv)

lemma reading_cmds_inv:
  assumes "shell_inv s" and "args \<noteq> []"
  shows "inv_after (ls_cmd args s)" and "inv_after (plist_cmd args s)" and "inv_after (cat_cmd args s)"
  using assms
  by (auto simp: ls_cmd_def plist_cmd_def cat_cmd_def usage_eq Let_def
      intro!: inv_after_rbind ls_lines_inv plist_lines_inv split: sum.splits)

lemma process_command_inv:
  assumes "shell_inv s" shows "inv_after (process_command line confirm s)"
proof -
  obtain args b where sp: "split_command False line = (args, b)" by fastforce
  then have ne: "args \<noteq> []" using split_command_ne[of False line] by simp
  show ?thesis
    unfolding process_command_def sp Let_def
    using ne assms create_cmd_inv[OF assms ne vfs_create_inv] create_cmd_inv[OF assms ne vfs_createdir_inv] pkill_cmds_inv[OF assms ne]
      cd_cmd_inv[OF assms ne] write_cmd_inv[OF assms ne] reading_cmds_inv[OF assms ne]
    by (simp add: idx_def echo_cmd_def help_cmd_def clear_cmd_def reboot_cmd_def shutdown_cmd_def touch_cmd_def mkdir_cmd_def
        usage_eq[OF ne] Let_def)
qed

lemma simple_cmds_ok:
  assumes "args \<noteq> []"
  shows "\<exists>s'. echo_cmd args s = Inr s'" "\<exists>s'. help_cmd args s = Inr s'" "\<exists>s'. clear_cmd args confirm s = Inr s'"
    "\<exists>s'. reboot_cmd args s = Inr s'" "\<exists>s'. shutdown_cmd args s = Inr s'" "\<exists>s'. pkill_cmd args s = Inr s'"
    "\<exists>s'. pkillall_cmd args s = Inr s'"
  by (auto simp: echo_cmd_def help_cmd_def clear_cmd_def reboot_cmd_def shutdown_cmd_def pkill_cmd_def pkillall_cmd_def
      usage_eq[OF assms] Let_def split: option.splits prod.splits sum.splits)

lemma cd_cmd_ok: "vfs_inv (sh_vfs s) \<Longrightarrow> args \<noteq> [] \<Longrightarrow> \<exists>s'. cd_cmd args s = Inr s'"
  using verify_path_dir_ok[of "sh_vfs s" "get_path s (args ! 1)"] by (auto simp: cd_cmd_def usage_eq Let_def)

lemma write_cmd_ok:
  assumes inv: "vfs_inv (sh_vfs s)" and "args \<noteq> []" and len: "\<forall>w \<in> set args. length w < 2 ^ 64"
  shows "\<exists>s'. write_cmd args s = Inr s'"
proof (cases "length args = 3")
  case True
  then have l: "length (bytes_of (args ! 2)) < 2 ^ 64" using len by (simp add: bytes_of_def)
  obtain r where r: "vfs_open (sh_vfs s) (get_path s (args ! 1)) = Inr r"
    "\<And>fd. r = Inr fd \<Longrightarrow> write_pos fd = 0 \<and> (\<exists>root n. bt_get (sh_vfs s) (fd_mountpoint fd) = Some root \<and>
      node_at root (fd_node fd) = Some n \<and> wf_inode n)"
    using vfs_open_ok[OF inv] by metis
  show ?thesis
  proof (cases r)
    case (Inr fd)
    with r(2) vfs_write_ok[OF _ _ _ _ l] obtain x fd' v where "vfs_write (sh_vfs s) fd (bytes_of (args ! 2)) = Inr (x, fd', v)"
      by (metis prod.collapse)
    then show ?thesis using True r(1) Inr by (auto simp: write_cmd_def Let_def)
  qed (use True r(1) in \<open>simp add: write_cmd_def\<close>)
qed (use assms(2) in \<open>simp add: write_cmd_def usage_eq\<close>)

text \<open>The commands that can panic: \<open>ls\<close> (see above), \<open>plist\<close> on a process name cut inside a character, \<open>cat\<close> on a directory too large to add up.\<close>

definition may_panic :: "string \<Rightarrow> bool" where
  "may_panic line \<longleftrightarrow> hd (fst (split_command False line)) \<in> {''ls'', ''plist'', ''cat''}"

lemma process_command_ok:
  assumes inv: "vfs_inv (sh_vfs s)" and len: "length line < 2 ^ 64" and np: "\<not> may_panic line"
  shows "\<exists>s'. process_command line confirm s = Inr s'"
proof -
  obtain args b where sp: "split_command False line = (args, b)" by fastforce
  then have ne: "args \<noteq> []" using split_command_ne[of False line] by simp
  then have hd: "args ! 0 = hd args" by (simp add: hd_conv_nth)
  have w: "\<forall>w \<in> set args. length w < 2 ^ 64" using split_command_length[of _ False line] sp len by fastforce
  have np': "args ! 0 \<noteq> ''ls''" "args ! 0 \<noteq> ''plist''" "args ! 0 \<noteq> ''cat''" using np sp hd by (auto simp: may_panic_def)
  have cr: "\<exists>s'. create_cmd vfs_create msg args s = Inr s'" "\<exists>s'. create_cmd vfs_createdir msg args s = Inr s'" for msg
    by (rule create_cmd_ok[OF ne], rule vfs_create_ok[OF inv])+
  show ?thesis
    unfolding process_command_def sp Let_def
    using ne np' cr simple_cmds_ok[OF ne, where s = s] cd_cmd_ok[OF inv ne] write_cmd_ok[OF inv ne w]
    by (simp add: idx_def touch_cmd_def mkdir_cmd_def)
qed

text \<open>The shell from its start on, between the other steps of the scheduler.\<close>

inductive shell_run :: "shell \<Rightarrow> bool" where
  boot: "vfs_init vfs_new = Inr v \<Longrightarrow> sched_run sch \<Longrightarrow>
    shell_run \<lparr>sh_vfs = v, sh_sched = sch, sh_dir = ''ram:/'', calls = []\<rparr>"
| round: "shell_run s \<Longrightarrow> shell_round line confirm s = Inr s' \<Longrightarrow> shell_run s'"
| switched: "shell_run s \<Longrightarrow> switch ctx (sh_sched s) k = Some (Inr (c, sch, k')) \<Longrightarrow> shell_run (s\<lparr>sh_sched := sch\<rparr>)"

lemma shell_run_keeps: "shell_run s \<Longrightarrow> shell_inv s"
proof (induction rule: shell_run.induct)
  case (boot v sch)
  then show ?case using vfs_init_inv sched_run_keeps by (simp add: shell_inv_def)
next
  case (round s line confirm s')
  then have "inv_after (shell_round line confirm s)"
    unfolding shell_round_def Let_def by (intro process_command_inv) simp
  then show ?case using round by simp
next
  case (switched s ctx k c sch k')
  then show ?case using switch_inv by (intro shell_inv_update) (auto simp: shell_inv_def)
qed



end
