(* ===== verification/Navitts_Props.thy ===== *)
theory Navitts_Props
  imports Navitts
begin

text \<open>
  Round trip of the escape sequences: a printer for attributes, values and whole texts, and the proof that the
  lexer and the parser read its output back; and the inputs on which the parser does not return.
\<close>

section \<open>Printing\<close>

definition digit :: "nat \<Rightarrow> char" where
  "digit d = char_of (48 + d)"

definition show_u8 :: "u8 \<Rightarrow> string" where
  "show_u8 b = (let n = unat b in
     if n < 10 then [digit n]
     else if n < 100 then [digit (n div 10), digit (n mod 10)]
     else [digit (n div 100), digit (n div 10 mod 10), digit (n mod 10)])"

text \<open>The lexer does not take the digit 9 for part of a number, except in the first place.\<close>

definition good_byte :: "u8 \<Rightarrow> bool" where
  "good_byte b \<longleftrightarrow> (let n = unat b in n < 10 \<or> n mod 10 \<noteq> 9 \<and> (n < 100 \<or> n div 10 mod 10 \<noteq> 9))"

fun join :: "'a list \<Rightarrow> 'a list list \<Rightarrow> 'a list" where
  "join sep [] = []"
| "join sep (x # xs) = x @ concat (map (\<lambda>y. sep @ y) xs)"

fun print_value :: "val \<Rightarrow> string" where
  "print_value (VByte b) = show_u8 b"
| "print_value (VTuple vs) = ''('' @ join '', '' (map print_value vs) @ '')''"

fun value_tokens :: "val \<Rightarrow> token list" where
  "value_tokens (VByte b) = [TByte b]"
| "value_tokens (VTuple vs) = TupleStart # join [TComma] (map value_tokens vs) @ [TupleEnd]"

fun good_value :: "val \<Rightarrow> bool" where
  "good_value (VByte b) = good_byte b"
| "good_value (VTuple vs) = (vs \<noteq> [] \<and> list_all good_value vs)"

definition letter :: "char \<Rightarrow> bool" where
  "letter c \<longleftrightarrow> char_in (CHR ''a'') (CHR ''z'') c \<or> char_in (CHR ''A'') (CHR ''Z'') c"

definition good_ident :: "string \<Rightarrow> bool" where
  "good_ident i \<longleftrightarrow> i \<noteq> [] \<and> letter (hd i) \<and> list_all ident_char (tl i)"

fun print_attr :: "attribute \<Rightarrow> string" where
  "print_attr (i, v) = i @ '': '' @ print_value v"

fun attr_tokens :: "attribute \<Rightarrow> token list" where
  "attr_tokens (i, v) = Ident i # TColon # value_tokens v"

fun good_attr :: "attribute \<Rightarrow> bool" where
  "good_attr (i, v) = (good_ident i \<and> good_value v)"

text \<open>A text can be quoted between double bars if it has no two bars in a row and does not end in one.\<close>

fun good_text :: "string \<Rightarrow> bool" where
  "good_text [] = True"
| "good_text [c] = (c \<noteq> CHR ''|'')"
| "good_text (c # d # cs) = (\<not> (c = CHR ''|'' \<and> d = CHR ''|'') \<and> good_text (d # cs))"

definition print_escape :: "attribute list \<Rightarrow> string \<Rightarrow> string" where
  "print_escape attrs s =
     CHR 0x5C # ''['' @ join '', '' (map print_attr attrs) @ '' ||'' @ s @ ''||]''"

section \<open>Lexing what was printed\<close>

definition stops :: "string \<Rightarrow> bool" where
  "stops s \<longleftrightarrow> (case s of [] \<Rightarrow> True | c # _ \<Rightarrow> \<not> number_char c \<and> \<not> ident_char c)"

text \<open>
  \<open>lexes n s toks\<close>: the text \<open>s\<close> becomes the tokens \<open>toks\<close> wherever it stands; with \<open>n\<close>, if what follows cannot
  prolong a number or a name.
\<close>

definition lexes :: "bool \<Rightarrow> string \<Rightarrow> token list \<Rightarrow> bool" where
  "lexes n s toks \<longleftrightarrow>
     (\<forall>rest acc. (n \<longrightarrow> stops rest) \<longrightarrow> lex_chars (s @ rest) acc = lex_chars rest (acc @ toks))"

lemma lexesD: "lexes n s toks \<Longrightarrow> n \<longrightarrow> stops rest \<Longrightarrow> lex_chars (s @ rest) acc = lex_chars rest (acc @ toks)"
  by (simp only: lexes_def)

lemma stops_append: "s \<noteq> [] \<Longrightarrow> stops (s @ rest) = stops s"
  by (cases s) (simp_all add: stops_def)

lemma lexes_append:
  assumes "lexes n1 s1 t1" and "lexes n2 s2 t2" and "n1 \<longrightarrow> s2 \<noteq> [] \<and> stops s2"
  shows "lexes n2 (s1 @ s2) (t1 @ t2)"
  unfolding lexes_def
proof (intro allI impI)
  fix rest acc assume r: "n2 \<longrightarrow> stops rest"
  have "n1 \<longrightarrow> stops (s2 @ rest)" using assms(3) by (simp add: stops_append)
  then have "lex_chars ((s1 @ s2) @ rest) acc = lex_chars (s2 @ rest) (acc @ t1)"
    using lexesD[OF assms(1), of "s2 @ rest" acc] by (simp only: append_assoc)
  also have "\<dots> = lex_chars rest (acc @ t1 @ t2)"
    using lexesD[OF assms(2) r, of "acc @ t1"] by (simp only: append_assoc)
  finally show "lex_chars ((s1 @ s2) @ rest) acc = lex_chars rest (acc @ t1 @ t2)" .
qed

lemma lexes_Nil: "lexes n [] []"
  by (simp add: lexes_def)

lemma lexes_weaken: "lexes False s t \<Longrightarrow> lexes n s t"
  by (simp add: lexes_def)

lemmas char_defs = char_in_def char_below_def number_char_def ident_char_def letter_def peek_is_def

lemma lexes_punct:
  "lexes False ''('' [TupleStart]" "lexes False '')'' [TupleEnd]" "lexes False '', '' [TComma]"
  "lexes False '': '' [TColon]" "lexes False '' '' []"
  by (simp_all add: lexes_def lex_chars.simps[of "_ # _"])

lemma of_char_digit: "d < 10 \<Longrightarrow> (of_char (digit d) :: nat) = 48 + d"
  by (simp add: digit_def)

lemma number_char_digit: "d < 10 \<Longrightarrow> number_char (digit d) \<longleftrightarrow> d \<noteq> 9"
  by (auto simp: char_defs of_char_digit)

lemma takeWhile_stop: "\<forall>c \<in> set xs. P c \<Longrightarrow> (case rest of [] \<Rightarrow> True | c # _ \<Rightarrow> \<not> P c) \<Longrightarrow>
    takeWhile P (xs @ rest) = xs \<and> dropWhile P (xs @ rest) = rest"
  by (induction xs) (auto split: list.splits)

lemma stops_number: "stops rest \<Longrightarrow> (case rest of [] \<Rightarrow> True | c # _ \<Rightarrow> \<not> number_char c)"
  and stops_ident: "stops rest \<Longrightarrow> (case rest of [] \<Rightarrow> True | c # _ \<Rightarrow> \<not> ident_char c)"
  by (auto simp: stops_def split: list.splits)

lemma digit_not: "d < 10 \<Longrightarrow> char_in (CHR ''0'') (CHR ''9'') (digit d)"
  "d < 10 \<Longrightarrow> digit d \<notin> {CHR '']'', CHR '' '', CHR 0x0A, CHR 0x09, CHR '':'', CHR '','', CHR ''('', CHR '')''}"
proof -
  assume d: "d < 10"
  then show "char_in (CHR ''0'') (CHR ''9'') (digit d)" by (simp add: char_in_def of_char_digit)
  have "digit d \<noteq> c" if "(of_char c :: nat) < 48 \<or> (of_char c :: nat) > 57" for c
    using of_char_digit[OF d] d that by auto
  then show "digit d \<notin> {CHR '']'', CHR '' '', CHR 0x0A, CHR 0x09, CHR '':'', CHR '','', CHR ''('', CHR '')''}" by simp
qed

lemma lexes_digits:
  assumes d: "d < 10" and ds: "\<forall>c \<in> set ds. number_char c" and v: "digits_value (digit d # ds) = unat b"
  shows "lexes True (digit d # ds) [TByte b]"
  unfolding lexes_def
proof (intro allI impI)
  fix rest acc assume "True \<longrightarrow> stops rest"
  then have tw: "takeWhile number_char (ds @ rest) = ds" "dropWhile number_char (ds @ rest) = rest"
    using takeWhile_stop[OF ds stops_number] by simp_all
  have "lex_number (ds @ rest) (digit d) = Inr (b, rest)"
    using unsigned_less[where 'a=nat, of b] by (simp add: lex_number_def tw parse_u8_def v)
  then show "lex_chars ((digit d # ds) @ rest) acc = lex_chars rest (acc @ [TByte b])"
    using digit_not[OF d] by (simp add: lex_chars.simps[of "_ # _"])
qed

lemma lexes_u8: "good_byte b \<Longrightarrow> lexes True (show_u8 b) [TByte b]"
proof -
  assume g: "good_byte b"
  have lt: "unat b < 256" using unsigned_less[where 'a=nat, of b] by simp
  have v: "digits_value (map digit ds) = foldl (\<lambda>n d. n * 10 + d) 0 ds" if "\<forall>d \<in> set ds. d < 10" for ds
  proof -
    have "foldl (\<lambda>n c. n * 10 + (of_char c - of_char (CHR ''0''))) k (map digit ds) = foldl (\<lambda>n d. n * 10 + d) k ds" for k
      using that by (induction ds arbitrary: k) (simp_all add: of_char_digit)
    then show ?thesis by (simp only: digits_value_def)
  qed
  consider "unat b < 10" | "10 \<le> unat b" "unat b < 100" | "100 \<le> unat b" by linarith
  then show ?thesis
  proof cases
    case 1
    with v[of "[unat b]"] show ?thesis by (simp add: show_u8_def lexes_digits)
  next
    case 2
    then have "number_char (digit (unat b mod 10))" using g by (simp add: good_byte_def Let_def number_char_digit)
    moreover have "unat b div 10 < 10" using 2 by (simp add: less_mult_imp_div_less)
    ultimately show ?thesis
      using 2 v[of "[unat b div 10, unat b mod 10]"] by (simp add: show_u8_def Let_def lexes_digits)
  next
    case 3
    then have "number_char (digit (unat b mod 10))" "number_char (digit (unat b div 10 mod 10))"
      using g by (simp_all add: good_byte_def Let_def number_char_digit)
    moreover have "(unat b div 100 * 10 + unat b div 10 mod 10) * 10 + unat b mod 10 = unat b"
    proof -
      have "unat b div 100 = unat b div 10 div 10" by (simp add: div_mult2_eq[symmetric])
      then show ?thesis by (simp only: div_mult_mod_eq)
    qed
    moreover have "unat b div 100 < 10" using lt by (simp add: less_mult_imp_div_less)
    ultimately show ?thesis
      using 3 v[of "[unat b div 100, unat b div 10 mod 10, unat b mod 10]"] by (simp add: show_u8_def Let_def lexes_digits)
  qed
qed

lemma lexes_ident:
  assumes "good_ident i" shows "lexes True i [Ident i]"
  unfolding lexes_def
proof (intro allI impI)
  fix rest acc assume r: "True \<longrightarrow> stops rest"
  obtain c cs where i: "i = c # cs" and c: "letter c" and cs: "\<forall>c \<in> set cs. ident_char c"
    using assms by (cases i) (auto simp: good_ident_def list_all_iff)
  have tw: "takeWhile ident_char (cs @ rest) = cs" "dropWhile ident_char (cs @ rest) = rest"
    using takeWhile_stop[OF cs stops_ident] r by simp_all
  have "c \<noteq> d" if "\<not> letter d" for d using c that by auto
  then have "c \<notin> {CHR '']'', CHR '' '', CHR 0x0A, CHR 0x09, CHR '':'', CHR '','', CHR ''('', CHR '')''}"
    by (simp add: char_defs)
  moreover have "\<not> char_in (CHR ''0'') (CHR ''9'') c" using c by (auto simp: char_defs)
  ultimately show "lex_chars (i @ rest) acc = lex_chars rest (acc @ [Ident i])"
    using c by (simp add: lex_chars.simps[of "_ # _"] i letter_def lex_ident_def tw)
qed

lemma lexes_concat:
  assumes "\<And>x. x \<in> set xs \<Longrightarrow> lexes True (p x) (t x)"
  shows "lexes True (concat (map (\<lambda>y. '', '' @ y) (map p xs))) (concat (map (\<lambda>y. [TComma] @ y) (map t xs)))"
  using assms
proof (induction xs)
  case (Cons x xs)
  let ?s = "concat (map (\<lambda>y. '', '' @ y) (map p xs))" and ?t = "concat (map (\<lambda>y. [TComma] @ y) (map t xs))"
  have tail: "lexes True ?s ?t" using Cons by simp
  have "lexes True (p x @ ?s) (t x @ ?t)"
  proof (cases "xs = []")
    case False
    then have "?s \<noteq> [] \<and> stops ?s" by (cases xs) (simp_all add: stops_def char_defs)
    with lexes_append[OF Cons.prems tail] show ?thesis by simp
  qed (use Cons.prems in simp)
  from lexes_append[OF lexes_punct(3) this] show ?case by simp
qed (simp add: lexes_Nil)

lemma lexes_join:
  assumes "\<And>x. x \<in> set xs \<Longrightarrow> lexes True (p x) (t x)"
  shows "lexes True (join '', '' (map p xs)) (join [TComma] (map t xs))"
proof (cases xs)
  case (Cons x ys)
  let ?s = "concat (map (\<lambda>y. '', '' @ y) (map p ys))" and ?t = "concat (map (\<lambda>y. [TComma] @ y) (map t ys))"
  have tail: "lexes True ?s ?t" and head: "lexes True (p x) (t x)"
    using assms lexes_concat[of ys p t] by (simp_all add: Cons)
  show ?thesis
  proof (cases "ys = []")
    case False
    then have "?s \<noteq> [] \<and> stops ?s" by (cases ys) (simp_all add: stops_def char_defs)
    with lexes_append[OF head tail] show ?thesis by (simp add: Cons comp_def)
  qed (use head in \<open>simp add: Cons\<close>)
qed (simp add: lexes_Nil)

lemma lexes_value: "good_value v \<Longrightarrow> lexes True (print_value v) (value_tokens v)"
proof (induction v)
  case (VByte b)
  then show ?case by (simp add: lexes_u8)
next
  case (VTuple vs)
  have items: "lexes True (join '', '' (map print_value vs)) (join [TComma] (map value_tokens vs))"
    by (rule lexes_join) (use VTuple in \<open>simp add: list_all_iff\<close>)
  have stop: "stops '')''" by (simp add: stops_def char_defs)
  have "lexes True (''('' @ join '', '' (map print_value vs) @ '')'')
      ([TupleStart] @ join [TComma] (map value_tokens vs) @ [TupleEnd])"
    using lexes_append[OF lexes_punct(1) lexes_append[OF items lexes_weaken[OF lexes_punct(2)]]] stop by blast
  then show ?case by simp
qed

lemma lexes_attr: "good_attr a \<Longrightarrow> lexes True (print_attr a) (attr_tokens a)"
proof (cases a)
  case (Pair i v)
  assume "good_attr a"
  then have i: "lexes True i [Ident i]" and v: "lexes True (print_value v) (value_tokens v)"
    by (simp_all add: Pair lexes_ident lexes_value)
  have stop: "stops ('': '' @ print_value v)" by (simp add: stops_def char_defs)
  have "lexes True (i @ '': '' @ print_value v) ([Ident i] @ [TColon] @ value_tokens v)"
    using lexes_append[OF i lexes_append[OF lexes_punct(4) v]] stop by blast
  then show ?thesis by (simp add: Pair)
qed

lemma lex_slice_text: "good_text s \<Longrightarrow> lex_slice (s @ ''||'' @ rest) = (s, ''|'' @ rest)"
  by (induction s rule: good_text.induct) (auto simp: peek_is_def)

lemma lex_text:
  assumes "good_text s"
  shows "lex_chars (''||'' @ s @ ''||]'' @ rest) acc = Inr (acc @ [TSlice s], rest)"
proof -
  have "lex_chars (''||'' @ s @ ''||]'' @ rest) acc = lex_chars (''|]'' @ rest) (acc @ [TSlice s])"
    using lex_slice_text[OF assms, of "CHR '']'' # rest"]
    by (simp add: lex_chars.simps[of "CHR ''|'' # _"] char_defs)
  then show ?thesis by (simp add: lex_chars.simps[of "_ # _"] char_defs)
qed

lemma lex_escape:
  assumes "list_all good_attr attrs" and "good_text s"
  shows "lex_chars (join '', '' (map print_attr attrs) @ '' ||'' @ s @ ''||]'' @ rest) [] =
    Inr (join [TComma] (map attr_tokens attrs) @ [TSlice s], rest)"
proof -
  have a: "lexes True (join '', '' (map print_attr attrs)) (join [TComma] (map attr_tokens attrs))"
    by (rule lexes_join) (use assms in \<open>simp add: list_all_iff lexes_attr\<close>)
  have stop: "stops ('' ||'' @ s @ ''||]'' @ rest)" by (simp add: stops_def char_defs)
  have sp: "'' ||'' = '' '' @ ''||''" by simp
  show ?thesis
    using lexesD[OF a, of "'' ||'' @ s @ ''||]'' @ rest" "[]"] stop
      lexesD[OF lexes_punct(5), of "''||'' @ s @ ''||]'' @ rest" "join [TComma] (map attr_tokens attrs)"]
      lex_text[OF assms(2), of rest "join [TComma] (map attr_tokens attrs)"]
    by (simp only: sp append_assoc append_Nil append_Nil2) simp
qed

section \<open>Parsing what was lexed\<close>

lemma parse_items_tokens:
  assumes "\<And>v ts. v \<in> set vs \<Longrightarrow> parse_value (value_tokens v @ ts) = Inr (Inr (v, ts))" and "t \<noteq> TComma"
  shows "parse_items items (concat (map (\<lambda>y. TComma # y) (map value_tokens vs)) @ t # ts) = Inr (Inr (items @ vs, t # ts))"
  using assms(1)
proof (induction vs arbitrary: items)
  case Nil
  then show ?case using assms(2) by (simp add: parse_items.simps[of _ "_ # _"] current_def)
next
  case (Cons v vs)
  then show ?case by (simp add: parse_items.simps[of _ "_ # _"] current_def eat_def)
qed

lemma parse_value_tokens: "good_value v \<Longrightarrow> parse_value (value_tokens v @ ts) = Inr (Inr (v, ts))"
proof (induction v arbitrary: ts)
  case (VByte b)
  show ?case by (simp add: parse_value.simps[of "_ # _"] eat_def current_def)
next
  case (VTuple vs)
  then have each: "\<And>v ts. v \<in> set vs \<Longrightarrow> parse_value (value_tokens v @ ts) = Inr (Inr (v, ts))"
    by (simp add: list_all_iff)
  from VTuple.prems obtain w ws where vs: "vs = w # ws" by (cases vs) auto
  have "parse_value (value_tokens w @ concat (map (\<lambda>y. TComma # y) (map value_tokens ws)) @ TupleEnd # ts) =
      Inr (Inr (w, concat (map (\<lambda>y. TComma # y) (map value_tokens ws)) @ TupleEnd # ts))"
    using each[of w] by (simp add: vs)
  moreover have "parse_items [w] (concat (map (\<lambda>y. TComma # y) (map value_tokens ws)) @ TupleEnd # ts) =
      Inr (Inr (vs, TupleEnd # ts))"
    using parse_items_tokens[of ws TupleEnd "[w]" ts] each by (simp add: vs)
  ultimately show ?case
    by (simp add: parse_value.simps[of "TupleStart # _"] eat_def current_def expect_def vs comp_def)
qed

lemma parse_attribute_tokens: "good_attr a \<Longrightarrow> parse_attribute (attr_tokens a @ ts) = Inr (Inr (a, ts))"
  by (cases a) (simp add: parse_attribute_def eat_def current_def expect_def parse_value_tokens)

lemma more_attributes_tokens:
  "list_all good_attr as \<Longrightarrow> t \<noteq> TComma \<Longrightarrow>
    more_attributes results (concat (map (\<lambda>y. TComma # y) (map attr_tokens as)) @ t # ts) = Inr (Inr (results @ as, t # ts))"
proof (induction as arbitrary: results)
  case Nil
  then show ?case by (simp add: more_attributes.simps[of _ "_ # _"] current_def)
next
  case (Cons a as)
  then show ?case by (simp add: more_attributes.simps[of _ "_ # _"] current_def eat_def parse_attribute_tokens)
qed

lemma parse_attributes_tokens:
  assumes "list_all good_attr attrs" and "attrs \<noteq> []"
  shows "parse_attributes (join [TComma] (map attr_tokens attrs) @ TSlice s # ts) = Inr (Inr (attrs, TSlice s # ts))"
proof -
  obtain a as where a: "attrs = a # as" using assms(2) by (cases attrs) auto
  have "parse_attribute (attr_tokens a @ concat (map (\<lambda>y. TComma # y) (map attr_tokens as)) @ TSlice s # ts) =
      Inr (Inr (a, concat (map (\<lambda>y. TComma # y) (map attr_tokens as)) @ TSlice s # ts))"
    using assms(1) by (simp add: a parse_attribute_tokens)
  moreover have "more_attributes [a] (concat (map (\<lambda>y. TComma # y) (map attr_tokens as)) @ TSlice s # ts) =
      Inr (Inr (attrs, TSlice s # ts))"
    using more_attributes_tokens[of as "TSlice s" "[a]" ts] assms(1) by (simp add: a)
  ultimately show ?thesis by (simp add: parse_attributes_def a comp_def)
qed

lemma parse_tokens_escape:
  assumes "list_all good_attr attrs" and "attrs \<noteq> []"
  shows "parse_tokens (join [TComma] (map attr_tokens attrs) @ [TSlice s]) =
    Some (Inr (Inr (NaviESS [NaviES attrs (OwnedSlice s)])))"
proof -
  obtain i ts where i: "join [TComma] (map attr_tokens attrs) @ [TSlice s] = Ident i # ts"
    using assms(2) by (cases attrs; cases "hd attrs") auto
  have "parse_attributes (Ident i # ts) = Inr (Inr (attrs, [TSlice s]))"
    using parse_attributes_tokens[OF assms, of s "[]"] by (simp only: i)
  then have "parse_tokens_loop [] (Ident i # ts) = Some (Inr (Inr [NaviES attrs (OwnedSlice s)]))"
    by (simp add: parse_tokens_loop.simps[of _ "_ # _"] eat_def current_def) (simp add: parse_tokens_loop.simps)
  then show ?thesis by (simp only: parse_tokens_def i) simp
qed

section \<open>Whole strings\<close>

definition plain :: "string \<Rightarrow> bool" where
  "plain pre \<longleftrightarrow> CHR 0x5C \<notin> set pre"

lemma parse_str_loop_plain: "plain pre \<Longrightarrow> parse_str_loop r (pre @ cs) = parse_str_loop r cs"
  by (induction pre) (auto simp: plain_def parse_str_loop.simps[of _ "_ # _"])

lemma parse_str_loop_escape:
  assumes "list_all good_attr attrs" and "attrs \<noteq> []" and "good_text s" and "as_list r = Inr ttes"
  shows "parse_str_loop r (print_escape attrs s @ rest) =
    parse_str_loop (NaviESS (ttes @ [NaviESS [NaviES attrs (OwnedSlice s)]])) rest"
  using lex_escape[OF assms(1,3), of rest] parse_tokens_escape[OF assms(1,2), of s] assms(4)
  by (simp add: print_escape_def parse_str_loop.simps[of _ "_ # _"])

text \<open>A text with escapes: pieces of plain text, each followed by an escape, and a last plain piece.\<close>

fun print_doc :: "(string \<times> attribute list \<times> string) list \<Rightarrow> string \<Rightarrow> string" where
  "print_doc [] post = post"
| "print_doc ((pre, attrs, s) # ds) post = pre @ print_escape attrs s @ print_doc ds post"

definition good_piece :: "string \<times> attribute list \<times> string \<Rightarrow> bool" where
  "good_piece p \<longleftrightarrow> (case p of (pre, attrs, s) \<Rightarrow>
     plain pre \<and> list_all good_attr attrs \<and> attrs \<noteq> [] \<and> good_text s)"

definition piece_tree :: "string \<times> attribute list \<times> string \<Rightarrow> navi_ttes" where
  "piece_tree p = (case p of (_, attrs, s) \<Rightarrow> NaviESS [NaviES attrs (OwnedSlice s)])"

lemma parse_str_loop_doc:
  "list_all good_piece ds \<Longrightarrow> plain post \<Longrightarrow> as_list r = Inr ttes \<Longrightarrow>
    parse_str_loop r (print_doc ds post) = Some (Inr (if ds = [] then r else NaviESS (ttes @ map piece_tree ds)))"
proof (induction ds arbitrary: r ttes)
  case Nil
  then show ?case using parse_str_loop_plain[of post r "[]"] by (simp add: parse_str_loop.simps)
next
  case (Cons d ds)
  obtain pre attrs s where d: "d = (pre, attrs, s)" by (cases d)
  let ?r = "NaviESS (ttes @ [piece_tree d])"
  have "parse_str_loop r (print_doc (d # ds) post) = parse_str_loop ?r (print_doc ds post)"
    using Cons.prems by (simp add: d good_piece_def parse_str_loop_plain parse_str_loop_escape piece_tree_def)
  also have "\<dots> = Some (Inr (if ds = [] then ?r else NaviESS ((ttes @ [piece_tree d]) @ map piece_tree ds)))"
    using Cons.IH[of ?r "ttes @ [piece_tree d]"] Cons.prems by (simp add: as_list_def)
  finally show ?case by simp
qed

text \<open>
  C13: the parser inverts the printer: a text made of well-formed escapes with plain text around them parses to exactly the
  attributes, values and quoted texts that were printed, in order, and a text without escapes to itself. The plain text between
  escapes is not part of the result.
\<close>
theorem parse_str_roundtrip:
  assumes "list_all good_piece ds" and "plain post"
  shows "parse_str (print_doc ds post) =
    Some (Inr (if ds = [] then Slice post else NaviESS (map piece_tree ds)))"
proof -
  have "parse_str_loop (Slice (print_doc ds post)) (print_doc ds post) =
      Some (Inr (if ds = [] then Slice post else NaviESS (Slice (print_doc ds post) # map piece_tree ds)))"
    using parse_str_loop_doc[OF assms, of "Slice (print_doc ds post)" "[Slice (print_doc ds post)]"]
    by (auto simp: as_list_def)
  then show ?thesis by (auto simp: parse_str_def drop_first_def)
qed

theorem parse_str_roundtrip_witness:
  "parse_str (''hi '' @ CHR 0x5C # ''[fg: (0, 255, 0) ||ok||] bye'') =
    Some (Inr (NaviESS [NaviESS [NaviES [(''fg'', VTuple [VByte 0, VByte 255, VByte 0])] (OwnedSlice ''ok'')]]))"
proof -
  let ?d = "(''hi '', [(''fg'', VTuple [VByte 0, VByte 255, VByte 0])], ''ok'')"
  have "list_all good_piece [?d]" "plain '' bye''"
    by (simp_all add: good_piece_def plain_def good_ident_def good_byte_def char_defs)
  moreover have "print_doc [?d] '' bye'' = ''hi '' @ CHR 0x5C # ''[fg: (0, 255, 0) ||ok||] bye''"
    by (simp add: print_escape_def show_u8_def digit_def Let_def char_of_eq_iff)
  ultimately show ?thesis using parse_str_roundtrip[of "[?d]" "'' bye''"] by (simp add: piece_tree_def)
qed

section \<open>Texts on which the parser hangs\<close>

lemma returns_no_bare_slice: "parse_tokens_loop ttes ts = Some r \<Longrightarrow> \<forall>s ts'. ts \<noteq> TSlice s # ts'"
  by (erule parse_tokens_loop.raw_induct [where P = "\<lambda>ttes ts r. \<forall>s ts'. ts \<noteq> TSlice s # ts'", rotated])
     (auto split: list.splits token.splits)

lemma bare_slice_loops: "parse_tokens_loop ttes (TSlice s # ts) = None"
  using returns_no_bare_slice[of ttes "TSlice s # ts"] by (cases "parse_tokens_loop ttes (TSlice s # ts)") auto

text \<open>
  An escape that has no attribute, such as \<open>\[||text||]\<close>, is never finished: the parser adds the text to its result without consuming it and
  does so again forever, whatever surrounds the escape.
\<close>
lemma bare_text_hangs:
  assumes "plain pre" and "good_text s"
  shows "parse_str (pre @ CHR 0x5C # ''[||'' @ s @ ''||]'' @ rest) = None"
proof -
  have "lex_chars (''||'' @ s @ ''||]'' @ rest) [] = Inr ([TSlice s], rest)"
    using lex_text[OF assms(2), of rest "[]"] by simp
  moreover have "parse_tokens [TSlice s] = None" by (simp add: parse_tokens_def bare_slice_loops)
  ultimately have "parse_str_loop (Slice u) (CHR 0x5C # ''[||'' @ s @ ''||]'' @ rest) = None" for u
    by (simp add: parse_str_loop.simps[of _ "_ # _"] as_list_def)
  then show ?thesis by (simp only: parse_str_def parse_str_loop_plain[OF assms(1)]) simp
qed

lemma bare_text_hangs_example: "parse_str (CHR 0x5C # ''[||a||]'') = None"
  using bare_text_hangs[of "[]" "''a''" "[]"] by (simp add: plain_def)

end
