(* ===== verification/Shell_Output.thy ===== *)
theory Shell_Output
  imports Shell_Props Terminal_Props Navitts_Props
begin

text \<open>
  What the shell prints, on the terminal: \<open>_print\<close> of \<open>kernel/src/terminal/mod.rs\<close> hands every piece of formatted output to
  \<open>Terminal::write_str\<close>, which parses it for escape sequences and draws it.
\<close>

fun perform :: "font \<Rightarrow> shell_call list \<Rightarrow> terminal \<Rightarrow> terminal rust option" where
  "perform fnt [] t = Some (Inr t)"
| "perform fnt (c # rest) t =
     (case (case c of WriteStr str \<Rightarrow> terminal_write fnt str t | ClearScreen \<Rightarrow> clear fnt t | _ \<Rightarrow> Some (Inr t)) of
        None \<Rightarrow> None
      | Some (Inl p) \<Rightarrow> Some (Inl p)
      | Some (Inr t') \<Rightarrow> perform fnt rest t')"

lemma perform_append:
  "perform fnt (xs @ ys) t = (case perform fnt xs t of Some (Inr t') \<Rightarrow> perform fnt ys t' | r \<Rightarrow> r)"
  by (induction fnt xs t rule: perform.induct) (auto split: option.splits sum.splits)

text \<open>Output keeps the window of the screen inside the scroll-back.\<close>

lemma perform_window: "perform fnt xs t = Some (Inr t') \<Longrightarrow> window_ok t \<Longrightarrow> window_ok t'"
proof (induction fnt xs t rule: perform.induct)
  case (2 fnt c rest t)
  then show ?case
    by (auto split: option.splits sum.splits shell_call.splits intro: terminal_write_window clear_window)
qed simp

text \<open>
  C39: a word typed at the prompt can hang the kernel: \<open>echo\<close> prints its argument through the parser of escape sequences, and an escape without
  attributes, anywhere in the argument, is a text the parser never finishes.
\<close>
theorem echo_bare_escape_hangs:
  assumes "shell_word w" and "w = pre @ CHR 0x5C # ''[||'' @ txt @ ''||]'' @ rest" and "plain pre" and "good_text txt"
  shows "\<exists>s'. process_command (''echo '' @ w) confirm s = Inr s' \<and> calls s' = calls s @ [WriteStr w, WriteStr nl] \<and>
    perform fnt [WriteStr w, WriteStr nl] t = None"
proof -
  have "process_command (''echo '' @ w) confirm s = echo_cmd [''echo'', w] s"
    using split_unwords[of "[''echo'', w]"] assms(1) by (simp add: process_command_def shell_word_def plain_word_def idx_def)
  moreover have "echo_cmd [''echo'', w] s = Inr (print_args [w, nl] s)" by (simp add: echo_cmd_def)
  moreover have "calls (print_args [w, nl] s) = calls s @ [WriteStr w, WriteStr nl]" by (simp add: print_args_def emit_def)
  moreover have "perform fnt [WriteStr w, WriteStr nl] t = None"
    using bare_text_hangs[OF assms(3,4), of rest] by (simp add: terminal_write_def assms(2))
  ultimately show ?thesis by simp
qed

theorem echo_bare_escape_hangs_witness:
  "\<exists>s'. process_command (''echo '' @ CHR 0x5C # ''[||a||]'') '''' example_shell = Inr s' \<and>
    perform example_font (calls s') (terminal_init [] \<lparr>stride = 1, bytes_per_pixel = 1, pixel_format = Bgr\<rparr>) = None"
proof -
  let ?w = "CHR 0x5C # ''[||a||]''"
  have w: "shell_word ?w" "?w = [] @ CHR 0x5C # ''[||'' @ ''a'' @ ''||]'' @ []" "plain []" "good_text ''a''"
    by (simp_all add: shell_word_def plain_word_def plain_def)
  obtain s' where s': "process_command (''echo '' @ ?w) [] example_shell = Inr s'"
    "calls s' = calls example_shell @ [WriteStr ?w, WriteStr nl]"
    "perform example_font [WriteStr ?w, WriteStr nl] (terminal_init [] \<lparr>stride = 1, bytes_per_pixel = 1, pixel_format = Bgr\<rparr>) = None"
    using echo_bare_escape_hangs[OF w] by blast
  have c: "calls s' = [WriteStr ?w, WriteStr nl]" unfolding s'(2) by (simp add: example_shell_def)
  show ?thesis by (intro exI conjI, rule s'(1), unfold c, rule s'(3))
qed

end
