(* ===== verification/Panic_Handler.thy ===== *)
theory Panic_Handler
  imports Shell_Output Elf_Props Serial
begin

text \<open>
  The panic handler of \<open>kernel/src/main.rs\<close>. It prints on the serial line and, unless a panic happened while it was doing that, on the terminal. A panic inside the handler enters it again.
  The texts of a panic (message and place, in the pieces in which they are formatted), the stack and the frame pointer that the handler finds on each level of nesting and the image of the kernel are parameters.
  The result of the handler is the state in which it halts; \<open>None\<close> is that it never gets there.
\<close>

section \<open>Printing on both consoles\<close>

record console =
  con_ports :: io_log
  con_terminal :: "terminal option"

text \<open>A panic while the terminal draws is seen by nobody but the handler, which finds the terminal marked: what had been drawn before does not matter any more.\<close>

definition cross_println :: "device \<Rightarrow> font \<Rightarrow> string list \<Rightarrow> console \<Rightarrow> (panic \<times> console + console) option" where
  "cross_println dev fnt args c =
     Option.bind (serial dev (concat args) (con_ports c)) (\<lambda>h1.
     Option.bind (serial dev nl h1) (\<lambda>h.
     case con_terminal c of
       None \<Rightarrow> Some (Inr (c\<lparr>con_ports := h\<rparr>))
     | Some t \<Rightarrow>
         if panicked t then Some (Inr (c\<lparr>con_ports := h\<rparr>))
         else (case perform fnt (map WriteStr (args @ [nl])) (t\<lparr>panicked := True\<rparr>) of
             None \<Rightarrow> None
           | Some (Inl p) \<Rightarrow> Some (Inl (p, \<lparr>con_ports = h, con_terminal = Some (t\<lparr>panicked := True\<rparr>)\<rparr>))
           | Some (Inr t') \<Rightarrow> Some (Inr \<lparr>con_ports = h, con_terminal = Some (t'\<lparr>panicked := False\<rparr>)\<rparr>))))"

section \<open>The stack trace on the consoles\<close>

text \<open>The format \<open>{:#x}\<close>.\<close>

definition digit_x :: "nat \<Rightarrow> char" where
  "digit_x d = char_of (if d < 10 then 48 + d else 87 + d)"

fun fmt_hex :: "nat \<Rightarrow> string" where
  "fmt_hex n = (if n < 16 then [digit_x n] else fmt_hex (n div 16) @ [digit_x (n mod 16)])"

declare fmt_hex.simps [simp del]

definition frame_line :: "u64 \<Rightarrow> string \<Rightarrow> string list" where
  "frame_line ret name = [''  '', ''0x'' @ fmt_hex (unat ret), '' <'', name, ''>'']"

partial_function (option) print_frames :: "device \<Rightarrow> font \<Rightarrow> memory \<Rightarrow> elf option \<Rightarrow> u64 \<Rightarrow> console \<Rightarrow> (panic \<times> console + console) option" where
  "print_frames dev fnt m krnl fp c =
     (if fp = 0 then Some (Inr c)
      else case rbind (read_le m (unat fp + 8) 8) (\<lambda>ret. rbind (frame_name m krnl ret) (\<lambda>name. Inr (ret, name))) of
        Inl p \<Rightarrow> Some (Inl (p, c))
      | Inr (ret, name) \<Rightarrow>
          Option.bind (cross_println dev fnt (frame_line ret name) c) (\<lambda>r.
          case r of
            Inl x \<Rightarrow> Some (Inl x)
          | Inr c1 \<Rightarrow>
              (case read_le m (unat fp) 8 of
                 Inl p \<Rightarrow> Some (Inl (p, c1))
               | Inr fp' \<Rightarrow> print_frames dev fnt m krnl fp' c1)))"

definition print_stack_trace :: "device \<Rightarrow> font \<Rightarrow> memory \<Rightarrow> elf option \<Rightarrow> u64 \<Rightarrow> console \<Rightarrow> (panic \<times> console + console) option" where
  "print_stack_trace dev fnt m krnl fp c =
     Option.bind (cross_println dev fnt [''stack trace: ''] c) (\<lambda>r.
       case r of Inl x \<Rightarrow> Some (Inl x) | Inr c1 \<Rightarrow> print_frames dev fnt m krnl fp c1)"

section \<open>The handler\<close>

text \<open>What the handler of nesting level \<open>n\<close> finds.\<close>

record panic_env =
  env_text :: "panic \<Rightarrow> string list \<times> string list"
  env_memory :: "nat \<Rightarrow> memory"
  env_fp :: "nat \<Rightarrow> u64"
  env_elf :: "elf option"

definition panic_args :: "panic_env \<Rightarrow> panic \<Rightarrow> string list" where
  "panic_args env p = (case env_text env p of (message, location) \<Rightarrow> [''kernel panic:'' @ nl] @ message @ ['', at ''] @ location)"

definition panic_body :: "device \<Rightarrow> font \<Rightarrow> panic_env \<Rightarrow> nat \<Rightarrow> panic \<Rightarrow> console \<Rightarrow> (panic \<times> console + console) option" where
  "panic_body dev fnt env n p c =
     Option.bind (cross_println dev fnt (panic_args env p) c) (\<lambda>r.
       case r of Inl x \<Rightarrow> Some (Inl x) | Inr c1 \<Rightarrow> print_stack_trace dev fnt (env_memory env n) (env_elf env) (env_fp env n) c1)"

partial_function (option) panic_handler :: "device \<Rightarrow> font \<Rightarrow> panic_env \<Rightarrow> nat \<Rightarrow> panic \<Rightarrow> console \<Rightarrow> console option" where
  "panic_handler dev fnt env n p c =
     Option.bind (panic_body dev fnt env n p c) (\<lambda>r.
       case r of Inl (p', c1) \<Rightarrow> panic_handler dev fnt env (Suc n) p' c1 | Inr c1 \<Rightarrow> Some c1)"

section \<open>What reaches the serial line\<close>

text \<open>Nothing more is drawn: there is no terminal, or a panic happened while it was drawing.\<close>

definition silenced :: "console \<Rightarrow> bool" where
  "silenced c \<longleftrightarrow> (\<forall>t. con_terminal c = Some t \<longrightarrow> panicked t)"

fun result_console :: "panic \<times> console + console \<Rightarrow> console" where
  "result_console (Inl (p, c)) = c"
| "result_console (Inr c) = c"

text \<open>A step that puts some of the lines \<open>ls\<close> on the serial line: all of them, or it was cut short by a panic of the terminal, at the earliest after the first line.\<close>

definition prints :: "device \<Rightarrow> string list \<Rightarrow> console \<Rightarrow> (panic \<times> console + console) option \<Rightarrow> bool" where
  "prints dev ls c o' \<longleftrightarrow>
     (\<exists>r k. o' = Some r \<and> k \<le> length ls \<and>
        transmits dev (bytes_of (concat (map (\<lambda>l. l @ nl) (take k ls)))) (con_ports c) (con_ports (result_console r)) \<and>
        (silenced c \<longrightarrow> silenced (result_console r)) \<and>
        (case r of Inl (p, c1) \<Rightarrow> \<not> silenced c \<and> silenced c1 \<and> 0 < k | Inr c1 \<Rightarrow> k = length ls))"

lemma parse_plain: "plain s \<Longrightarrow> \<exists>r. parse_str s = Some r"
  using parse_str_loop_plain[of s "Slice s" "[]"] by (auto simp: parse_str_def parse_str_loop.simps[of _ "[]"])

lemma perform_plain: "\<forall>s \<in> set xs. plain s \<Longrightarrow> \<exists>r. perform fnt (map WriteStr xs) t = Some r"
proof (induction xs arbitrary: t)
  case (Cons s xs)
  then obtain r where "terminal_write fnt s t = Some r" using parse_plain[of s] by (auto simp: terminal_write_def)
  then show ?case using Cons by (cases r) auto
qed simp

lemma cross_println_prints:
  assumes "drains dev" and "\<forall>s \<in> set args. plain s"
  shows "prints dev [concat args] c (cross_println dev fnt args c)"
proof -
  obtain h1 h where h: "serial dev (concat args) (con_ports c) = Some h1" "serial dev nl h1 = Some h"
    and t: "transmits dev (bytes_of (concat args @ nl)) (con_ports c) h"
    by (rule serial_text.put_two[OF assms(1), where x = "concat args" and s = "con_ports c" and y = nl])
  show ?thesis
  proof (cases "silenced c")
    case True
    then have "cross_println dev fnt args c = Some (Inr (c\<lparr>con_ports := h\<rparr>))"
      using h by (auto simp: cross_println_def silenced_def split: option.splits)
    then show ?thesis using t True by (auto simp: prints_def silenced_def)
  next
    case False
    then obtain s where s: "con_terminal c = Some s" "\<not> panicked s" by (auto simp: silenced_def)
    have "\<forall>x \<in> set (args @ [nl]). plain x" using assms(2) by (auto simp: plain_def)
    from perform_plain[OF this] obtain r where r: "perform fnt (map WriteStr (args @ [nl])) (s\<lparr>panicked := True\<rparr>) = Some r" by blast
    show ?thesis unfolding prints_def
      by (rule exI[of _ "case r of Inl p \<Rightarrow> Inl (p, \<lparr>con_ports = h, con_terminal = Some (s\<lparr>panicked := True\<rparr>)\<rparr>)
            | Inr t' \<Rightarrow> Inr \<lparr>con_ports = h, con_terminal = Some (t'\<lparr>panicked := False\<rparr>)\<rparr>"], rule exI[of _ 1])
         (use h s r t False in \<open>auto simp: cross_println_def silenced_def split: sum.splits\<close>)
  qed
qed

lemma prints_bind:
  assumes a: "prints dev ls c x" and b: "\<And>c1. prints dev ms c1 (f c1)" and ls: "ls \<noteq> []"
  shows "prints dev (ls @ ms) c (Option.bind x (\<lambda>r. case r of Inl y \<Rightarrow> Some (Inl y) | Inr c1 \<Rightarrow> f c1))"
proof -
  from a obtain r k where r: "x = Some r" "k \<le> length ls"
      "transmits dev (bytes_of (concat (map (\<lambda>l. l @ nl) (take k ls)))) (con_ports c) (con_ports (result_console r))"
      "silenced c \<longrightarrow> silenced (result_console r)"
      "case r of Inl (p, c1) \<Rightarrow> \<not> silenced c \<and> silenced c1 \<and> 0 < k | Inr c1 \<Rightarrow> k = length ls" unfolding prints_def by blast
  show ?thesis
  proof (cases r)
    case (Inl y)
    then show ?thesis using r unfolding prints_def by (intro exI[of _ r] exI[of _ k]) auto
  next
    case (Inr c1)
    from b[of c1] obtain r2 k2 where r2: "f c1 = Some r2" "k2 \<le> length ms"
      "transmits dev (bytes_of (concat (map (\<lambda>l. l @ nl) (take k2 ms)))) (con_ports c1) (con_ports (result_console r2))"
      "silenced c1 \<longrightarrow> silenced (result_console r2)"
      "case r2 of Inl (p, c1') \<Rightarrow> \<not> silenced c1 \<and> silenced c1' \<and> 0 < k2 | Inr c1' \<Rightarrow> k2 = length ms" unfolding prints_def by blast
    have k: "k = length ls" using r(5) Inr by simp
    have t: "transmits dev (bytes_of (concat (map (\<lambda>l. l @ nl) (take (k + k2) (ls @ ms))))) (con_ports c) (con_ports (result_console r2))"
      using serial_text.emits_trans[OF r(3)] r2(3) Inr by (simp add: k)
    show ?thesis unfolding prints_def
      by (rule exI[of _ r2], rule exI[of _ "k + k2"]) (use r r2 t k Inr in \<open>auto split: sum.splits\<close>)
  qed
qed

section \<open>The report\<close>

text \<open>The frames \<open>fs n\<close> that the handler of level \<open>n\<close> finds, with the names \<open>nm\<close> of their functions, and the lines it has to print for a panic.\<close>

definition frames_ok :: "panic_env \<Rightarrow> (nat \<Rightarrow> (u64 \<times> u64) list) \<Rightarrow> (u64 \<Rightarrow> string) \<Rightarrow> bool" where
  "frames_ok env fs nm \<longleftrightarrow>
     (\<forall>n. chain (env_memory env n) (env_fp env n) (fs n) \<and>
        (\<forall>(ret, _) \<in> set (fs n). frame_name (env_memory env n) (env_elf env) ret = Inr (nm ret) \<and> plain (nm ret)))"

definition report :: "panic_env \<Rightarrow> (nat \<Rightarrow> (u64 \<times> u64) list) \<Rightarrow> (u64 \<Rightarrow> string) \<Rightarrow> nat \<Rightarrow> panic \<Rightarrow> string list" where
  "report env fs nm n p = concat (panic_args env p) # ''stack trace: '' # map (\<lambda>(ret, _). concat (frame_line ret (nm ret))) (fs n)"

definition texts_plain :: "panic_env \<Rightarrow> bool" where
  "texts_plain env \<longleftrightarrow> (\<forall>p. case env_text env p of (message, location) \<Rightarrow> \<forall>s \<in> set (message @ location). plain s)"

lemma plain_digit: "d < 16 \<Longrightarrow> digit_x d \<noteq> CHR 0x5C"
  unfolding digit_x_def by (auto dest!: arg_cong[where f = "of_char :: char \<Rightarrow> nat"])

lemma plain_hex: "plain (fmt_hex n)"
proof (induction n rule: fmt_hex.induct)
  case (1 n)
  have "digit_x (n mod 16) \<noteq> CHR 0x5C" by (rule plain_digit) simp
  then show ?case using 1 plain_digit[of n] by (subst fmt_hex.simps) (auto simp: plain_def)
qed

lemma plain_frame_line: "plain name \<Longrightarrow> \<forall>s \<in> set (frame_line ret name). plain s"
  using plain_hex[of "unat ret"] by (simp add: frame_line_def plain_def)

lemma print_frames_prints:
  assumes "drains dev" and "chain m fp fs" and "\<forall>(ret, _) \<in> set fs. frame_name m krnl ret = Inr (nm ret) \<and> plain (nm ret)"
  shows "prints dev (map (\<lambda>(ret, _). concat (frame_line ret (nm ret))) fs) c (print_frames dev fnt m krnl fp c)"
  using assms(2,3)
proof (induction m fp fs arbitrary: c rule: chain.induct)
  case (1 m fp)
  then show ?case by (subst print_frames.simps) (auto simp: prints_def intro: serial_text.emits_Nil)
next
  case (2 m fp ret fp' fs)
  then have "read_le m (unat fp) 8 = Inr fp'" "read_le m (unat fp + 8) 8 = Inr ret" by (auto intro: read_le_stored)
  then have "print_frames dev fnt m krnl fp c = Option.bind (cross_println dev fnt (frame_line ret (nm ret)) c)
      (\<lambda>r. case r of Inl x \<Rightarrow> Some (Inl x) | Inr c1 \<Rightarrow> print_frames dev fnt m krnl fp' c1)"
    using 2(2,3) by (subst print_frames.simps) simp
  moreover have "prints dev [concat (frame_line ret (nm ret))] c (cross_println dev fnt (frame_line ret (nm ret)) c)"
    using 2(3) by (intro cross_println_prints[OF assms(1)] plain_frame_line) simp
  moreover have "prints dev (map (\<lambda>(ret, _). concat (frame_line ret (nm ret))) fs) c1 (print_frames dev fnt m krnl fp' c1)" for c1
    using 2 by simp
  ultimately show ?case using prints_bind[where ls = "[concat (frame_line ret (nm ret))]"] by simp
qed

lemma panic_body_prints:
  assumes dr: "drains dev" and tx: "texts_plain env" and fr: "frames_ok env fs nm"
  shows "prints dev (report env fs nm n p) c (panic_body dev fnt env n p c)"
proof -
  let ?lines = "map (\<lambda>(ret, _). concat (frame_line ret (nm ret))) (fs n)"
  have "\<forall>s \<in> set (panic_args env p). plain s"
    using tx[unfolded texts_plain_def, rule_format, of p] by (cases "env_text env p") (auto simp: panic_args_def plain_def)
  then have 1: "prints dev [concat (panic_args env p)] c (cross_println dev fnt (panic_args env p) c)"
    by (rule cross_println_prints[OF dr])
  have 2: "prints dev [''stack trace: ''] c1 (cross_println dev fnt [''stack trace: ''] c1)" for c1
    using cross_println_prints[OF dr, of "[''stack trace: '']" c1] by (simp add: plain_def)
  have 3: "prints dev ?lines c1 (print_frames dev fnt (env_memory env n) (env_elf env) (env_fp env n) c1)" for c1
    using fr by (intro print_frames_prints[OF dr]) (auto simp: frames_ok_def)
  have "prints dev (''stack trace: '' # ?lines) c1 (print_stack_trace dev fnt (env_memory env n) (env_elf env) (env_fp env n) c1)" for c1
    using prints_bind[OF 2 3] by (simp add: print_stack_trace_def)
  from prints_bind[OF 1 this] show ?thesis by (simp add: panic_body_def report_def)
qed

lemma panic_silenced:
  assumes "drains dev" and "texts_plain env" and "frames_ok env fs nm" and "silenced c"
  shows "\<exists>c'. panic_handler dev fnt env n p c = Some c' \<and> silenced c' \<and>
    transmits dev (bytes_of (concat (map (\<lambda>l. l @ nl) (report env fs nm n p)))) (con_ports c) (con_ports c')"
  using panic_body_prints[OF assms(1-3), of n p c fnt] assms(4)
  by (subst panic_handler.simps) (auto simp: prints_def split: sum.splits)


definition example_env :: panic_env where
  "example_env = \<lparr>env_text = (\<lambda>p. ([''explicit panic''], [''main.rs'', '':'', ''1''])), env_memory = (\<lambda>n. example_memory),
     env_fp = (\<lambda>n. 56), env_elf = None\<rparr>"


end
