(* ===== verification/Spec2Isabelle.thy ===== *)
theory Spec2Isabelle
  imports Boot_Props Timer_Irq Panic_Handler
begin

text \<open>
  A verification library for NaviOS, a small x86-64 kernel in Rust (\<open>src/kernel\<close>).

  \<^bold>\<open>The program.\<close> At boot \<open>kinit\<close> reads the answers of the boot loader and the image of the kernel, \<open>RegionAllocator::new\<close> builds a bitmap of physical frames from the memory map,
  \<open>arch::init\<close> loads the segment and interrupt tables, reads the firmware tables and programs the interrupt controllers,
  \<open>memory::init\<close> maps a heap through the page tables and hands it to a linked-list allocator, \<open>vfs::init\<close> mounts an in-memory drive, and the
  scheduler starts with two processes, \<open>kernel\<close> and \<open>shell\<close>. The timer interrupt enters \<open>context_switch_stub\<close>, which saves the registers, asks
  \<open>Scheduler::switch\<close> for the next process and restores its registers. The keyboard interrupt feeds a byte to \<open>encode_ps2_set_1\<close>; a key that
  is pressed goes through \<open>map_key\<close> to \<open>Terminal::on_key_pressed\<close>, which edits the input line and draws. The shell waits in \<open>readln\<close>
  for a line, splits it into words and runs a command on the drives, the scheduler and the terminal. Everything printed goes through the
  parser of escape sequences. A panic prints its message and a stack trace, with names from the kernel image, on the serial line and the terminal, and halts.

  \<^bold>\<open>Conventions.\<close> Machine integers are words; arithmetic is checked as in the profile the kernel is built with, so an overflow is
  a panic. A function that can panic returns \<open>'a rust\<close> (\<open>Inl\<close> a panic, \<open>Inr\<close> a value), \<open>Result\<close> is a sum, \<open>Option\<close> is an option. State is passed
  explicitly, in records that have the fields of the Rust structs. A function that may run forever has a further option around its
  result and is a \<open>partial_function (option)\<close>: not returning is \<open>None\<close>. Wherever the code does return this is proved; there is no fuel in the development.
  Following a raw pointer whose target is gone is the value \<open>DanglingPointer\<close>.

  \<^bold>\<open>Theories and sources\<close> (all paths below \<open>kernel/src\<close>).
  \<^item> \<open>Prelude\<close>: panics, checked arithmetic, slices, the shared lemmas on them (collection \<open>rust_simps\<close>).
  \<^item> \<open>Addresses\<close>: \<open>memory/mod.rs\<close>, alignment and page-table indices. They are the nearest multiples; when \<open>align_up\<close> panics is exact.
  \<^item> \<open>Frame_Allocator\<close>, \<open>Frame_Init\<close>: \<open>memory/frame_allocator.rs\<close>. The record \<open>region_allocator\<close> is the bitmap and the search start; it refines a set of free
    frames. Allocation is first fit and frames handed out are distinct; after \<open>new\<close> the free frames are the usable ones outside the bitmap.
  \<^item> \<open>Paging\<close>, \<open>Address_Space\<close>: \<open>memory/paging.rs\<close>. The record \<open>machine\<close> holds the tables in memory, the frame allocator, cr3 and the physical offset. \<open>map_to\<close> maps
    one page and nothing else, \<open>is_mapped\<close> decides the four-level walk, \<open>allocate_pml4\<close> and \<open>free\<close> undo each other; freeing a leaf entry leaks.
  \<^item> \<open>Heap_Allocator\<close>, \<open>Heap_Safety\<close>, \<open>Heap_Growth\<close>: \<open>memory/allocator.rs\<close> and \<open>init_heap\<close>. Live blocks are disjoint in every history, allocation is first fit and
    always returns, growth maps fresh frames; merging nodes after a growth can overrun the heap.
  \<^item> \<open>Cpu_Context\<close>: \<open>arch/x86_64/threading/mod.rs\<close>, the pushes and pops of the assembly stubs as functions on a stack of words. An interrupt that does not
    switch changes nothing.
  \<^item> \<open>Scheduler\<close>, \<open>Scheduling\<close>: \<open>threading/mod.rs\<close>. The chain of processes is a list, the current process an index. \<open>switch\<close> is round robin, pids are unique in every
    reachable state, \<open>pkill\<close> and \<open>pkillall\<close> mark what they say; when all processes are killed \<open>switch\<close> never returns.
  \<^item> \<open>Btree_Map\<close>, \<open>Vfs\<close>, \<open>Vfs_Props\<close>: \<open>drivers/vfs\<close>. Inodes are a tree, a file descriptor names its drive and the keys on the way to its inode. Opening, creating, writing
    and reading on paths of plain names, and the invariant of the trees in every history; \<open>..\<close> and the second use of a descriptor go wrong. The locale
    \<open>ordered_map\<close> is what the file system needs of \<open>BTreeMap\<close>.
  \<^item> \<open>Keyboard\<close>, \<open>Keyboard_Props\<close>: \<open>drivers/keyboard.rs\<close>. The state is the three statics of the driver; what a key press, its repetitions and its release do, and the exact streams of
    bytes that panic.
  \<^item> \<open>Keymapper\<close>: \<open>drivers/keymapper.rs\<close>. The array built by \<open>create_mapping\<close> answers as the list of its entries.
  \<^item> \<open>Navitts\<close>, \<open>Navitts_Props\<close>: \<open>terminal/navitts.rs\<close>, lexer and parser of escape sequences. What is printed with well-formed escapes parses back; an escape without
    attributes is never finished.
  \<^item> \<open>Terminal\<close>, \<open>Terminal_Props\<close>: \<open>terminal/framebuffer.rs\<close> and \<open>readln\<close>. The font is a parameter. The window stays inside the scroll-back, Page Up and Page Down move it by a line, the
    input line refines a line editor; which bytes \<open>draw_viewport\<close> leaves stale and when it panics is exact.
  \<^item> \<open>Shell\<close>, \<open>Shell_Props\<close>, \<open>Shell_Output\<close>: \<open>terminal/mod.rs\<close>. The commands on drives, scheduler and terminal; files created are listed, texts written are printed, no line breaks the state
    and only three commands can panic; one way to make \<open>ls\<close> panic and one way to make \<open>echo\<close> hang.
  \<^item> \<open>Raw_Bytes\<close>, \<open>Elf\<close>, \<open>Elf_Props\<close>: \<open>utils/elf.rs\<close>. Memory that the code reads through raw pointers is a list of bytes with holes; reading a hole is \<open>DanglingPointer\<close>. Headers, sections and symbols in
    the ELF64 layout are read back, and a stack trace over them names every frame.
  \<^item> \<open>Acpi\<close>, \<open>Acpi_Props\<close>: \<open>arch/x86_64/acpi.rs\<close>. The search for a table by its signature and for a record of the interrupt controller table: the first match is found; without a match the second search leaves the table.
  \<^item> \<open>Descriptors\<close>: \<open>gdt.rs\<close>, \<open>interrupts/idt.rs\<close>, \<open>interrupts/mod.rs\<close> and the table of \<open>interrupts/handlers.rs\<close>. What the processor decodes from the segment and interrupt tables is what was meant.
  \<^item> \<open>Apic\<close>: \<open>interrupts/apic.rs\<close>. The writes to the registers of the two controllers, in order; the destination of the keyboard interrupt is wrong for every processor but the one with id zero.
  \<^item> \<open>Serial\<close>, \<open>Power_Control\<close>: ports, \<open>serial.rs\<close>, and \<open>shutdown\<close>, \<open>reboot\<close> and \<open>enable_acpi\<close>. A driver is a function on the history of port accesses. Every byte is sent, none while the device is full;
    \<open>shutdown\<close> writes what the tables ask for; switching ACPI on waits for the wrong register.
  \<^item> \<open>Keyboard_Irq\<close>: the keyboard interrupt, from the data port through driver and key mapping to the terminal: the strokes for a line, as bytes of the controller, make \<open>readln\<close> return that line.
  \<^item> \<open>Boot\<close>, \<open>Boot_Props\<close>: \<open>limine.rs\<close>, \<open>globals.rs\<close>, \<open>arch::init\<close> and \<open>kinit\<close> of \<open>main.rs\<close>. On a machine with what boot protocol and firmware promise the kernel boots, into the states in which the properties of the
    components start: the heap, file system, terminal and scheduler invariants hold and the first process runs.
  \<^item> \<open>Timer_Irq\<close>: the timer interrupt, composed of \<open>Cpu_Context\<close>, \<open>Scheduler\<close> and \<open>Apic\<close>. Whatever the processes do between interrupts, each gets back its registers and address space when its turn comes round.
  \<^item> \<open>Panic_Handler\<close>: \<open>panic\<close> and \<open>print_stack_trace\<close> of \<open>main.rs\<close>, composed of \<open>Elf\<close>, \<open>Serial\<close> and \<open>Terminal\<close>. The handler halts and the serial line has the report, even if drawing it panics again.

  \<^bold>\<open>Interfaces.\<close> Where one part relies on another, the contract is a locale, interpreted on the definitions of the part that provides it: \<open>frame_source\<close> (frame allocator, for page tables and heap), \<open>block_heap\<close> (heap, for its
  histories), \<open>ordered_map\<close> (\<open>BTreeMap\<close>, for the file system), \<open>context_store\<close> (saved registers, for the timer interrupt) and \<open>text_output\<close> (serial line, for panic handler and power control).

  \<^bold>\<open>Parameters.\<close> Code outside the repository is an argument: the answers of the boot loader (memory map, physical offset, image, frame buffer), the memory of the firmware, the model-specific register and id of the local APIC, the
  addresses of the handlers and of the task state segment, the devices behind the ports, the glyphs (font crate), the line that \<open>readln\<close> returns inside a command (the user), and, for the panic handler, the texts the compiler makes of a panic and the
  stack it finds. Hypotheses on them are what their documents promise: \<open>mmap_ok\<close> and \<open>limine_ok\<close> (boot protocol), \<open>firmware_ok\<close> (ACPI tables), \<open>drains\<close> (a serial port has room again in the end).

  \<^bold>\<open>Not modelled.\<close> \<open>kmain\<close>, which prints two fixed texts and halts; the exception handlers that only format their frame and panic; the messages on the serial line during boot and the \<open>Debug\<close> dumps; the test harness, the
  macros and the build scripts. Locks, the flush of the TLB and volatile accesses have no effect on the modelled state: there is one processor, and an interrupt that arrives inside a critical section is not modelled.
  The heap blocks behind boxed processes are not tracked in the scheduler. What a panic inside drawing leaves half drawn is not tracked, since the terminal is not used after it.
\<close>

end
